(* ===== verification/Rest_Prelude.thy ===== *)
theory Rest_Prelude
  imports Main "HOL-Library.Signed_Division"
begin

text \<open>
  The vocabulary the components share: the machine integers of the build target, C strings, the
  C library's number parsers, and list facts the component proofs use.

  The extension is built for Linux on i386 (\<open>cmake/sniper-i386.cmake\<close> passes \<open>-m32\<close>), so
  \<open>int\<close>, \<open>long\<close> and \<open>cell_t\<close> have 32 bits, \<open>size_t\<close> has 32 bits, and \<open>long long\<close>
  (also \<open>curl_off_t\<close>) has 64 bits. Values are modelled as \<^typ>\<open>int\<close> or \<^typ>\<open>nat\<close>;
  where a conversion or an operation of the code can leave its type the wrap-around is written
  with \<open>to_i32\<close>, \<open>to_u32\<close> or \<open>to_i64\<close>.
\<close>

named_theorems rest_defs \<open>unfolding rules of the small helper operations\<close>

named_theorems frame_simps \<open>what an operation leaves unchanged\<close>

section \<open>Machine integers\<close>

definition to_i32 :: "int \<Rightarrow> int" where
  "to_i32 x = (x + 2147483648) mod 4294967296 - 2147483648"

definition to_u32 :: "int \<Rightarrow> int" where
  "to_u32 x = x mod 4294967296"

definition to_i64 :: "int \<Rightarrow> int" where
  "to_i64 x = (x + 9223372036854775808) mod 18446744073709551616 - 9223372036854775808"

definition is_i32 :: "int \<Rightarrow> bool" where
  "is_i32 x \<longleftrightarrow> -2147483648 \<le> x \<and> x \<le> 2147483647"

definition is_i64 :: "int \<Rightarrow> bool" where
  "is_i64 x \<longleftrightarrow> -9223372036854775808 \<le> x \<and> x \<le> 9223372036854775807"

lemma to_i32_id [simp]: "is_i32 x \<Longrightarrow> to_i32 x = x"
  by (simp add: to_i32_def is_i32_def)

lemma to_i32_range [simp]: "is_i32 (to_i32 x)"
proof -
  have "0 \<le> (x + 2147483648) mod 4294967296" "(x + 2147483648) mod 4294967296 < 4294967296"
    by simp_all
  then show ?thesis unfolding to_i32_def is_i32_def by linarith
qed

lemma to_u32_id [simp]: "0 \<le> x \<Longrightarrow> x < 4294967296 \<Longrightarrow> to_u32 x = x"
  by (simp add: to_u32_def)

lemma to_u32_range: "0 \<le> to_u32 x \<and> to_u32 x < 4294967296"
  by (simp add: to_u32_def)

lemma to_u32_nonneg [simp]: "0 \<le> to_u32 x"
  by (simp add: to_u32_def)

lemma to_i64_id [simp]: "is_i64 x \<Longrightarrow> to_i64 x = x"
  by (simp add: to_i64_def is_i64_def)

section \<open>C strings\<close>

text \<open>
  A \<open>std::string\<close> is a list of bytes. What a callee sees through \<open>c_str()\<close> ends at the first
  NUL byte.
\<close>

definition c_str :: "string \<Rightarrow> string" where
  "c_str s = takeWhile (\<lambda>c. c \<noteq> CHR 0x00) s"

lemma c_str_idem [simp]: "c_str (c_str s) = c_str s"
  by (auto simp: c_str_def takeWhile_eq_all_conv dest: set_takeWhileD)

lemma c_str_id: "CHR 0x00 \<notin> set s \<Longrightarrow> c_str s = s"
  by (auto simp: c_str_def takeWhile_eq_all_conv)

lemma c_str_Nil [simp]: "c_str [] = []"
  by (simp add: c_str_def)

section \<open>Number parsing of the C library\<close>

text \<open>
  \<open>strtol\<close> and \<open>atoll\<close> in base 10: leading white space (\<open>isspace\<close> of the C locale), an optional
  sign, digits; the result saturates at the limits of its type. No digit at all is no conversion
  (\<open>end == start\<close> for \<open>strtol\<close>), here \<^const>\<open>None\<close>.
\<close>

definition is_space_char :: "char \<Rightarrow> bool" where
  "is_space_char c \<longleftrightarrow>
     c \<in> {CHR 0x20, CHR 0x09, CHR 0x0A, CHR 0x0B, CHR 0x0C, CHR 0x0D}"

definition is_digit_char :: "char \<Rightarrow> bool" where
  "is_digit_char c \<longleftrightarrow> 48 \<le> (of_char c :: nat) \<and> (of_char c :: nat) \<le> 57"

definition digit_val :: "char \<Rightarrow> int" where
  "digit_val c = int (of_char c :: nat) - 48"

fun digits_val :: "int \<Rightarrow> string \<Rightarrow> int" where
  "digits_val acc [] = acc"
| "digits_val acc (c # cs) = digits_val (10 * acc + digit_val c) cs"

definition c_parse_int :: "int \<Rightarrow> int \<Rightarrow> string \<Rightarrow> int option" where
  "c_parse_int lo hi s =
     (let t = dropWhile is_space_char (c_str s);
          neg = (t \<noteq> [] \<and> hd t = CHR ''-'');
          u = (if t \<noteq> [] \<and> (hd t = CHR ''-'' \<or> hd t = CHR ''+'') then tl t else t);
          ds = takeWhile is_digit_char u;
          v = digits_val 0 ds
      in if ds = [] then None
         else Some (max lo (min hi (if neg then - v else v))))"

definition strtol10 :: "string \<Rightarrow> int option" where
  "strtol10 s = c_parse_int (-2147483648) 2147483647 s"

definition atoll :: "string \<Rightarrow> int" where
  "atoll s = (case c_parse_int (-9223372036854775808) 9223372036854775807 s of
                None \<Rightarrow> 0 | Some v \<Rightarrow> v)"

lemma c_parse_int_range:
  "c_parse_int lo hi s = Some v \<Longrightarrow> lo \<le> hi \<Longrightarrow> lo \<le> v \<and> v \<le> hi"
  by (auto simp: c_parse_int_def Let_def split: if_splits)

lemma strtol10_range: "strtol10 s = Some v \<Longrightarrow> is_i32 v"
  using c_parse_int_range [of "-2147483648" 2147483647 s v]
  by (simp add: strtol10_def is_i32_def)

lemma atoll_range: "is_i64 (atoll s)"
  using c_parse_int_range [of "-9223372036854775808" 9223372036854775807 s]
  by (auto simp: atoll_def is_i64_def split: option.splits)

section \<open>Decimal printing\<close>

text \<open>\<open>std::to_string\<close> on an integer: the decimal digits, with a leading minus sign.\<close>

fun nat_dec :: "nat \<Rightarrow> string" where
  "nat_dec n = (if n < 10 then [char_of (48 + n)] else nat_dec (n div 10) @ [char_of (48 + n mod 10)])"

declare nat_dec.simps [simp del]

definition to_dec :: "int \<Rightarrow> string" where
  "to_dec x = (if x < 0 then CHR ''-'' # nat_dec (nat (- x)) else nat_dec (nat x))"

lemma of_char_digit: "d < 10 \<Longrightarrow> of_char (char_of (48 + d) :: char) = (48 + d :: nat)"
  by simp

lemma is_digit_char_digit [simp]: "d < 10 \<Longrightarrow> is_digit_char (char_of (48 + d :: nat))"
  by (simp add: is_digit_char_def)

lemma digit_val_digit [simp]: "d < 10 \<Longrightarrow> digit_val (char_of (48 + d :: nat)) = int d"
  by (simp add: digit_val_def)

lemma nat_dec_nonempty [simp]: "nat_dec n \<noteq> []"
  by (subst nat_dec.simps) simp

lemma nat_dec_digits: "list_all is_digit_char (nat_dec n)"
proof (induction n rule: nat_dec.induct)
  case (1 n)
  then show ?case by (subst nat_dec.simps) auto
qed

lemma digits_val_append: "digits_val a (xs @ ys) = digits_val (digits_val a xs) ys"
  by (induction xs arbitrary: a) auto

lemma digits_val_nat_dec: "digits_val 0 (nat_dec n) = int n"
proof (induction n rule: nat_dec.induct)
  case (1 n)
  show ?case
  proof (cases "n < 10")
    case True
    then show ?thesis by (subst nat_dec.simps) simp
  next
    case False
    have "digits_val 0 (nat_dec n) = 10 * int (n div 10) + int (n mod 10)"
      using "1.IH" [OF False] False
      by (subst nat_dec.simps) (simp add: digits_val_append)
    then show ?thesis by (simp add: zdiv_int zmod_int)
  qed
qed

section \<open>Generic list facts\<close>

text \<open>The position of the first element that satisfies a predicate, as \<open>find_*\<close> report it.\<close>

fun find_index :: "('a \<Rightarrow> bool) \<Rightarrow> 'a list \<Rightarrow> nat option" where
  "find_index P [] = None"
| "find_index P (x # xs) = (if P x then Some 0 else map_option Suc (find_index P xs))"

lemma find_index_None_iff: "find_index P xs = None \<longleftrightarrow> (\<forall>x \<in> set xs. \<not> P x)"
  by (induction xs) auto

lemma find_index_Some_length: "find_index P xs = Some i \<Longrightarrow> i < length xs"
  by (induction xs arbitrary: i) (auto split: if_splits)

lemma find_index_SomeD: "find_index P xs = Some i \<Longrightarrow> i < length xs \<and> P (xs ! i)"
  by (induction xs arbitrary: i) (auto split: if_splits)

lemma find_index_drop: "find_index P xs = Some i \<Longrightarrow> drop i xs = dropWhile (\<lambda>x. \<not> P x) xs"
  by (induction xs arbitrary: i) (auto split: if_splits)

lemma find_index_take: "find_index P xs = Some i \<Longrightarrow> take i xs = takeWhile (\<lambda>x. \<not> P x) xs"
  by (induction xs arbitrary: i) (auto split: if_splits)

lemma find_index_append:
  "find_index P (xs @ ys) =
     (case find_index P xs of Some i \<Rightarrow> Some i | None \<Rightarrow> map_option ((+) (length xs)) (find_index P ys))"
proof (induction xs)
  case Nil
  show ?case by (cases "find_index P ys") auto
next
  case (Cons x xs)
  then show ?case by (cases "find_index P ys") (auto split: option.splits)
qed

lemma dropWhile_all: "\<forall>x \<in> set xs. P x \<Longrightarrow> dropWhile P xs = []"
  by (induction xs) auto

lemma filter_empty_conv': "filter P xs = [] \<longleftrightarrow> (\<forall>x \<in> set xs. \<not> P x)"
  by (induction xs) auto

lemma sum_list_filter_le_nat:
  fixes f :: "'a \<Rightarrow> nat"
  shows "sum_list (map f (filter P xs)) \<le> sum_list (map f xs)"
  by (induction xs) auto

end
