(* ===== verification/Rest_Text.thy ===== *)
theory Rest_Text
  imports Rest_Prelude
begin

text \<open>
  \<open>src/text.cpp\<close>: ASCII case folding, trimming, and the header list with its case-insensitive
  lookup. Character classification is that of the C locale. The header list is an association
  list (order and spelling matter when it is sent); its contract is the locale \<open>header_store\<close>,
  interpreted at the end on the operations of the code.
\<close>

section \<open>Case folding and trimming\<close>

type_synonym header_list = "(string \<times> string) list"

definition lower_char :: "char \<Rightarrow> char" where
  "lower_char c =
     (if 65 \<le> (of_char c :: nat) \<and> (of_char c :: nat) \<le> 90
      then char_of ((of_char c :: nat) + 32) else c)"

definition to_lower :: "string \<Rightarrow> string" where
  "to_lower value = map lower_char value"

definition trim_set :: "string" where
  "trim_set = [CHR 0x20, CHR 0x09, CHR 0x0D, CHR 0x0A]"

definition find_first_not_of :: "string \<Rightarrow> string \<Rightarrow> nat option" where
  "find_first_not_of s cs = find_index (\<lambda>c. c \<notin> set cs) s"

definition find_last_not_of :: "string \<Rightarrow> string \<Rightarrow> nat option" where
  "find_last_not_of s cs =
     map_option (\<lambda>i. length s - 1 - i) (find_index (\<lambda>c. c \<notin> set cs) (rev s))"

text \<open>\<open>std::string::find\<close> of a character.\<close>

definition str_find_char :: "char \<Rightarrow> string \<Rightarrow> nat option" where
  "str_find_char c s = find_index (\<lambda>d. d = c) s"

text \<open>
  \<open>Trim\<close>: the two searches and the \<open>substr\<close> between them. The second search cannot fail once
  the first one succeeded; its \<^const>\<open>None\<close> branch is what \<open>substr(start, npos - start + 1)\<close>
  with the wrapped count would give.
\<close>

definition trim :: "string \<Rightarrow> string" where
  "trim value =
     (case find_first_not_of value trim_set of
        None \<Rightarrow> ''''
      | Some start \<Rightarrow>
          (case find_last_not_of value trim_set of
             None \<Rightarrow> drop start value
           | Some end_pos \<Rightarrow> take (end_pos - start + 1) (drop start value)))"

definition equals_ignore_case :: "string \<Rightarrow> string \<Rightarrow> bool" where
  "equals_ignore_case left right =
     (if length left \<noteq> length right then False
      else list_all (\<lambda>i. lower_char (left ! i) = lower_char (right ! i)) [0..<length left])"

section \<open>The header list\<close>

fun set_header :: "header_list \<Rightarrow> string \<Rightarrow> string \<Rightarrow> header_list" where
  "set_header [] name value = [(name, value)]"
| "set_header ((k, v) # headers) name value =
     (if equals_ignore_case k name then (k, value) # headers
      else (k, v) # set_header headers name value)"

definition remove_header :: "header_list \<Rightarrow> string \<Rightarrow> header_list" where
  "remove_header headers name = filter (\<lambda>entry. \<not> equals_ignore_case (fst entry) name) headers"

fun find_header :: "header_list \<Rightarrow> string \<Rightarrow> string option" where
  "find_header [] name = None"
| "find_header ((k, v) # headers) name =
     (if equals_ignore_case k name then Some v else find_header headers name)"

section \<open>Case-insensitive comparison\<close>

lemma lower_char_upper:
  assumes "65 \<le> (of_char c :: nat)" and "(of_char c :: nat) \<le> 90"
  shows "(of_char (lower_char c) :: nat) = of_char c + 32"
proof -
  have "(of_char (char_of ((of_char c :: nat) + 32)) :: nat) = (of_char c + 32) mod 256"
    by (simp only: of_char_of)
  also have "\<dots> = of_char c + 32" using assms by (simp add: mod_less)
  finally show ?thesis using assms by (simp add: lower_char_def)
qed

lemma lower_char_idem [simp]: "lower_char (lower_char c) = lower_char c"
proof (cases "65 \<le> (of_char c :: nat) \<and> (of_char c :: nat) \<le> 90")
  case True
  then have "90 < (of_char (lower_char c) :: nat)" using lower_char_upper [of c] by simp
  then show ?thesis by (simp add: lower_char_def [of "lower_char c"])
next
  case False
  then have "lower_char c = c" by (simp only: lower_char_def if_False)
  then show ?thesis by simp
qed

lemma to_lower_idem: "to_lower (to_lower s) = to_lower s"
  by (simp add: to_lower_def comp_def)

lemma length_to_lower [simp]: "length (to_lower s) = length s"
  by (simp add: to_lower_def)

text \<open>The index loop of \<open>EqualsIgnoreCase\<close> decides equality of the folded strings.\<close>

lemma equals_ignore_case_iff: "equals_ignore_case a b \<longleftrightarrow> to_lower a = to_lower b"
proof -
  have "map lower_char a = map lower_char b \<longleftrightarrow>
      length a = length b \<and> (\<forall>i < length a. lower_char (a ! i) = lower_char (b ! i))"
    using list_eq_iff_nth_eq [of "map lower_char a" "map lower_char b"] by auto
  then show ?thesis
    by (auto simp: equals_ignore_case_def to_lower_def list_all_iff)
qed

lemma equals_ignore_case_refl [simp]: "equals_ignore_case a a"
  by (simp add: equals_ignore_case_iff)

lemma equals_ignore_case_sym: "equals_ignore_case a b = equals_ignore_case b a"
  by (auto simp: equals_ignore_case_iff)

lemma equals_ignore_case_trans:
  "equals_ignore_case a b \<Longrightarrow> equals_ignore_case b c \<Longrightarrow> equals_ignore_case a c"
  by (simp add: equals_ignore_case_iff)

section \<open>Trimming\<close>

definition is_trim_char :: "char \<Rightarrow> bool" where
  "is_trim_char c \<longleftrightarrow> c \<in> set trim_set"

lemma not_trim_pred: "(\<lambda>c. c \<notin> set trim_set) = (\<lambda>c. \<not> is_trim_char c)"
  by (simp add: is_trim_char_def)

text \<open>The reference definition: cut the white prefix, then the white suffix.\<close>

lemma trim_eq_strip: "trim s = rev (dropWhile is_trim_char (rev (dropWhile is_trim_char s)))"
proof (cases "find_index (\<lambda>c. \<not> is_trim_char c) s")
  case None
  then have "dropWhile is_trim_char s = []"
    by (simp only: find_index_None_iff not_not dropWhile_all)
  then have "rev (dropWhile is_trim_char (rev (dropWhile is_trim_char s))) = []"
    by (simp only: rev.simps dropWhile.simps)
  with None show ?thesis
    by (simp add: trim_def find_first_not_of_def not_trim_pred)
next
  case (Some i)
  then obtain x where x: "x \<in> set s" "\<not> is_trim_char x"
    using find_index_None_iff [of "\<lambda>c. \<not> is_trim_char c" s] by auto
  then obtain j where j: "find_index (\<lambda>c. \<not> is_trim_char c) (rev s) = Some j"
    using find_index_None_iff [of "\<lambda>c. \<not> is_trim_char c" "rev s"] by auto
  define m where "m = dropWhile is_trim_char s"
  have s: "s = take i s @ m"
    using find_index_drop [OF Some] append_take_drop_id [of i s] by (simp add: m_def)
  have len: "length (take i s) = i"
    using find_index_Some_length [OF Some] by simp
  have m_x: "m \<noteq> [] \<and> \<not> is_trim_char (hd m)"
    unfolding m_def using x hd_dropWhile [of is_trim_char s] by (auto simp: dropWhile_eq_Nil_conv)
  have jm: "find_index (\<lambda>c. \<not> is_trim_char c) (rev m) = Some j"
  proof -
    have ex: "hd m \<in> set (rev m)" using m_x by simp
    then obtain k where k: "find_index (\<lambda>c. \<not> is_trim_char c) (rev m) = Some k"
      using m_x find_index_None_iff [of "\<lambda>c. \<not> is_trim_char c" "rev m"] by auto
    have "rev s = rev m @ rev (take i s)" using s by (metis rev_append)
    with k j show ?thesis by (simp add: find_index_append)
  qed
  have jl: "j < length m" using find_index_Some_length [OF jm] by simp
  have ls: "length s = i + length m" using s len by (metis length_append)
  have d: "drop i s = m" using s len by (metis append_eq_conv_conj)
  have "trim s = take (length s - 1 - j - i + 1) m"
    using Some j d by (simp add: trim_def find_first_not_of_def find_last_not_of_def not_trim_pred)
  also have "length s - 1 - j - i + 1 = length m - j" using ls jl by simp
  also have "take (length m - j) m = rev (drop j (rev m))" by (simp add: rev_drop)
  also have "drop j (rev m) = dropWhile is_trim_char (rev m)"
    using find_index_drop [OF jm] by simp
  finally show ?thesis by (simp add: m_def)
qed

lemma trim_decomp:
  "\<exists>l r. s = l @ trim s @ r \<and> list_all is_trim_char l \<and> list_all is_trim_char r"
proof -
  define m where "m = dropWhile is_trim_char s"
  have "s = takeWhile is_trim_char s @ m" by (simp add: m_def)
  moreover have "m = trim s @ rev (takeWhile is_trim_char (rev m))"
    unfolding trim_eq_strip m_def [symmetric]
    by (metis rev_append rev_rev_ident takeWhile_dropWhile_id)
  ultimately have "s = takeWhile is_trim_char s @ trim s @ rev (takeWhile is_trim_char (rev m))"
    by metis
  moreover have "list_all is_trim_char (takeWhile is_trim_char s)"
      "list_all is_trim_char (rev (takeWhile is_trim_char (rev m)))"
    by (auto simp: list_all_iff dest: set_takeWhileD)
  ultimately show ?thesis by blast
qed

lemma trim_ends: "trim s \<noteq> [] \<Longrightarrow> \<not> is_trim_char (hd (trim s)) \<and> \<not> is_trim_char (last (trim s))"
proof -
  assume ne: "trim s \<noteq> []"
  define m where "m = dropWhile is_trim_char s"
  have t: "trim s = rev (dropWhile is_trim_char (rev m))" by (simp add: trim_eq_strip m_def)
  have "last (trim s) = hd (dropWhile is_trim_char (rev m))"
    using ne t by (simp add: last_rev)
  then have last: "\<not> is_trim_char (last (trim s))"
    using ne t hd_dropWhile [of is_trim_char "rev m"] by simp
  obtain r where r: "m = trim s @ r"
    unfolding t by (metis rev_append rev_rev_ident takeWhile_dropWhile_id)
  have "m \<noteq> []" using ne r by auto
  then have "\<not> is_trim_char (hd m)" unfolding m_def by (rule hd_dropWhile)
  with ne r last show ?thesis by simp
qed

lemma trim_idem: "trim (trim s) = trim s"
proof (cases "trim s = []")
  case True
  then show ?thesis by (simp add: trim_eq_strip [of "[]"])
next
  case False
  then have "dropWhile is_trim_char (trim s) = trim s"
    using trim_ends [OF False] by (cases "trim s") auto
  moreover have "dropWhile is_trim_char (rev (trim s)) = rev (trim s)"
    using trim_ends [OF False] False by (cases "rev (trim s)") (auto simp: hd_rev [symmetric])
  ultimately show ?thesis by (simp add: trim_eq_strip [of "trim s"])
qed

text \<open>
  C24: Trimming. The result is the input without a prefix and a suffix of blanks, it neither begins
  nor ends with one, and trimming again changes nothing: the index arithmetic of the code is the
  removal of blanks at both ends, for every string, the empty one and blanks only included.
\<close>

theorem trim_strips:
  "(\<exists>l r. s = l @ trim s @ r \<and> list_all is_trim_char l \<and> list_all is_trim_char r) \<and>
   (trim s = [] \<or> \<not> is_trim_char (hd (trim s)) \<and> \<not> is_trim_char (last (trim s))) \<and>
   trim s = rev (dropWhile is_trim_char (rev (dropWhile is_trim_char s))) \<and> trim (trim s) = trim s"
  using trim_decomp trim_ends trim_eq_strip trim_idem by blast

section \<open>The contract of the header list\<close>

locale header_store =
  fixes same :: "'k \<Rightarrow> 'k \<Rightarrow> bool"
    and lookup :: "'h \<Rightarrow> 'k \<Rightarrow> 'v option"
    and store :: "'h \<Rightarrow> 'k \<Rightarrow> 'v \<Rightarrow> 'h"
    and erase :: "'h \<Rightarrow> 'k \<Rightarrow> 'h"
  assumes same_refl: "same k k"
    and same_sym: "same k l \<Longrightarrow> same l k"
    and same_trans: "same k l \<Longrightarrow> same l m \<Longrightarrow> same k m"
    and lookup_same: "same k l \<Longrightarrow> lookup h k = lookup h l"
    and lookup_store: "lookup (store h k v) l = (if same k l then Some v else lookup h l)"
    and lookup_erase: "lookup (erase h k) l = (if same k l then None else lookup h l)"
begin

lemma store_overwrites: "lookup (store (store h k v) k w) l = lookup (store h k w) l"
  by (simp add: lookup_store)

lemma store_other_spelling: "same k l \<Longrightarrow> lookup (store h k v) l = Some v"
  by (simp add: lookup_store)

lemma store_commutes:
  "\<not> same k l \<Longrightarrow> lookup (store (store h k v) l w) m = lookup (store (store h l w) k v) m"
proof -
  assume kl: "\<not> same k l"
  then have "\<not> (same l m \<and> same k m)"
    using same_trans [of k m l] same_sym [of l m] by blast
  then show ?thesis by (auto simp only: lookup_store split: if_split)
qed

lemma erase_after_store: "lookup (erase (store h k v) k) l = lookup (erase h k) l"
  by (simp add: lookup_store lookup_erase)

lemma erase_gone: "same k l \<Longrightarrow> lookup (erase h k) l = None"
  by (simp add: lookup_erase)

lemma erase_idem: "lookup (erase (erase h k) k) l = lookup (erase h k) l"
  by (simp add: lookup_erase)

end

lemma find_header_same: "equals_ignore_case k l \<Longrightarrow> find_header hs k = find_header hs l"
  by (induction hs) (auto simp: equals_ignore_case_iff)

lemma find_header_set_header:
  "find_header (set_header hs k v) l = (if equals_ignore_case k l then Some v else find_header hs l)"
  by (induction hs k v rule: set_header.induct) (auto simp: equals_ignore_case_iff)

lemma find_header_remove_header:
  "find_header (remove_header hs k) l = (if equals_ignore_case k l then None else find_header hs l)"
  by (induction hs) (auto simp: remove_header_def equals_ignore_case_iff)

interpretation hdr: header_store equals_ignore_case find_header set_header remove_header
proof unfold_locales
  show "equals_ignore_case k k" for k by simp
  show "equals_ignore_case k l \<Longrightarrow> equals_ignore_case l k" for k l
    by (simp add: equals_ignore_case_iff)
  show "equals_ignore_case k l \<Longrightarrow> equals_ignore_case l m \<Longrightarrow> equals_ignore_case k m" for k l m
    by (rule equals_ignore_case_trans)
  show "equals_ignore_case k l \<Longrightarrow> find_header h k = find_header h l" for k l h
    by (rule find_header_same)
  show "find_header (set_header h k v) l = (if equals_ignore_case k l then Some v else find_header h l)"
    for h k v l by (rule find_header_set_header)
  show "find_header (remove_header h k) l = (if equals_ignore_case k l then None else find_header h l)"
    for h k l by (rule find_header_remove_header)
qed

section \<open>The header list as a finite map on folded names\<close>

text \<open>
  A header list is well formed when no two entries have the same name up to case: then it is a
  map from folded names to values, and every operation of the code is the map operation.
\<close>

definition header_keys :: "header_list \<Rightarrow> string list" where
  "header_keys hs = map (to_lower \<circ> fst) hs"

definition headers_wf :: "header_list \<Rightarrow> bool" where
  "headers_wf hs \<longleftrightarrow> distinct (header_keys hs)"

definition header_map :: "header_list \<Rightarrow> string \<Rightarrow> string option" where
  "header_map hs = map_of (map (\<lambda>(k, v). (to_lower k, v)) hs)"

lemma find_header_map: "find_header hs k = header_map hs (to_lower k)"
  by (induction hs) (auto simp: header_map_def equals_ignore_case_iff)

lemma header_keys_set_header:
  "header_keys (set_header hs k v) =
     (if to_lower k \<in> set (header_keys hs) then header_keys hs else header_keys hs @ [to_lower k])"
  by (induction hs k v rule: set_header.induct) (auto simp: header_keys_def equals_ignore_case_iff)

lemma headers_wf_set_header: "headers_wf hs \<Longrightarrow> headers_wf (set_header hs k v)"
  by (simp add: headers_wf_def header_keys_set_header)

lemma headers_wf_remove_header: "headers_wf hs \<Longrightarrow> headers_wf (remove_header hs k)"
  by (auto simp: headers_wf_def header_keys_def remove_header_def distinct_map_filter)

lemma header_map_Cons: "header_map ((k, v) # hs) = (header_map hs)(to_lower k \<mapsto> v)"
  by (simp add: header_map_def)

lemma header_map_Nil: "header_map [] = Map.empty"
  by (simp add: header_map_def)

lemma header_map_set_header: "header_map (set_header hs k v) = (header_map hs)(to_lower k \<mapsto> v)"
  by (induction hs k v rule: set_header.induct)
    (auto simp: header_map_Cons header_map_Nil equals_ignore_case_iff fun_upd_twist)

lemma header_map_remove_header: "header_map (remove_header hs k) = (header_map hs)(to_lower k := None)"
  by (induction hs)
    (auto simp: header_map_Cons header_map_Nil remove_header_def equals_ignore_case_iff fun_upd_twist)

text \<open>
  C20: Header lists are maps. On a list in which no name occurs twice up to case, the linear search
  and the in-place updates of the code are lookup, update and deletion of a finite map on folded
  names, and the updates keep the list free of duplicates.
\<close>

theorem headers_refine_map:
  assumes "headers_wf hs"
  shows "find_header hs k = header_map hs (to_lower k) \<and>
    headers_wf (set_header hs k v) \<and> header_map (set_header hs k v) = (header_map hs)(to_lower k \<mapsto> v) \<and>
    headers_wf (remove_header hs k) \<and> header_map (remove_header hs k) = (header_map hs)(to_lower k := None) \<and>
    length (set_header hs k v) = (if header_map hs (to_lower k) = None then length hs + 1 else length hs)"
proof -
  have len: "length (header_keys xs) = length xs" for xs by (simp add: header_keys_def)
  have "length (header_keys (set_header hs k v)) =
      (if to_lower k \<in> set (header_keys hs) then length (header_keys hs) else length (header_keys hs) + 1)"
    unfolding header_keys_set_header by simp
  then have "length (set_header hs k v) =
      (if to_lower k \<in> set (header_keys hs) then length hs else length hs + 1)" by (simp only: len)
  moreover have "to_lower k \<in> set (header_keys hs) \<longleftrightarrow> header_map hs (to_lower k) \<noteq> None"
    by (induction hs) (auto simp: header_keys_def header_map_def)
  ultimately have "length (set_header hs k v) =
      (if header_map hs (to_lower k) = None then length hs + 1 else length hs)" by auto
  with assms show ?thesis
    by (simp add: find_header_map headers_wf_set_header header_map_set_header headers_wf_remove_header
        header_map_remove_header)
qed

lemma headers_refine_map_witness:
  "length (set_header [(''Accept'', ''a'')] ''ACCEPT'' ''b'') = 1"
proof -
  have wf: "headers_wf [(''Accept'', ''a'')]" and m: "header_map [(''Accept'', ''a'')] (to_lower ''ACCEPT'') \<noteq> None"
    by code_simp+
  from headers_refine_map [OF wf, of "''ACCEPT''" "''b''"]
  have "length (set_header [(''Accept'', ''a'')] ''ACCEPT'' ''b'') =
      (if header_map [(''Accept'', ''a'')] (to_lower ''ACCEPT'') = None then length [(''Accept'', ''a'')] + 1
       else length [(''Accept'', ''a'')])" by blast
  with m show ?thesis by (simp only: if_False list.size)
qed

text \<open>
  Updates of different headers do not interfere: the order in which two headers that differ by
  more than case are set is immaterial, and removing a header undoes setting it under any spelling.
\<close>

theorem header_updates_independent:
  assumes "\<not> equals_ignore_case k l"
  shows "find_header (set_header (set_header hs k v) l w) m = find_header (set_header (set_header hs l w) k v) m \<and>
    find_header (remove_header (set_header hs k v) k) m = find_header (remove_header hs k) m"
  using hdr.store_commutes [OF assms] hdr.erase_after_store by blast

lemma header_updates_independent_witness:
  "find_header (set_header (set_header [] ''A'' ''1'') ''B'' ''2'') ''b'' =
   find_header (set_header (set_header [] ''B'' ''2'') ''A'' ''1'') ''b''"
  by (rule header_updates_independent [THEN conjunct1]) code_simp

end
