(* ===== verification/Rest_Host.thy ===== *)
theory Rest_Host
  imports Rest_Text
begin

text \<open>
  What the job code finds around it: the C library's files, the clock and random source of the
  standard library, and libcurl. The standard library's files are modelled (a file system is a map
  from paths to contents; opening, reading, appending, renaming and unlinking act on it). What the
  environment decides, and the program cannot, is an answer in the record \<open>host\<close>: whether a file
  can be opened, how many bytes a write call accepts and how many the device takes in the end, the time, the random draw, what libcurl returns
  and what its \<open>CURLINFO\<close> queries report. libcurl itself is not modelled: an easy handle is the
  list of options the code has set on it.

  Directories are not part of the state: \<open>EnsureParentDirectory\<close> ignores every error and its only
  effect the code can observe is whether the next \<open>fopen\<close> succeeds, which \<open>h_can_open\<close> says.
  No other process writes the files of a job while it runs.
\<close>

section \<open>libcurl's names\<close>

datatype curl_code =
    CURLE_OK
  | CURLE_ABORTED_BY_CALLBACK
  | CURLE_WRITE_ERROR
  | CURLE_READ_ERROR
  | CURLE_SSL_CACERT_BADFILE
  | CURLE_PEER_FAILED_VERIFICATION
  | CURLE_TOO_MANY_REDIRECTS
  | CURLE_URL_MALFORMAT
  | CURLE_UNSUPPORTED_PROTOCOL
  | CURLE_OPERATION_TIMEDOUT
  | CURLE_OTHER int

datatype curl_opt =
    CURLOPT_HTTPHEADER | CURLOPT_URL | CURLOPT_PRIVATE | CURLOPT_ERRORBUFFER | CURLOPT_NOSIGNAL
  | CURLOPT_HTTP_VERSION | CURLOPT_FOLLOWLOCATION | CURLOPT_MAXREDIRS | CURLOPT_SSL_VERIFYPEER
  | CURLOPT_SSL_VERIFYHOST | CURLOPT_CONNECTTIMEOUT | CURLOPT_TIMEOUT | CURLOPT_LOW_SPEED_LIMIT
  | CURLOPT_LOW_SPEED_TIME | CURLOPT_MAX_SEND_SPEED_LARGE | CURLOPT_MAX_RECV_SPEED_LARGE
  | CURLOPT_ACCEPT_ENCODING | CURLOPT_BUFFERSIZE | CURLOPT_HEADERFUNCTION | CURLOPT_HEADERDATA
  | CURLOPT_WRITEFUNCTION | CURLOPT_WRITEDATA | CURLOPT_XFERINFOFUNCTION | CURLOPT_XFERINFODATA
  | CURLOPT_NOPROGRESS | CURLOPT_USERAGENT | CURLOPT_CAINFO | CURLOPT_VERBOSE | CURLOPT_HTTPAUTH
  | CURLOPT_XOAUTH2_BEARER | CURLOPT_USERNAME | CURLOPT_PASSWORD | CURLOPT_HTTPGET
  | CURLOPT_NOBODY | CURLOPT_POST | CURLOPT_POSTFIELDSIZE | CURLOPT_CUSTOMREQUEST
  | CURLOPT_POSTFIELDS | CURLOPT_POSTFIELDSIZE_LARGE | CURLOPT_UPLOAD | CURLOPT_READFUNCTION
  | CURLOPT_READDATA | CURLOPT_SEEKFUNCTION | CURLOPT_SEEKDATA | CURLOPT_INFILESIZE_LARGE
  | CURLOPT_MIMEPOST

datatype callback = HeaderCallback | WriteCallback | ProgressCallback | ReadCallback | SeekCallback

datatype curl_const = CURL_HTTP_VERSION_1_1 | CURLAUTH_BEARER | CURLAUTH_BASIC

text \<open>One part of a multipart body, as the \<open>curl_mime_*\<close> calls build it.\<close>

record mime_part =
  mp_name :: string
  mp_data :: "string option"
  mp_filedata :: "string option"
  mp_filename :: "string option"
  mp_type :: "string option"

datatype opt_value =
    VLong int
  | VString string
  | VConst curl_const
  | VList "string list"
  | VBytes string
  | VMime "mime_part list"
  | VCallback callback
  | VThis
  | VErrorBuffer

text \<open>An easy handle: the options set on it, the latest first, so that the latest value counts.\<close>

type_synonym easy_handle = "(curl_opt \<times> opt_value) list"

definition easy_option :: "easy_handle \<Rightarrow> curl_opt \<Rightarrow> opt_value option" where
  "easy_option h opt = map_of h opt"

section \<open>What the environment answers\<close>

record host =
  h_can_open :: "string \<Rightarrow> bool"
  h_write_room :: nat
  h_device_room :: nat
  h_can_rename :: bool
  h_can_unlink :: bool
  h_errno_text :: string
  h_easy_init :: bool
  h_multi_add :: "string option"
  h_easy_strerror :: "curl_code \<Rightarrow> string"
  h_max_read_size :: int
  h_version :: string
  h_now :: int
  h_jitter :: "int \<Rightarrow> int \<Rightarrow> int"
  h_response_code :: int
  h_effective_url :: "string option"
  h_total_time :: int

text \<open>
  \<open>h_now\<close> is the steady clock in nanoseconds, \<open>h_total_time\<close> is \<open>CURLINFO_TOTAL_TIME_T\<close> in
  microseconds, \<open>h_multi_add\<close> is \<^const>\<open>None\<close> for \<open>CURLM_OK\<close> and otherwise the text of
  \<open>curl_multi_strerror\<close>, \<open>h_max_read_size\<close> is \<open>CURL_MAX_READ_SIZE\<close> and \<open>h_version\<close> the build's
  \<open>SM_REST_VERSION\<close>. The documented range of \<open>std::uniform_int_distribution\<close>:
\<close>

definition jitter_ok :: "host \<Rightarrow> bool" where
  "jitter_ok h \<longleftrightarrow> (\<forall>lo hi. lo \<le> hi \<longrightarrow> lo \<le> h_jitter h lo hi \<and> h_jitter h lo hi \<le> hi)"

text \<open>A host that allows everything, for evaluating the model on concrete inputs.\<close>

definition host_default :: host where
  "host_default =
     \<lparr>h_can_open = (\<lambda>_. True), h_write_room = 4096, h_device_room = 16,
      h_can_rename = True, h_can_unlink = True, h_errno_text = ''error'', h_easy_init = True, h_multi_add = None,
      h_easy_strerror = (\<lambda>_. ''curl error''), h_max_read_size = 10485760, h_version = ''0.1.0'',
      h_now = 1000000000, h_jitter = (\<lambda>lo hi. lo), h_response_code = 200,
      h_effective_url = None, h_total_time = 0\<rparr>"

lemma jitter_ok_default: "jitter_ok host_default"
  by (simp add: jitter_ok_def host_default_def)

section \<open>Files\<close>

type_synonym file_system = "string \<Rightarrow> string option"

text \<open>
  A stream is the path it was opened on, its position and the size its file can reach: what the file
  holds when it is opened and \<open>h_device_room\<close> bytes more. Writing is buffered. \<open>fwrite\<close> only hands
  bytes to the C library, so while a stream is open the contents of its file include the bytes that
  are still in its buffer; \<open>fclose\<close> writes them out, and the bytes that do not fit on the device are
  lost there. A stream opened for reading is never written, so closing it changes nothing.
\<close>

record file_handle =
  fh_path :: string
  fh_pos :: nat
  fh_limit :: nat

definition file_size_of :: "file_system \<Rightarrow> string \<Rightarrow> int" where
  "file_size_of fs path = (case fs path of None \<Rightarrow> -1 | Some content \<Rightarrow> int (length content))"

definition fopen_rb :: "host \<Rightarrow> string \<Rightarrow> file_system \<Rightarrow> file_handle option" where
  "fopen_rb h path fs =
     (if h_can_open h path \<and> fs path \<noteq> None
      then Some \<lparr>fh_path = path, fh_pos = 0, fh_limit = 0\<rparr> else None)"

definition fopen_wb :: "host \<Rightarrow> string \<Rightarrow> file_system \<Rightarrow> file_handle option \<times> file_system" where
  "fopen_wb h path fs =
     (if h_can_open h path
      then (Some \<lparr>fh_path = path, fh_pos = 0, fh_limit = h_device_room h\<rparr>, fs(path \<mapsto> ''''))
      else (None, fs))"

definition fopen_ab :: "host \<Rightarrow> string \<Rightarrow> file_system \<Rightarrow> file_handle option \<times> file_system" where
  "fopen_ab h path fs =
     (if h_can_open h path
      then let old = (case fs path of None \<Rightarrow> '''' | Some content \<Rightarrow> content)
           in (Some \<lparr>fh_path = path, fh_pos = 0, fh_limit = length old + h_device_room h\<rparr>,
               fs(path \<mapsto> old))
      else (None, fs))"

definition fclose :: "file_handle \<Rightarrow> file_system \<Rightarrow> file_system" where
  "fclose f fs =
     (case fs (fh_path f) of
        None \<Rightarrow> fs
      | Some content \<Rightarrow> fs(fh_path f \<mapsto> take (fh_limit f) content))"

definition fclose_output :: "file_handle option \<Rightarrow> file_system \<Rightarrow> file_system" where
  "fclose_output file fs = (case file of None \<Rightarrow> fs | Some f \<Rightarrow> fclose f fs)"

text \<open>\<open>freopen\<close> closes the stream it is given, whatever comes of that, and opens the path anew.\<close>

definition freopen_wb ::
  "host \<Rightarrow> string \<Rightarrow> file_handle option \<Rightarrow> file_system \<Rightarrow> file_handle option \<times> file_system" where
  "freopen_wb h path file fs = fopen_wb h path (fclose_output file fs)"

text \<open>
  Output files are only ever written in sequence, so a write appends. \<open>h_write_room\<close> is how much of
  a call's data the C library accepts: it accepts less when it has to write its buffer out meanwhile
  and fails at it. A write to a file whose name is gone changes no named file.
\<close>

definition fwrite :: "host \<Rightarrow> string \<Rightarrow> file_handle \<Rightarrow> file_system \<Rightarrow> nat \<times> file_system" where
  "fwrite h data f fs =
     (let n = min (length data) (h_write_room h)
      in (n, case fs (fh_path f) of
               None \<Rightarrow> fs
             | Some content \<Rightarrow> fs(fh_path f \<mapsto> content @ take n data)))"

definition fread :: "nat \<Rightarrow> file_handle \<Rightarrow> file_system \<Rightarrow> string \<times> file_handle" where
  "fread n f fs =
     (let content = (case fs (fh_path f) of None \<Rightarrow> '''' | Some c \<Rightarrow> c);
          data = take n (drop (fh_pos f) content)
      in (data, f\<lparr>fh_pos := fh_pos f + length data\<rparr>))"

text \<open>\<open>SEEK_SET\<close>, \<open>SEEK_CUR\<close>, \<open>SEEK_END\<close>; a negative target or another origin fails.\<close>

definition fseeko :: "int \<Rightarrow> int \<Rightarrow> file_handle \<Rightarrow> file_system \<Rightarrow> file_handle option" where
  "fseeko offset origin f fs =
     (let base = (if origin = 0 then Some 0
                  else if origin = 1 then Some (int (fh_pos f))
                  else if origin = 2 then
                    Some (case fs (fh_path f) of None \<Rightarrow> 0 | Some c \<Rightarrow> int (length c))
                  else None)
      in case base of
           None \<Rightarrow> None
         | Some b \<Rightarrow> if b + offset < 0 then None else Some (f\<lparr>fh_pos := nat (b + offset)\<rparr>))"

definition rename_file :: "host \<Rightarrow> string \<Rightarrow> string \<Rightarrow> file_system \<Rightarrow> bool \<times> file_system" where
  "rename_file h from_path to_path fs =
     (case fs from_path of
        None \<Rightarrow> (False, fs)
      | Some content \<Rightarrow>
          if h_can_rename h then (True, (fs(from_path := None))(to_path \<mapsto> content))
          else (False, fs))"

definition unlink_file :: "host \<Rightarrow> string \<Rightarrow> file_system \<Rightarrow> file_system" where
  "unlink_file h path fs = (if h_can_unlink h then fs(path := None) else fs)"

lemma fclose_other: "p \<noteq> fh_path f \<Longrightarrow> fclose f fs p = fs p"
  by (simp add: fclose_def split: option.split)

lemma fclose_some: "fs (fh_path f) = Some c \<Longrightarrow> fclose f fs = fs(fh_path f \<mapsto> take (fh_limit f) c)"
  by (simp add: fclose_def)

lemma fclose_exists: "fclose f fs p = None \<longleftrightarrow> fs p = None"
  by (simp add: fclose_def split: option.split)

lemma fclose_output_exists: "fclose_output file fs p = None \<longleftrightarrow> fs p = None"
  by (simp add: fclose_output_def fclose_exists split: option.split)

lemma fread_bound: "length (fst (fread n f fs)) \<le> n"
  by (simp add: fread_def Let_def)

end
