(* ===== verification/Rest_Request.thy ===== *)
theory Rest_Request
  imports Rest_Text
begin

text \<open>
  \<open>src/request.h\<close>: what a plugin configures. A client holds a \<open>ClientConfig\<close>, a request a
  \<open>RequestSpec\<close> with a copy of the client's configuration, and a job the spec it was sent with.
  Field prefixes keep the structs apart (\<open>cfg_\<close>, \<open>fld_\<close>, \<open>spec_\<close>); the defaults are those of the
  member initialisers.
\<close>

datatype rest_method =
    RestMethod_Get
  | RestMethod_Head
  | RestMethod_Post
  | RestMethod_Put
  | RestMethod_Patch
  | RestMethod_Delete
  | RestMethod_Options

datatype body_kind =
    BodyKind_None
  | BodyKind_Memory
  | BodyKind_File
  | BodyKind_Form
  | BodyKind_Multipart

record form_field =
  fld_name :: string
  fld_value :: string
  fld_filePath :: string
  fld_fileName :: string
  fld_contentType :: string

record client_config =
  cfg_baseUrl :: string
  cfg_headers :: header_list
  cfg_userAgent :: string
  cfg_basicUser :: string
  cfg_basicPassword :: string
  cfg_bearerToken :: string
  cfg_connectTimeout :: int
  cfg_timeout :: int
  cfg_absoluteTimeout :: int
  cfg_maxRetries :: int
  cfg_maxRedirects :: int
  cfg_maxSendSpeed :: int
  cfg_maxRecvSpeed :: int
  cfg_maxBodySize :: int
  cfg_chunkSize :: int
  cfg_progressInterval :: int
  cfg_followRedirects :: bool
  cfg_verifyCertificate :: bool

record request_spec =
  spec_id :: int
  spec_method :: rest_method
  spec_path :: string
  spec_query :: string
  spec_config :: client_config
  spec_bodyKind :: body_kind
  spec_body :: string
  spec_bodyContentType :: string
  spec_bodyFilePath :: string
  spec_formFields :: "form_field list"
  spec_outputPath :: string
  spec_resume :: bool
  spec_streamData :: bool
  spec_wantHeaders :: bool
  spec_url :: string
  spec_caBundle :: string
  spec_verbose :: bool

definition form_field_default :: form_field where
  "form_field_default =
     \<lparr>fld_name = '''', fld_value = '''', fld_filePath = '''', fld_fileName = '''', fld_contentType = ''''\<rparr>"

definition client_config_default :: client_config where
  "client_config_default =
     \<lparr>cfg_baseUrl = '''', cfg_headers = [], cfg_userAgent = '''', cfg_basicUser = '''',
      cfg_basicPassword = '''', cfg_bearerToken = '''', cfg_connectTimeout = 10, cfg_timeout = 60,
      cfg_absoluteTimeout = 0, cfg_maxRetries = 3, cfg_maxRedirects = 10, cfg_maxSendSpeed = 0,
      cfg_maxRecvSpeed = 0, cfg_maxBodySize = 4 * 1024 * 1024, cfg_chunkSize = 16384,
      cfg_progressInterval = 100, cfg_followRedirects = True, cfg_verifyCertificate = True\<rparr>"

definition request_spec_default :: request_spec where
  "request_spec_default =
     \<lparr>spec_id = 0, spec_method = RestMethod_Get, spec_path = '''', spec_query = '''',
      spec_config = client_config_default, spec_bodyKind = BodyKind_None, spec_body = '''',
      spec_bodyContentType = '''', spec_bodyFilePath = '''', spec_formFields = [],
      spec_outputPath = '''', spec_resume = False, spec_streamData = False,
      spec_wantHeaders = False, spec_url = '''', spec_caBundle = '''', spec_verbose = False\<rparr>"

text \<open>
  The integer of an enumerator, as the casts between \<open>cell_t\<close> and \<open>RestMethod\<close> use it; the order
  of the enumerators makes the type linearly ordered.
\<close>

fun method_code :: "rest_method \<Rightarrow> int" where
  "method_code RestMethod_Get = 0"
| "method_code RestMethod_Head = 1"
| "method_code RestMethod_Post = 2"
| "method_code RestMethod_Put = 3"
| "method_code RestMethod_Patch = 4"
| "method_code RestMethod_Delete = 5"
| "method_code RestMethod_Options = 6"

lemma method_code_inj: "method_code a = method_code b \<Longrightarrow> a = b"
  by (cases a; cases b) auto

instantiation rest_method :: linorder
begin

definition less_eq_rest_method :: "rest_method \<Rightarrow> rest_method \<Rightarrow> bool" where
  "less_eq_rest_method a b \<longleftrightarrow> method_code a \<le> method_code b"

definition less_rest_method :: "rest_method \<Rightarrow> rest_method \<Rightarrow> bool" where
  "less_rest_method a b \<longleftrightarrow> method_code a < method_code b"

instance
  by standard (auto simp: less_eq_rest_method_def less_rest_method_def intro: method_code_inj)

end

lemma method_le_Options: "m \<le> RestMethod_Options"
  by (cases m) (auto simp: less_eq_rest_method_def)

lemma method_code_range: "0 \<le> method_code m \<and> method_code m \<le> method_code RestMethod_Options"
  by (cases m) auto

end
