(* ===== verification/Rest_Queue.thy ===== *)
theory Rest_Queue
  imports Rest_Text
begin

text \<open>
  \<open>src/main_thread_queue.h\<close> and \<open>.cpp\<close>: the events a job posts and the queue that carries them
  from the transfer thread to the main thread. Each member function holds the mutex for its whole
  effect on the list, so it is one step here; \<open>mq_hasEvents\<close> and \<open>mq_enabled\<close> are the two atomics.
\<close>

datatype rest_status =
    RestStatus_Ok
  | RestStatus_HttpError
  | RestStatus_NetworkError
  | RestStatus_Timeout
  | RestStatus_IoError
  | RestStatus_TooLarge
  | RestStatus_Cancelled

datatype event_kind = Kind_Progress | Kind_Headers | Kind_Data | Kind_Complete

record transfer_event =
  ev_kind :: event_kind
  ev_jobId :: int
  ev_downloaded :: int
  ev_downloadTotal :: int
  ev_uploaded :: int
  ev_uploadTotal :: int
  ev_status :: rest_status
  ev_httpStatus :: int
  ev_contentLength :: int
  ev_bodyLength :: int
  ev_elapsedMs :: int
  ev_error :: string
  ev_url :: string
  ev_headers :: header_list
  ev_body :: string

definition transfer_event_default :: transfer_event where
  "transfer_event_default =
     \<lparr>ev_kind = Kind_Complete, ev_jobId = 0, ev_downloaded = 0, ev_downloadTotal = 0,
      ev_uploaded = 0, ev_uploadTotal = 0, ev_status = RestStatus_Ok, ev_httpStatus = 0,
      ev_contentLength = -1, ev_bodyLength = 0, ev_elapsedMs = 0, ev_error = '''', ev_url = '''',
      ev_headers = [], ev_body = ''''\<rparr>"

record main_thread_queue =
  mq_events :: "transfer_event list"
  mq_hasEvents :: bool
  mq_enabled :: bool

definition queue_default :: main_thread_queue where
  "queue_default = \<lparr>mq_events = [], mq_hasEvents = False, mq_enabled = True\<rparr>"

section \<open>The operations\<close>

definition queue_post :: "transfer_event \<Rightarrow> main_thread_queue \<Rightarrow> main_thread_queue" where
  "queue_post event q =
     (if \<not> mq_enabled q then q
      else q\<lparr>mq_events := mq_events q @ [event], mq_hasEvents := True\<rparr>)"

definition queue_drain :: "main_thread_queue \<Rightarrow> transfer_event list \<times> main_thread_queue" where
  "queue_drain q = (mq_events q, q\<lparr>mq_events := [], mq_hasEvents := False\<rparr>)"

definition queue_set_enabled :: "bool \<Rightarrow> main_thread_queue \<Rightarrow> main_thread_queue" where
  "queue_set_enabled enabled q = q\<lparr>mq_enabled := enabled\<rparr>"

text \<open>The flag the main thread reads without the lock agrees with the list after every operation.\<close>

definition queue_inv :: "main_thread_queue \<Rightarrow> bool" where
  "queue_inv q \<longleftrightarrow> (mq_hasEvents q \<longleftrightarrow> mq_events q \<noteq> [])"

lemma queue_inv_default: "queue_inv queue_default"
  by (simp add: queue_inv_def queue_default_def)

lemma queue_inv_post: "queue_inv q \<Longrightarrow> queue_inv (queue_post e q)"
  by (simp add: queue_inv_def queue_post_def)

lemma queue_inv_drain: "queue_inv (snd (queue_drain q))"
  by (simp add: queue_inv_def queue_drain_def)

lemma queue_inv_set_enabled: "queue_inv q \<Longrightarrow> queue_inv (queue_set_enabled b q)"
  by (simp add: queue_inv_def queue_set_enabled_def)

section \<open>The contract of the queue\<close>

text \<open>
  What producers and the consumer rely on: a FIFO of events that a closed queue drops. The client
  lemmas speak of a producer that posts a list of events and of a consumer that drains.
\<close>

locale event_fifo =
  fixes contents :: "'q \<Rightarrow> 'e list"
    and is_open :: "'q \<Rightarrow> bool"
    and post :: "'e \<Rightarrow> 'q \<Rightarrow> 'q"
    and drain :: "'q \<Rightarrow> 'e list \<times> 'q"
  assumes contents_post: "contents (post e q) = (if is_open q then contents q @ [e] else contents q)"
    and open_post: "is_open (post e q) = is_open q"
    and drain_result: "fst (drain q) = contents q"
    and contents_drain: "contents (snd (drain q)) = []"
    and open_drain: "is_open (snd (drain q)) = is_open q"
begin

lemma contents_post_all:
  "is_open q \<Longrightarrow> contents (fold post es q) = contents q @ es \<and> is_open (fold post es q)"
  by (induction es arbitrary: q) (simp_all add: contents_post open_post)

lemma post_all_closed: "\<not> is_open q \<Longrightarrow> contents (fold post es q) = contents q"
  by (induction es arbitrary: q) (simp_all add: contents_post open_post)

text \<open>Nothing is lost, duplicated or reordered over a drain between two batches.\<close>

lemma drain_between:
  "is_open q \<Longrightarrow>
     fst (drain (fold post es q)) @ contents (fold post fs (snd (drain (fold post es q)))) =
       contents q @ es @ fs"
  by (simp add: drain_result contents_post_all open_drain contents_drain)

end

lemma mq_events_post [simp]:
  "mq_events (queue_post e q) = (if mq_enabled q then mq_events q @ [e] else mq_events q)"
  by (simp add: queue_post_def)

lemma mq_enabled_post [simp]: "mq_enabled (queue_post e q) = mq_enabled q"
  by (simp add: queue_post_def)

interpretation mq: event_fifo mq_events mq_enabled queue_post queue_drain
  by unfold_locales (auto simp: queue_drain_def)

text \<open>
  C21: The queue between the transfer thread and the main thread. From an open queue in a consistent
  state, a drain after any batch of posts and another batch after it deliver every event exactly
  once, in the order posted; the flag that the main thread reads before it takes the lock is set
  exactly when there is something to drain; and a closed queue takes nothing.
\<close>

theorem queue_delivers_in_order:
  assumes "queue_inv q"
  shows "(mq_enabled q \<longrightarrow>
      fst (queue_drain (fold queue_post es q)) @
        mq_events (fold queue_post fs (snd (queue_drain (fold queue_post es q)))) = mq_events q @ es @ fs) \<and>
    mq_hasEvents (fold queue_post es q) = (mq_events (fold queue_post es q) \<noteq> []) \<and>
    \<not> mq_hasEvents (snd (queue_drain (fold queue_post es q))) \<and>
    mq_events (fold queue_post es (queue_set_enabled False q)) = mq_events q"
proof -
  have "queue_inv (fold queue_post es q)" using assms
    by (induction es arbitrary: q) (simp_all add: queue_inv_post)
  moreover have "mq_events (fold queue_post es (queue_set_enabled False q)) = mq_events q"
    using mq.post_all_closed [of "queue_set_enabled False q" es] by (simp add: queue_set_enabled_def)
  ultimately show ?thesis using mq.drain_between by (simp add: queue_inv_def queue_drain_def)
qed

lemma queue_delivers_in_order_witness:
  "mq_hasEvents (fold queue_post [transfer_event_default] queue_default)"
  using queue_delivers_in_order [OF queue_inv_default, of "[transfer_event_default]"]
  by (simp add: queue_default_def)

end
