(* ===== verification/Rest_Job.thy ===== *)
theory Rest_Job
  imports Rest_Host Rest_Request Rest_Queue
begin

text \<open>
  The state of one transfer, \<open>class RestJob\<close> of \<open>src/job.h\<close>, and the helpers at the top of
  \<open>src/job.cpp\<close>. The member \<open>m_queue\<close> is a pointer to the shared queue: the record \<open>job_ctx\<close> adds
  the queue it points to and the file system, so that one state carries all a member function can
  change. Pointers that may be null are options; a null \<open>curl_slist\<close> is the empty list. Times are
  nanoseconds of the steady clock.
\<close>

section \<open>Constants and helpers\<close>

definition kMaxErrorBody :: nat where
  "kMaxErrorBody = 65536"

definition kStreamHighWater :: int where
  "kStreamHighWater = 4 * 1024 * 1024"

definition kStreamLowWater :: int where
  "kStreamLowWater = 1 * 1024 * 1024"

definition kBackoffBaseMs :: int where
  "kBackoffBaseMs = 1000"

definition kBackoffCapMs :: int where
  "kBackoffCapMs = 30000"

definition kRetryAfterCapMs :: int where
  "kRetryAfterCapMs = 60000"

fun method_name :: "rest_method \<Rightarrow> string" where
  "method_name RestMethod_Get = ''GET''"
| "method_name RestMethod_Head = ''HEAD''"
| "method_name RestMethod_Post = ''POST''"
| "method_name RestMethod_Put = ''PUT''"
| "method_name RestMethod_Patch = ''PATCH''"
| "method_name RestMethod_Delete = ''DELETE''"
| "method_name RestMethod_Options = ''OPTIONS''"

definition is_success :: "int \<Rightarrow> bool" where
  "is_success httpStatus \<longleftrightarrow> httpStatus \<ge> 200 \<and> httpStatus < 300"

definition is_redirect :: "int \<Rightarrow> bool" where
  "is_redirect httpStatus \<longleftrightarrow>
     httpStatus = 301 \<or> httpStatus = 302 \<or> httpStatus = 303 \<or> httpStatus = 307 \<or> httpStatus = 308"

text \<open>
  \<open>seconds * 1000\<close> is a product of 32-bit \<open>long\<close>s: it is written with the wrap-around of the
  target, although an overflow is undefined behaviour in C++.
\<close>

definition parse_retry_after_ms :: "header_list \<Rightarrow> int" where
  "parse_retry_after_ms headers =
     (case find_header headers ''retry-after'' of
        None \<Rightarrow> -1
      | Some value \<Rightarrow>
          if value = [] then -1
          else (case strtol10 value of
                  None \<Rightarrow> -1
                | Some seconds \<Rightarrow>
                    if seconds < 0 then -1
                    else min kRetryAfterCapMs (to_i32 (seconds * 1000))))"

section \<open>The job record\<close>

record rest_job =
  m_easy :: "easy_handle option"
  m_headerList :: "string list"
  m_mime :: "mime_part list option"
  m_uploadFile :: "file_handle option"
  m_outputFile :: "file_handle option"
  m_resumeOffset :: int
  m_uploadSize :: int
  m_bodyLength :: int
  m_pendingStreamBytes :: int
  m_httpStatus :: int
  m_elapsedMs :: int
  m_retryAt :: int
  m_lastProgressPost :: int
  m_responseHeaders :: header_list
  m_partPath :: string
  m_responseBody :: string
  m_streamBuffer :: string
  m_effectiveUrl :: string
  m_spec :: request_spec
  m_attempt :: int
  m_attached :: bool
  m_restartedFullBody :: bool
  m_headersPosted :: bool
  m_paused :: bool
  m_tooLarge :: bool
  m_waitingForRetry :: bool
  m_finished :: bool
  m_cancelRequested :: bool
  m_errorBuffer :: string

record job_ctx = rest_job +
  io_files :: file_system
  io_queue :: main_thread_queue

text \<open>The constructor with the member initialisers.\<close>

definition new_job :: "request_spec \<Rightarrow> rest_job" where
  "new_job spec =
     \<lparr>m_easy = None, m_headerList = [], m_mime = None, m_uploadFile = None, m_outputFile = None,
      m_resumeOffset = 0, m_uploadSize = 0, m_bodyLength = 0, m_pendingStreamBytes = 0,
      m_httpStatus = 0, m_elapsedMs = 0, m_retryAt = 0, m_lastProgressPost = 0,
      m_responseHeaders = [], m_partPath = '''', m_responseBody = '''', m_streamBuffer = '''',
      m_effectiveUrl = '''', m_spec = spec, m_attempt = 0, m_attached = False,
      m_restartedFullBody = False, m_headersPosted = False, m_paused = False, m_tooLarge = False,
      m_waitingForRetry = False, m_finished = False, m_cancelRequested = False,
      m_errorBuffer = ''''\<rparr>"

definition job_ctx_of :: "rest_job \<Rightarrow> file_system \<Rightarrow> main_thread_queue \<Rightarrow> job_ctx" where
  "job_ctx_of j fs q = rest_job.extend j \<lparr>io_files = fs, io_queue = q\<rparr>"

definition job_of :: "job_ctx \<Rightarrow> rest_job" where
  "job_of s = rest_job.truncate s"

abbreviation job_config :: "'a rest_job_scheme \<Rightarrow> client_config" where
  "job_config s \<equiv> spec_config (m_spec s)"

definition is_retry_due :: "'a rest_job_scheme \<Rightarrow> int \<Rightarrow> bool" where
  "is_retry_due s now \<longleftrightarrow> m_waitingForRetry s \<and> now \<ge> m_retryAt s"

definition post_event :: "transfer_event \<Rightarrow> job_ctx \<Rightarrow> job_ctx" where
  "post_event event s = s\<lparr>io_queue := queue_post event (io_queue s)\<rparr>"

section \<open>Retry-After\<close>

lemma retry_after_upper: "parse_retry_after_ms headers \<le> kRetryAfterCapMs"
  by (auto simp: parse_retry_after_ms_def kRetryAfterCapMs_def split: option.splits)

lemma retry_after_exact:
  assumes "find_header headers ''retry-after'' = Some value" and "strtol10 value = Some seconds"
    and "0 \<le> seconds" and "seconds \<le> 2147483"
  shows "parse_retry_after_ms headers = min 60000 (seconds * 1000)"
proof -
  have "value \<noteq> []" using assms(2) by (auto simp: strtol10_def c_parse_int_def Let_def c_str_def)
  moreover have "is_i32 (seconds * 1000)" using assms(3,4) by (simp add: is_i32_def)
  ultimately show ?thesis
    using assms by (simp add: parse_retry_after_ms_def kRetryAfterCapMs_def)
qed

end
