(* ===== verification/Rest_Setup.thy ===== *)
theory Rest_Setup
  imports Rest_Job
begin

text \<open>
  The part of \<open>src/job.cpp\<close> that prepares an attempt: resetting the state of the last attempt,
  opening and closing the files, building the header list and setting the options of the easy
  handle. The lemmas say what the finished handle asks of libcurl: the request method, TLS
  verification, the credentials, the receive buffer.
\<close>

section \<open>State and files of an attempt\<close>

definition reset_attempt_state :: "'a rest_job_scheme \<Rightarrow> 'a rest_job_scheme" where
  "reset_attempt_state s =
     s\<lparr>m_responseBody := '''', m_streamBuffer := '''', m_responseHeaders := [],
       m_headersPosted := False, m_bodyLength := 0, m_pendingStreamBytes := 0, m_paused := False,
       m_tooLarge := False, m_httpStatus := 0, m_errorBuffer := '''', m_restartedFullBody := False,
       m_lastProgressPost := 0, m_waitingForRetry := False\<rparr>"

definition open_upload_file :: "host \<Rightarrow> job_ctx \<Rightarrow> bool \<times> job_ctx" where
  "open_upload_file h s =
     (if spec_bodyKind (m_spec s) \<noteq> BodyKind_File then (True, s)
      else let path = spec_bodyFilePath (m_spec s);
               s1 = s\<lparr>m_uploadFile := fopen_rb h path (io_files s)\<rparr>
           in if m_uploadFile s1 = None then (False, s1)
              else let size = file_size_of (io_files s1) path
                   in (True, s1\<lparr>m_uploadSize := (if size < 0 then 0 else size)\<rparr>))"

definition open_output_file :: "host \<Rightarrow> job_ctx \<Rightarrow> bool \<times> job_ctx" where
  "open_output_file h s =
     (if spec_outputPath (m_spec s) = [] then (True, s)
      else let part = spec_outputPath (m_spec s) @ ''.part'';
               existing = (if spec_resume (m_spec s) then file_size_of (io_files s) part else -1);
               (file, fs) = (if existing > 0 then fopen_ab h part (io_files s)
                             else fopen_wb h part (io_files s));
               s1 = s\<lparr>m_partPath := part, m_outputFile := file, io_files := fs,
                      m_resumeOffset := (if existing > 0 then existing else 0)\<rparr>
           in (m_outputFile s1 \<noteq> None, s1))"

definition open_files :: "host \<Rightarrow> job_ctx \<Rightarrow> bool \<times> job_ctx" where
  "open_files h s =
     (let (ok, s1) = open_upload_file h s
      in if \<not> ok then (False, s1) else open_output_file h s1)"

text \<open>The results of \<open>fclose\<close> are ignored: bytes the device does not take are lost here unnoticed.\<close>

definition close_files :: "job_ctx \<Rightarrow> job_ctx" where
  "close_files s =
     s\<lparr>m_uploadFile := None, m_outputFile := None,
       io_files := fclose_output (m_outputFile s) (io_files s)\<rparr>"

definition release_curl :: "'a rest_job_scheme \<Rightarrow> 'a rest_job_scheme" where
  "release_curl s =
     (if m_easy s = None then s
      else s\<lparr>m_attached := False, m_easy := None, m_mime := None\<rparr>)"

section \<open>The header list\<close>

definition slist_append :: "string list \<Rightarrow> string \<Rightarrow> string list" where
  "slist_append list line = list @ [c_str line]"

definition header_line :: "string \<times> string \<Rightarrow> string" where
  "header_line entry =
     (if snd entry = [] then fst entry @ '';'' else fst entry @ '': '' @ snd entry)"

definition build_headers :: "'a rest_job_scheme \<Rightarrow> 'a rest_job_scheme" where
  "build_headers s =
     (let l0 = fold (\<lambda>entry l. slist_append l (header_line entry)) (cfg_headers (job_config s)) [];
          kind = spec_bodyKind (m_spec s);
          hasContentType =
            (kind = BodyKind_Memory \<or> kind = BodyKind_File \<or> kind = BodyKind_Form);
          contentType = spec_bodyContentType (m_spec s);
          l1 = (if hasContentType \<and> contentType \<noteq> []
                then slist_append l0 (''Content-Type: '' @ contentType) else l0);
          l2 = (if m_resumeOffset s > 0
                then slist_append l1 (''Range: bytes='' @ to_dec (m_resumeOffset s) @ ''-'') else l1)
      in s\<lparr>m_headerList := slist_append l2 ''Expect:''\<rparr>)"

section \<open>The options\<close>

definition setopt :: "curl_opt \<Rightarrow> opt_value \<Rightarrow> 'a rest_job_scheme \<Rightarrow> 'a rest_job_scheme" where
  "setopt opt v s = s\<lparr>m_easy := map_option (Cons (opt, v)) (m_easy s)\<rparr>"

definition setopts :: "(curl_opt \<times> opt_value) list \<Rightarrow> 'a rest_job_scheme \<Rightarrow> 'a rest_job_scheme" where
  "setopts opts s = fold (\<lambda>(opt, v). setopt opt v) opts s"

definition clamp_chunk_size :: "int \<Rightarrow> int \<Rightarrow> int" where
  "clamp_chunk_size maxRead chunkSize = max 1024 (min maxRead chunkSize)"

definition apply_common_options :: "host \<Rightarrow> 'a rest_job_scheme \<Rightarrow> 'a rest_job_scheme" where
  "apply_common_options h s =
     (let config = job_config s;
          chunkSize = clamp_chunk_size (h_max_read_size h) (cfg_chunkSize config);
          userAgent = (if cfg_userAgent config = [] then ''sm-rest/'' @ h_version h
                       else c_str (cfg_userAgent config));
          s1 = setopts
            [(CURLOPT_URL, VString (c_str (spec_url (m_spec s)))),
             (CURLOPT_PRIVATE, VThis),
             (CURLOPT_ERRORBUFFER, VErrorBuffer),
             (CURLOPT_NOSIGNAL, VLong 1),
             (CURLOPT_HTTP_VERSION, VConst CURL_HTTP_VERSION_1_1),
             (CURLOPT_FOLLOWLOCATION, VLong (if cfg_followRedirects config then 1 else 0)),
             (CURLOPT_MAXREDIRS, VLong (cfg_maxRedirects config)),
             (CURLOPT_SSL_VERIFYPEER, VLong (if cfg_verifyCertificate config then 1 else 0)),
             (CURLOPT_SSL_VERIFYHOST, VLong (if cfg_verifyCertificate config then 2 else 0)),
             (CURLOPT_CONNECTTIMEOUT, VLong (cfg_connectTimeout config)),
             (CURLOPT_TIMEOUT, VLong (cfg_absoluteTimeout config)),
             (CURLOPT_LOW_SPEED_LIMIT, VLong 1),
             (CURLOPT_LOW_SPEED_TIME, VLong (cfg_timeout config)),
             (CURLOPT_MAX_SEND_SPEED_LARGE, VLong (cfg_maxSendSpeed config)),
             (CURLOPT_MAX_RECV_SPEED_LARGE, VLong (cfg_maxRecvSpeed config)),
             (CURLOPT_ACCEPT_ENCODING, VString ''''),
             (CURLOPT_BUFFERSIZE, VLong chunkSize),
             (CURLOPT_HEADERFUNCTION, VCallback HeaderCallback),
             (CURLOPT_HEADERDATA, VThis),
             (CURLOPT_WRITEFUNCTION, VCallback WriteCallback),
             (CURLOPT_WRITEDATA, VThis),
             (CURLOPT_XFERINFOFUNCTION, VCallback ProgressCallback),
             (CURLOPT_XFERINFODATA, VThis),
             (CURLOPT_NOPROGRESS, VLong 0),
             (CURLOPT_USERAGENT, VString userAgent)] s;
          s2 = (if spec_caBundle (m_spec s) \<noteq> []
                then setopt CURLOPT_CAINFO (VString (c_str (spec_caBundle (m_spec s)))) s1 else s1)
      in if spec_verbose (m_spec s) then setopt CURLOPT_VERBOSE (VLong 1) s2 else s2)"

definition apply_auth :: "'a rest_job_scheme \<Rightarrow> 'a rest_job_scheme" where
  "apply_auth s =
     (let config = job_config s
      in if cfg_bearerToken config \<noteq> [] then
           setopts [(CURLOPT_HTTPAUTH, VConst CURLAUTH_BEARER),
                    (CURLOPT_XOAUTH2_BEARER, VString (c_str (cfg_bearerToken config)))] s
         else if cfg_basicUser config = [] then s
         else setopts [(CURLOPT_HTTPAUTH, VConst CURLAUTH_BASIC),
                       (CURLOPT_USERNAME, VString (c_str (cfg_basicUser config))),
                       (CURLOPT_PASSWORD, VString (c_str (cfg_basicPassword config)))] s)"

definition apply_method :: "'a rest_job_scheme \<Rightarrow> 'a rest_job_scheme" where
  "apply_method s =
     (let method = spec_method (m_spec s);
          kind = spec_bodyKind (m_spec s)
      in if kind = BodyKind_None \<and> method = RestMethod_Get then
           setopt CURLOPT_HTTPGET (VLong 1) s
         else if kind = BodyKind_None \<and> method = RestMethod_Head then
           setopt CURLOPT_NOBODY (VLong 1) s
         else if kind = BodyKind_None \<and> method = RestMethod_Post then
           setopts [(CURLOPT_POST, VLong 1), (CURLOPT_POSTFIELDSIZE, VLong 0)] s
         else let nativeMethod = ((kind = BodyKind_File \<and> method = RestMethod_Put)
                                  \<or> (kind \<noteq> BodyKind_File \<and> method = RestMethod_Post));
                  s1 = (if \<not> nativeMethod
                        then setopt CURLOPT_CUSTOMREQUEST (VString (method_name method)) s else s)
              in if method = RestMethod_Head then setopt CURLOPT_NOBODY (VLong 1) s1 else s1)"

text \<open>One round of the loop of \<open>ApplyMultipart\<close>.\<close>

definition field_part :: "form_field \<Rightarrow> mime_part" where
  "field_part field =
     (if fld_filePath field = [] then
        \<lparr>mp_name = c_str (fld_name field), mp_data = Some (fld_value field), mp_filedata = None,
         mp_filename = None, mp_type = None\<rparr>
      else
        \<lparr>mp_name = c_str (fld_name field), mp_data = None,
         mp_filedata = Some (c_str (fld_filePath field)),
         mp_filename = (if fld_fileName field \<noteq> [] then Some (c_str (fld_fileName field)) else None),
         mp_type = (if fld_contentType field \<noteq> [] then Some (c_str (fld_contentType field)) else None)\<rparr>)"

definition apply_multipart :: "'a rest_job_scheme \<Rightarrow> 'a rest_job_scheme" where
  "apply_multipart s =
     (let mime = fold (\<lambda>field parts. parts @ [field_part field]) (spec_formFields (m_spec s)) []
      in setopt CURLOPT_MIMEPOST (VMime mime) (s\<lparr>m_mime := Some mime\<rparr>))"

definition apply_body :: "'a rest_job_scheme \<Rightarrow> 'a rest_job_scheme" where
  "apply_body s =
     (case spec_bodyKind (m_spec s) of
        BodyKind_None \<Rightarrow> s
      | BodyKind_Memory \<Rightarrow>
          setopts [(CURLOPT_POSTFIELDS, VBytes (spec_body (m_spec s))),
                   (CURLOPT_POSTFIELDSIZE_LARGE, VLong (int (length (spec_body (m_spec s)))))] s
      | BodyKind_Form \<Rightarrow>
          setopts [(CURLOPT_POSTFIELDS, VBytes (spec_body (m_spec s))),
                   (CURLOPT_POSTFIELDSIZE_LARGE, VLong (int (length (spec_body (m_spec s)))))] s
      | BodyKind_File \<Rightarrow>
          setopts [(CURLOPT_UPLOAD, VLong 1),
                   (CURLOPT_READFUNCTION, VCallback ReadCallback), (CURLOPT_READDATA, VThis),
                   (CURLOPT_SEEKFUNCTION, VCallback SeekCallback), (CURLOPT_SEEKDATA, VThis),
                   (CURLOPT_INFILESIZE_LARGE, VLong (m_uploadSize s))] s
      | BodyKind_Multipart \<Rightarrow> apply_multipart s)"

text \<open>The lines of \<open>BeginAttempt\<close> between opening the files and adding the handle.\<close>

definition configure_handle :: "host \<Rightarrow> 'a rest_job_scheme \<Rightarrow> 'a rest_job_scheme" where
  "configure_handle h s =
     (let s1 = apply_body (apply_method (apply_auth (apply_common_options h (build_headers s))))
      in setopt CURLOPT_HTTPHEADER (VList (m_headerList s1)) s1)"


section \<open>What the options amount to\<close>

text \<open>The value an option has on the job's handle.\<close>

definition opt_of :: "'a rest_job_scheme \<Rightarrow> curl_opt \<Rightarrow> opt_value option" where
  "opt_of s opt = (case m_easy s of None \<Rightarrow> None | Some eh \<Rightarrow> easy_option eh opt)"

lemma setopts_eq: "setopts opts s = s\<lparr>m_easy := map_option (\<lambda>h. rev opts @ h) (m_easy s)\<rparr>"
proof (induction opts arbitrary: s)
  case Nil
  have "map_option (\<lambda>h. rev [] @ h) (m_easy s) = m_easy s" by (cases "m_easy s") auto
  then show ?case by (simp add: setopts_def)
next
  case (Cons x opts)
  obtain opt v where x: "x = (opt, v)" by (cases x)
  have "setopts (x # opts) s = setopts opts (setopt opt v s)" by (simp add: setopts_def x)
  also have "\<dots> = s\<lparr>m_easy := map_option (\<lambda>h. rev opts @ h) (map_option (Cons (opt, v)) (m_easy s))\<rparr>"
    by (simp add: Cons.IH setopt_def)
  finally show ?case by (cases "m_easy s") (simp_all add: x)
qed

lemma setopts_frame [frame_simps]:
  "m_spec (setopts opts s) = m_spec s" "m_resumeOffset (setopts opts s) = m_resumeOffset s"
  "m_headerList (setopts opts s) = m_headerList s" "m_uploadSize (setopts opts s) = m_uploadSize s"
  by (simp_all add: setopts_eq)

lemma setopt_frame [frame_simps]:
  "m_spec (setopt opt v s) = m_spec s" "m_resumeOffset (setopt opt v s) = m_resumeOffset s"
  "m_headerList (setopt opt v s) = m_headerList s" "m_uploadSize (setopt opt v s) = m_uploadSize s"
  by (simp_all add: setopt_def)

lemma setopt_has [simp]: "(m_easy (setopt opt v s) = None) = (m_easy s = None)"
  by (simp add: setopt_def)

lemma setopts_has [simp]: "(m_easy (setopts opts s) = None) = (m_easy s = None)"
  by (simp add: setopts_eq)

lemma opt_of_setopt:
  "m_easy s \<noteq> None \<Longrightarrow> opt_of (setopt opt v s) opt' = (if opt' = opt then Some v else opt_of s opt')"
  by (auto simp: opt_of_def setopt_def easy_option_def)

lemma opt_of_m_mime [simp]: "opt_of (s\<lparr>m_mime := x\<rparr>) opt = opt_of s opt"
  by (simp add: opt_of_def)

lemma opt_of_setopts:
  "m_easy s \<noteq> None \<Longrightarrow>
     opt_of (setopts opts s) opt' =
       (case map_of (rev opts) opt' of Some v \<Rightarrow> Some v | None \<Rightarrow> opt_of s opt')"
  by (auto simp: opt_of_def setopts_eq easy_option_def map_add_def split: option.splits)

lemma stage_frame [frame_simps]:
  "m_spec (build_headers s) = m_spec s" "m_easy (build_headers s) = m_easy s"
  "m_spec (apply_common_options h s) = m_spec s" "m_spec (apply_auth s) = m_spec s"
  "m_spec (apply_method s) = m_spec s" "m_spec (apply_body s) = m_spec s"
  "m_headerList (apply_common_options h s) = m_headerList s"
  "m_headerList (apply_auth s) = m_headerList s"
  "m_headerList (apply_method s) = m_headerList s"
  "m_headerList (apply_body s) = m_headerList s"
  by (simp_all add: build_headers_def apply_common_options_def apply_auth_def apply_method_def
      apply_body_def apply_multipart_def Let_def frame_simps split: body_kind.split)

lemma stage_has [simp]:
  "(m_easy (apply_common_options h s) = None) = (m_easy s = None)"
  "(m_easy (apply_auth s) = None) = (m_easy s = None)"
  "(m_easy (apply_method s) = None) = (m_easy s = None)"
  "(m_easy (apply_body s) = None) = (m_easy s = None)"
  by (simp_all add: apply_common_options_def apply_auth_def apply_method_def
      apply_body_def apply_multipart_def Let_def split: body_kind.split)

definition method_opts :: "curl_opt set" where
  "method_opts = {CURLOPT_HTTPGET, CURLOPT_NOBODY, CURLOPT_POST, CURLOPT_POSTFIELDSIZE,
     CURLOPT_CUSTOMREQUEST}"

definition body_opts :: "curl_opt set" where
  "body_opts = {CURLOPT_POSTFIELDS, CURLOPT_POSTFIELDSIZE_LARGE, CURLOPT_UPLOAD,
     CURLOPT_READFUNCTION, CURLOPT_READDATA, CURLOPT_SEEKFUNCTION, CURLOPT_SEEKDATA,
     CURLOPT_INFILESIZE_LARGE, CURLOPT_MIMEPOST}"

definition auth_opts :: "curl_opt set" where
  "auth_opts = {CURLOPT_HTTPAUTH, CURLOPT_XOAUTH2_BEARER, CURLOPT_USERNAME, CURLOPT_PASSWORD}"

lemma opt_of_apply_body_other:
  "m_easy s \<noteq> None \<Longrightarrow> opt \<notin> body_opts \<Longrightarrow> opt_of (apply_body s) opt = opt_of s opt"
  by (auto simp: apply_body_def apply_multipart_def opt_of_setopts opt_of_setopt body_opts_def
      Let_def split: body_kind.split)

lemma opt_of_apply_method_other:
  "m_easy s \<noteq> None \<Longrightarrow> opt \<notin> method_opts \<Longrightarrow> opt_of (apply_method s) opt = opt_of s opt"
  by (auto simp: apply_method_def opt_of_setopts opt_of_setopt method_opts_def Let_def)

lemma opt_of_apply_auth_other:
  "m_easy s \<noteq> None \<Longrightarrow> opt \<notin> auth_opts \<Longrightarrow> opt_of (apply_auth s) opt = opt_of s opt"
  by (auto simp: apply_auth_def opt_of_setopts auth_opts_def Let_def)

lemma opt_of_apply_common_other:
  "m_easy s \<noteq> None \<Longrightarrow> opt \<in> body_opts \<union> method_opts \<union> auth_opts \<Longrightarrow>
     opt_of (apply_common_options h s) opt = opt_of s opt"
  by (auto simp: apply_common_options_def opt_of_setopts opt_of_setopt Let_def
      body_opts_def method_opts_def auth_opts_def)

lemmas opt_set_defs = body_opts_def method_opts_def auth_opts_def

text \<open>
  The finished handle, option by option: \<open>configure_handle\<close> on a fresh handle.
\<close>

lemma configured_body:
  "m_easy s \<noteq> None \<Longrightarrow> opt \<in> body_opts \<Longrightarrow>
     opt_of (configure_handle h s) opt =
       opt_of (apply_body (apply_method (apply_auth (apply_common_options h (build_headers s))))) opt"
  by (auto simp: configure_handle_def Let_def opt_of_setopt frame_simps body_opts_def)

lemma configured_method:
  "m_easy s \<noteq> None \<Longrightarrow> opt \<in> method_opts \<Longrightarrow>
     opt_of (configure_handle h s) opt =
       opt_of (apply_method (apply_auth (apply_common_options h (build_headers s)))) opt"
  by (subgoal_tac "opt \<noteq> CURLOPT_HTTPHEADER \<and> opt \<notin> body_opts")
    (auto simp: configure_handle_def Let_def opt_of_setopt frame_simps opt_of_apply_body_other opt_set_defs)

lemma configured_auth:
  "m_easy s \<noteq> None \<Longrightarrow> opt \<in> auth_opts \<Longrightarrow>
     opt_of (configure_handle h s) opt = opt_of (apply_auth (apply_common_options h (build_headers s))) opt"
  by (subgoal_tac "opt \<noteq> CURLOPT_HTTPHEADER \<and> opt \<notin> body_opts \<and> opt \<notin> method_opts")
    (auto simp: configure_handle_def Let_def opt_of_setopt frame_simps opt_of_apply_body_other
      opt_of_apply_method_other opt_set_defs)

lemma configured_common:
  "m_easy s \<noteq> None \<Longrightarrow> opt \<notin> body_opts \<union> method_opts \<union> auth_opts \<union> {CURLOPT_HTTPHEADER} \<Longrightarrow>
     opt_of (configure_handle h s) opt = opt_of (apply_common_options h (build_headers s)) opt"
  by (simp add: configure_handle_def Let_def opt_of_setopt frame_simps opt_of_apply_body_other
      opt_of_apply_method_other opt_of_apply_auth_other)

section \<open>The request method\<close>

text \<open>
  How libcurl documents the request method of a handle on which at most one of the options that
  choose it was set: \<open>CUSTOMREQUEST\<close> replaces the method keyword whatever else is set;
  \<open>HTTPGET\<close>, \<open>NOBODY\<close>, \<open>POST\<close> and \<open>UPLOAD\<close> choose GET, HEAD, POST and PUT; \<open>POSTFIELDS\<close> and
  \<open>MIMEPOST\<close> imply POST. The function itself is a parameter.
\<close>

definition no_method_opt :: "(curl_opt \<Rightarrow> opt_value option) \<Rightarrow> curl_opt set \<Rightarrow> bool" where
  "no_method_opt opts except \<longleftrightarrow>
     (CURLOPT_CUSTOMREQUEST \<in> except \<or> opts CURLOPT_CUSTOMREQUEST = None) \<and>
     (CURLOPT_HTTPGET \<in> except \<or> opts CURLOPT_HTTPGET = None) \<and>
     (CURLOPT_NOBODY \<in> except \<or> opts CURLOPT_NOBODY = None) \<and>
     (CURLOPT_POST \<in> except \<or> opts CURLOPT_POST = None) \<and>
     (CURLOPT_POSTFIELDS \<in> except \<or> opts CURLOPT_POSTFIELDS = None) \<and>
     (CURLOPT_MIMEPOST \<in> except \<or> opts CURLOPT_MIMEPOST = None) \<and>
     (CURLOPT_UPLOAD \<in> except \<or> opts CURLOPT_UPLOAD = None)"

definition curl_method_law :: "((curl_opt \<Rightarrow> opt_value option) \<Rightarrow> string) \<Rightarrow> bool" where
  "curl_method_law keyword \<longleftrightarrow>
     (\<forall>opts m. opts CURLOPT_CUSTOMREQUEST = Some (VString m) \<longrightarrow> keyword opts = m) \<and>
     (\<forall>opts. opts CURLOPT_HTTPGET = Some (VLong 1) \<and> no_method_opt opts {CURLOPT_HTTPGET} \<longrightarrow>
        keyword opts = ''GET'') \<and>
     (\<forall>opts. opts CURLOPT_NOBODY = Some (VLong 1) \<and> no_method_opt opts {CURLOPT_NOBODY} \<longrightarrow>
        keyword opts = ''HEAD'') \<and>
     (\<forall>opts. opts CURLOPT_POST = Some (VLong 1) \<and> no_method_opt opts {CURLOPT_POST} \<longrightarrow>
        keyword opts = ''POST'') \<and>
     (\<forall>opts b. opts CURLOPT_POSTFIELDS = Some (VBytes b) \<and> no_method_opt opts {CURLOPT_POSTFIELDS} \<longrightarrow>
        keyword opts = ''POST'') \<and>
     (\<forall>opts ps. opts CURLOPT_MIMEPOST = Some (VMime ps) \<and> no_method_opt opts {CURLOPT_MIMEPOST} \<longrightarrow>
        keyword opts = ''POST'') \<and>
     (\<forall>opts. opts CURLOPT_UPLOAD = Some (VLong 1) \<and> no_method_opt opts {CURLOPT_UPLOAD} \<longrightarrow>
        keyword opts = ''PUT'')"

text \<open>One function with that behaviour.\<close>

definition curl_keyword :: "(curl_opt \<Rightarrow> opt_value option) \<Rightarrow> string" where
  "curl_keyword opts =
     (case opts CURLOPT_CUSTOMREQUEST of
        Some (VString m) \<Rightarrow> m
      | _ \<Rightarrow> if opts CURLOPT_NOBODY = Some (VLong 1) then ''HEAD''
             else if opts CURLOPT_UPLOAD = Some (VLong 1) then ''PUT''
             else if opts CURLOPT_POST = Some (VLong 1) \<or> opts CURLOPT_POSTFIELDS \<noteq> None
                     \<or> opts CURLOPT_MIMEPOST \<noteq> None then ''POST''
             else ''GET'')"

lemma curl_keyword_law: "curl_method_law curl_keyword"
  by (auto simp: curl_method_law_def curl_keyword_def no_method_opt_def split: option.splits opt_value.splits)

text \<open>The method options and the body options that \<open>ApplyMethod\<close> and \<open>ApplyBody\<close> set.\<close>

lemma fresh_opts:
  assumes easy: "m_easy s = Some []" and opt: "opt \<in> body_opts \<union> method_opts"
  shows "opt_of (apply_auth (apply_common_options h (build_headers s))) opt = None"
proof -
  have "opt \<notin> auth_opts" using opt by (auto simp: opt_set_defs)
  then have "opt_of (apply_auth (apply_common_options h (build_headers s))) opt =
      opt_of (apply_common_options h (build_headers s)) opt"
    using easy by (simp add: opt_of_apply_auth_other frame_simps)
  also have "\<dots> = opt_of (build_headers s) opt"
    using easy opt by (intro opt_of_apply_common_other) (auto simp: frame_simps)
  also have "\<dots> = None" using easy by (simp add: opt_of_def frame_simps easy_option_def)
  finally show ?thesis .
qed

lemma curl_method_rules:
  assumes "curl_method_law keyword"
  shows "opts CURLOPT_CUSTOMREQUEST = Some (VString m) \<Longrightarrow> keyword opts = m"
    and "opts CURLOPT_HTTPGET = Some (VLong 1) \<Longrightarrow> no_method_opt opts {CURLOPT_HTTPGET} \<Longrightarrow> keyword opts = ''GET''"
    and "opts CURLOPT_NOBODY = Some (VLong 1) \<Longrightarrow> no_method_opt opts {CURLOPT_NOBODY} \<Longrightarrow> keyword opts = ''HEAD''"
    and "opts CURLOPT_POST = Some (VLong 1) \<Longrightarrow> no_method_opt opts {CURLOPT_POST} \<Longrightarrow> keyword opts = ''POST''"
    and "opts CURLOPT_POSTFIELDS = Some (VBytes b) \<Longrightarrow> no_method_opt opts {CURLOPT_POSTFIELDS} \<Longrightarrow> keyword opts = ''POST''"
    and "opts CURLOPT_MIMEPOST = Some (VMime ps) \<Longrightarrow> no_method_opt opts {CURLOPT_MIMEPOST} \<Longrightarrow> keyword opts = ''POST''"
    and "opts CURLOPT_UPLOAD = Some (VLong 1) \<Longrightarrow> no_method_opt opts {CURLOPT_UPLOAD} \<Longrightarrow> keyword opts = ''PUT''"
  using assms by (simp_all add: curl_method_law_def)

text \<open>What the options of \<open>ApplyMethod\<close> and \<open>ApplyBody\<close> are on the finished handle.\<close>

lemma configured_method_or_body:
  fixes h :: host
  assumes "m_easy s = Some []"
  defines "s0 \<equiv> apply_auth (apply_common_options h (build_headers s))"
  shows "m_easy s0 \<noteq> None" and "m_spec s0 = m_spec s"
    and "opt \<in> body_opts \<union> method_opts \<Longrightarrow> opt_of s0 opt = None"
    and "opt \<in> method_opts \<Longrightarrow> opt_of (configure_handle h s) opt = opt_of (apply_method s0) opt"
    and "opt \<in> body_opts \<Longrightarrow> opt_of (configure_handle h s) opt = opt_of (apply_body (apply_method s0)) opt"
  using assms fresh_opts [OF assms(1)] by (simp_all add: frame_simps configured_method configured_body)

text \<open>
  C16: The request method. The request keyword libcurl sends is the configured method, for every
  combination of method and body, given what libcurl documents about the options that choose it.
\<close>

theorem configured_keyword:
  fixes h :: host
  assumes easy: "m_easy s = Some []" and law: "curl_method_law keyword"
  shows "keyword (opt_of (configure_handle h s)) = method_name (spec_method (m_spec s))"
proof -
  define opts where "opts = opt_of (configure_handle h s)"
  define s0 where "s0 = apply_auth (apply_common_options h (build_headers s))"
  note vals = configured_method_or_body [OF easy, where h = h, folded opts_def s0_def] opt_of_setopt opt_of_setopts
    opt_set_defs apply_method_def apply_body_def apply_multipart_def Let_def frame_simps
  note rules = curl_method_rules [OF law, of opts]
  define kind where "kind = spec_bodyKind (m_spec s)"
  define verb where "verb = spec_method (m_spec s)"
  consider
      (get) "kind = BodyKind_None \<and> verb = RestMethod_Get"
    | (head) "kind = BodyKind_None \<and> verb = RestMethod_Head"
    | (post) "kind = BodyKind_None \<and> verb = RestMethod_Post"
    | (put) "kind = BodyKind_File \<and> verb = RestMethod_Put"
    | (fields) "(kind = BodyKind_Memory \<or> kind = BodyKind_Form) \<and> verb = RestMethod_Post"
    | (mime) "kind = BodyKind_Multipart \<and> verb = RestMethod_Post"
    | (custom) "opts CURLOPT_CUSTOMREQUEST = Some (VString (method_name verb))"
    by (cases kind; cases verb) (simp_all add: vals kind_def [symmetric] verb_def [symmetric])
  then have "keyword opts = method_name verb"
  proof cases
    case get
    then show ?thesis unfolding kind_def verb_def
      by (subst rules(2)) (simp_all add: vals no_method_opt_def)
  next
    case head
    then show ?thesis unfolding kind_def verb_def
      by (subst rules(3)) (simp_all add: vals no_method_opt_def)
  next
    case post
    then show ?thesis unfolding kind_def verb_def
      by (subst rules(4)) (simp_all add: vals no_method_opt_def)
  next
    case put
    then show ?thesis unfolding kind_def verb_def
      by (subst rules(7)) (simp_all add: vals no_method_opt_def)
  next
    case fields
    then show ?thesis unfolding kind_def verb_def
      by (subst rules(5) [of "spec_body (m_spec s)"]) (auto simp: vals no_method_opt_def)
  next
    case mime
    then have "keyword opts = ''POST''" unfolding kind_def verb_def
      by (intro rules(6)) (simp_all add: vals no_method_opt_def)
    with mime show ?thesis by simp
  next
    case custom
    then show ?thesis by (rule rules(1))
  qed
  then show ?thesis by (simp add: opts_def verb_def)
qed

lemma configured_keyword_witness:
  "curl_keyword (opt_of (configure_handle host_default ((new_job request_spec_default)\<lparr>m_easy := Some []\<rparr>))) = ''GET''"
  using configured_keyword [OF _ curl_keyword_law, of "(new_job request_spec_default)\<lparr>m_easy := Some []\<rparr>" host_default]
  by (simp add: new_job_def request_spec_default_def)

section \<open>The other options\<close>

lemma demo_easy: "m_easy ((new_job request_spec_default)\<lparr>m_easy := Some []\<rparr>) = Some []"
  by simp

lemma stage_upload_size:
  "m_uploadSize (build_headers s) = m_uploadSize s" "m_uploadSize (apply_common_options h s) = m_uploadSize s"
  "m_uploadSize (apply_auth s) = m_uploadSize s" "m_uploadSize (apply_method s) = m_uploadSize s"
  by (simp_all add: build_headers_def apply_common_options_def apply_auth_def apply_method_def Let_def frame_simps)

lemma fold_snoc: "fold (\<lambda>x xs. xs @ [f x]) ys zs = zs @ map f ys"
  by (induction ys arbitrary: zs) simp_all

text \<open>
  C17: Transport options. The finished handle verifies the server's certificate and its name exactly
  when the client asks for it, follows redirects only when asked and then up to the configured
  number, uses the request's URL and the collected header list, and its receive buffer has the
  configured chunk size clamped to what libcurl accepts.
\<close>

theorem configured_transport:
  fixes h :: host
  assumes "m_easy s = Some []" and "1024 \<le> h_max_read_size h"
  defines "opt \<equiv> opt_of (configure_handle h s)" and "config \<equiv> job_config s"
  shows "opt CURLOPT_SSL_VERIFYPEER = Some (VLong (if cfg_verifyCertificate config then 1 else 0)) \<and>
    opt CURLOPT_SSL_VERIFYHOST = Some (VLong (if cfg_verifyCertificate config then 2 else 0)) \<and>
    opt CURLOPT_FOLLOWLOCATION = Some (VLong (if cfg_followRedirects config then 1 else 0)) \<and>
    opt CURLOPT_MAXREDIRS = Some (VLong (cfg_maxRedirects config)) \<and>
    opt CURLOPT_URL = Some (VString (c_str (spec_url (m_spec s)))) \<and>
    opt CURLOPT_HTTPHEADER = Some (VList (m_headerList (configure_handle h s))) \<and>
    (\<exists>n. opt CURLOPT_BUFFERSIZE = Some (VLong n) \<and> 1024 \<le> n \<and> n \<le> h_max_read_size h \<and>
       (1024 \<le> cfg_chunkSize config \<and> cfg_chunkSize config \<le> h_max_read_size h \<longrightarrow> n = cfg_chunkSize config))"
proof -
  have ne: "m_easy s \<noteq> None" using assms(1) by simp
  have c: "opt o' = opt_of (apply_common_options h (build_headers s)) o'"
    if "o' \<notin> body_opts \<union> method_opts \<union> auth_opts \<union> {CURLOPT_HTTPHEADER}" for o'
    using configured_common [OF ne that] by (simp add: opt_def)
  have "opt CURLOPT_HTTPHEADER = Some (VList (m_headerList (configure_handle h s)))"
    using ne by (simp add: opt_def configure_handle_def Let_def opt_of_setopt frame_simps)
  then show ?thesis using assms(1,2)
    by (simp add: c opt_set_defs apply_common_options_def Let_def opt_of_setopt opt_of_setopts
        frame_simps config_def clamp_chunk_size_def)
qed

lemma configured_transport_witness:
  "opt_of (configure_handle host_default ((new_job request_spec_default)\<lparr>m_easy := Some []\<rparr>))
     CURLOPT_SSL_VERIFYHOST = Some (VLong 2)"
  using configured_transport [OF demo_easy, of host_default]
  by (simp add: host_default_def new_job_def request_spec_default_def client_config_default_def)

text \<open>
  C18: Credentials are exclusive. A bearer token wins over a user name; with either, exactly its own
  scheme is set on the handle; with neither, no authentication option is.
\<close>

theorem configured_credentials:
  fixes h :: host
  assumes "m_easy s = Some []"
  defines "opt \<equiv> opt_of (configure_handle h s)" and "config \<equiv> job_config s"
  shows "if cfg_bearerToken config \<noteq> [] then
      opt CURLOPT_HTTPAUTH = Some (VConst CURLAUTH_BEARER) \<and>
      opt CURLOPT_XOAUTH2_BEARER = Some (VString (c_str (cfg_bearerToken config))) \<and>
      opt CURLOPT_USERNAME = None \<and> opt CURLOPT_PASSWORD = None
    else if cfg_basicUser config \<noteq> [] then
      opt CURLOPT_HTTPAUTH = Some (VConst CURLAUTH_BASIC) \<and> opt CURLOPT_XOAUTH2_BEARER = None \<and>
      opt CURLOPT_USERNAME = Some (VString (c_str (cfg_basicUser config))) \<and>
      opt CURLOPT_PASSWORD = Some (VString (c_str (cfg_basicPassword config)))
    else (\<forall>o' \<in> auth_opts. opt o' = None)"
proof -
  have ne: "m_easy s \<noteq> None" using assms(1) by simp
  have a: "opt o' = opt_of (apply_auth (apply_common_options h (build_headers s))) o'" if "o' \<in> auth_opts" for o'
    using configured_auth [OF ne that] by (simp add: opt_def)
  have f: "opt_of (apply_common_options h (build_headers s)) o' = None" if "o' \<in> auth_opts" for o'
  proof -
    have "opt_of (apply_common_options h (build_headers s)) o' = opt_of (build_headers s) o'"
      using ne that by (intro opt_of_apply_common_other) (auto simp: frame_simps)
    then show ?thesis using assms(1) by (simp add: opt_of_def frame_simps easy_option_def)
  qed
  define s0 where "s0 = apply_common_options h (build_headers s)"
  have ne0: "m_easy s0 \<noteq> None" and spec0: "m_spec s0 = m_spec s" using ne by (simp_all add: s0_def frame_simps)
  have v: "opt o' = opt_of (apply_auth s0) o'" "opt_of s0 o' = None"
    if "o' \<in> {CURLOPT_HTTPAUTH, CURLOPT_XOAUTH2_BEARER, CURLOPT_USERNAME, CURLOPT_PASSWORD}" for o'
    using a f that by (simp_all only: auth_opts_def s0_def)
  show ?thesis using ne0
    by (simp add: v auth_opts_def apply_auth_def opt_of_setopts spec0 config_def Let_def)
qed

lemma configured_credentials_witness:
  "opt_of (configure_handle host_default ((new_job request_spec_default)\<lparr>m_easy := Some []\<rparr>)) CURLOPT_USERNAME = None"
  using configured_credentials [OF demo_easy, of host_default]
  by (simp add: new_job_def request_spec_default_def client_config_default_def auth_opts_def)

text \<open>
  C19: The request body. What the handle sends is what the request holds: the bytes of a memory or
  form body with their exact length, the file of an upload with the size found when it was opened,
  the parts of a multipart form in the order of the fields, and nothing for a request without a
  body.
\<close>

theorem configured_payload:
  fixes h :: host
  assumes "m_easy s = Some []"
  defines "opt \<equiv> opt_of (configure_handle h s)" and "spec \<equiv> m_spec s"
  shows "(case spec_bodyKind spec of
      BodyKind_None \<Rightarrow> opt CURLOPT_POSTFIELDS = None \<and> opt CURLOPT_UPLOAD = None \<and> opt CURLOPT_MIMEPOST = None
    | BodyKind_Memory \<Rightarrow> opt CURLOPT_POSTFIELDS = Some (VBytes (spec_body spec)) \<and>
        opt CURLOPT_POSTFIELDSIZE_LARGE = Some (VLong (int (length (spec_body spec)))) \<and>
        opt CURLOPT_UPLOAD = None \<and> opt CURLOPT_MIMEPOST = None
    | BodyKind_Form \<Rightarrow> opt CURLOPT_POSTFIELDS = Some (VBytes (spec_body spec)) \<and>
        opt CURLOPT_POSTFIELDSIZE_LARGE = Some (VLong (int (length (spec_body spec)))) \<and>
        opt CURLOPT_UPLOAD = None \<and> opt CURLOPT_MIMEPOST = None
    | BodyKind_File \<Rightarrow> opt CURLOPT_UPLOAD = Some (VLong 1) \<and>
        opt CURLOPT_INFILESIZE_LARGE = Some (VLong (m_uploadSize s)) \<and>
        opt CURLOPT_READFUNCTION = Some (VCallback ReadCallback) \<and>
        opt CURLOPT_POSTFIELDS = None \<and> opt CURLOPT_MIMEPOST = None
    | BodyKind_Multipart \<Rightarrow> opt CURLOPT_MIMEPOST = Some (VMime (map field_part (spec_formFields spec))) \<and>
        opt CURLOPT_POSTFIELDS = None \<and> opt CURLOPT_UPLOAD = None)"
proof -
  define s0 where "s0 = apply_method (apply_auth (apply_common_options h (build_headers s)))"
  have ne: "m_easy s0 \<noteq> None" "m_easy s \<noteq> None" using assms(1) by (simp_all add: s0_def frame_simps)
  have spec0: "m_spec s0 = spec" by (simp add: s0_def spec_def frame_simps)
  have size: "m_uploadSize s0 = m_uploadSize s" by (simp add: s0_def stage_upload_size)
  have fresh: "opt_of s0 o' = None" if "o' \<in> body_opts" for o'
  proof -
    have "o' \<notin> method_opts" using that by (auto simp: opt_set_defs)
    then have "opt_of s0 o' = opt_of (apply_auth (apply_common_options h (build_headers s))) o'"
      unfolding s0_def using ne by (intro opt_of_apply_method_other) (simp_all add: frame_simps)
    with fresh_opts [OF assms(1)] that show ?thesis by simp
  qed
  have b: "opt o' = opt_of (apply_body s0) o'" if "o' \<in> body_opts" for o'
    using configured_body [OF ne(2) that] by (simp add: opt_def s0_def)
  show ?thesis using ne(1)
    by (cases "spec_bodyKind spec")
      (simp_all add: b fresh opt_set_defs apply_body_def apply_multipart_def Let_def spec0 size fold_snoc
        opt_of_setopt opt_of_setopts)
qed

lemma configured_payload_witness:
  "opt_of (configure_handle host_default ((new_job (request_spec_default
       \<lparr>spec_bodyKind := BodyKind_Memory, spec_body := ''abc''\<rparr>))\<lparr>m_easy := Some []\<rparr>))
     CURLOPT_POSTFIELDS = Some (VBytes ''abc'')"
  using configured_payload [of "(new_job (request_spec_default
       \<lparr>spec_bodyKind := BodyKind_Memory, spec_body := ''abc''\<rparr>))\<lparr>m_easy := Some []\<rparr>" host_default]
  by (simp add: new_job_def request_spec_default_def)

end
