(* ===== verification/Rest_Callbacks.thy ===== *)
theory Rest_Callbacks
  imports Rest_Setup
begin

text \<open>
  What libcurl calls back into a job during a transfer (\<open>src/job.cpp\<close>, \<open>HeaderCallback\<close> to
  \<open>PostProgress\<close>): response headers, response body (to memory, to the part file or to the plugin
  as a stream), request body, progress. \<open>status\<close> is what \<open>CURLINFO_RESPONSE_CODE\<close> reports at the
  time of the call. The stream sink is where the flow control lives: it posts chunks, counts the
  bytes the main thread has not consumed, and pauses and resumes the transfer.
\<close>

section \<open>Response headers\<close>

definition on_headers_complete :: "int \<Rightarrow> job_ctx \<Rightarrow> job_ctx" where
  "on_headers_complete status s =
     (if \<not> spec_wantHeaders (m_spec s) \<or> m_headersPosted s then s
      else if status < 200 then s
      else let willFollow = (is_redirect status \<and> cfg_followRedirects (job_config s)
                             \<and> find_header (m_responseHeaders s) ''location'' \<noteq> None)
           in if willFollow then s
              else post_event (transfer_event_default
                     \<lparr>ev_kind := Kind_Headers, ev_jobId := spec_id (m_spec s),
                      ev_httpStatus := status, ev_headers := m_responseHeaders s\<rparr>)
                     (s\<lparr>m_headersPosted := True\<rparr>))"

definition on_header_line :: "int \<Rightarrow> string \<Rightarrow> job_ctx \<Rightarrow> job_ctx" where
  "on_header_line status line s =
     (if take 5 line = ''HTTP/'' then s\<lparr>m_responseHeaders := [], m_headersPosted := False\<rparr>
      else let trimmed = trim line
           in if trimmed = [] then on_headers_complete status s
              else case str_find_char (CHR '':'') trimmed of
                     None \<Rightarrow> s
                   | Some colon \<Rightarrow>
                       let name = trim (take colon trimmed);
                           value = trim (drop (colon + 1) trimmed)
                       in s\<lparr>m_responseHeaders := m_responseHeaders s @ [(name, value)]\<rparr>)"

text \<open>\<open>data\<close> are the \<open>size * count\<close> bytes libcurl passes; the callback claims to have taken them all.\<close>

definition header_callback :: "int \<Rightarrow> string \<Rightarrow> job_ctx \<Rightarrow> nat \<times> job_ctx" where
  "header_callback status data s = (let total = length data in (total, on_header_line status data s))"

lemma header_callback_eq [simp]: "header_callback status data s = (length data, on_header_line status data s)"
  by (simp add: header_callback_def)

section \<open>Response body\<close>

datatype sink = Sink_Memory | Sink_File | Sink_Stream

definition sink_for :: "'a rest_job_scheme \<Rightarrow> int \<Rightarrow> sink" where
  "sink_for s status =
     (if \<not> is_success status then Sink_Memory
      else if spec_outputPath (m_spec s) \<noteq> [] then Sink_File
      else if spec_streamData (m_spec s) then Sink_Stream
      else Sink_Memory)"

text \<open>
  What a write callback returns: a byte count, \<open>CURL_WRITEFUNC_PAUSE\<close>, or nothing at all because
  it wrote through a null \<open>FILE *\<close>, which is undefined behaviour.
\<close>

datatype write_result = Wrote nat | WritePause | WriteNullFile

definition memory_cap :: "'a rest_job_scheme \<Rightarrow> nat" where
  "memory_cap s =
     (if spec_outputPath (m_spec s) = [] \<and> \<not> spec_streamData (m_spec s)
      then nat (to_u32 (cfg_maxBodySize (job_config s))) else kMaxErrorBody)"

definition write_memory :: "string \<Rightarrow> job_ctx \<Rightarrow> write_result \<times> job_ctx" where
  "write_memory data s =
     (let total = length data;
          primary = (spec_outputPath (m_spec s) = [] \<and> \<not> spec_streamData (m_spec s));
          cap = memory_cap s;
          room = (if cap > length (m_responseBody s) then cap - length (m_responseBody s) else 0)
      in if total > room \<and> primary then (Wrote 0, s\<lparr>m_tooLarge := True\<rparr>)
         else (Wrote total,
               s\<lparr>m_responseBody := m_responseBody s @ take (min total room) data,
                 m_bodyLength := m_bodyLength s + int total\<rparr>))"

definition write_file :: "host \<Rightarrow> int \<Rightarrow> string \<Rightarrow> job_ctx \<Rightarrow> write_result \<times> job_ctx" where
  "write_file h status data s =
     (let serverIgnoredRange =
            (status = 200 \<and> m_resumeOffset s > 0 \<and> \<not> m_restartedFullBody s);
          (ok, s1) =
            (if serverIgnoredRange then
               let (reopened, fs) = freopen_wb h (m_partPath s) (m_outputFile s) (io_files s);
                   s0 = s\<lparr>m_restartedFullBody := True, m_resumeOffset := 0,
                          m_outputFile := reopened, io_files := fs\<rparr>
               in (reopened \<noteq> None, s0)
             else (True, s))
      in if \<not> ok then (Wrote 0, s1)
         else case m_outputFile s1 of
                None \<Rightarrow> (WriteNullFile, s1)
              | Some f \<Rightarrow>
                  let (written, fs) = fwrite h data f (io_files s1)
                  in (Wrote written,
                      s1\<lparr>io_files := fs, m_bodyLength := m_bodyLength s1 + int written\<rparr>))"

definition flush_stream :: "job_ctx \<Rightarrow> job_ctx" where
  "flush_stream s =
     (if m_streamBuffer s = [] then s
      else post_event (transfer_event_default
             \<lparr>ev_kind := Kind_Data, ev_jobId := spec_id (m_spec s), ev_body := m_streamBuffer s\<rparr>)
             (s\<lparr>m_pendingStreamBytes := m_pendingStreamBytes s + int (length (m_streamBuffer s)),
                m_streamBuffer := ''''\<rparr>))"

definition write_stream :: "string \<Rightarrow> job_ctx \<Rightarrow> write_result \<times> job_ctx" where
  "write_stream data s =
     (if m_pendingStreamBytes s \<ge> kStreamHighWater then (WritePause, s\<lparr>m_paused := True\<rparr>)
      else let s1 = s\<lparr>m_streamBuffer := m_streamBuffer s @ data,
                      m_bodyLength := m_bodyLength s + int (length data)\<rparr>;
               s2 = (if int (length (m_streamBuffer s1)) \<ge> to_u32 (cfg_chunkSize (job_config s))
                     then flush_stream s1 else s1)
           in (Wrote (length data), s2))"

definition write_callback :: "host \<Rightarrow> int \<Rightarrow> string \<Rightarrow> job_ctx \<Rightarrow> write_result \<times> job_ctx" where
  "write_callback h status data s =
     (case sink_for s status of
        Sink_File \<Rightarrow> write_file h status data s
      | Sink_Stream \<Rightarrow> write_stream data s
      | Sink_Memory \<Rightarrow> write_memory data s)"

text \<open>
  The main thread has consumed \<open>bytes\<close>. The Boolean says whether the code calls
  \<open>curl_easy_pause(m_easy, CURLPAUSE_CONT)\<close>.
\<close>

definition on_stream_consumed :: "int \<Rightarrow> 'a rest_job_scheme \<Rightarrow> bool \<times> 'a rest_job_scheme" where
  "on_stream_consumed bytes s =
     (let s1 = s\<lparr>m_pendingStreamBytes := max 0 (m_pendingStreamBytes s - bytes)\<rparr>
      in if \<not> m_paused s1 \<or> m_pendingStreamBytes s1 \<ge> kStreamLowWater \<or> \<not> m_attached s1
         then (False, s1)
         else (True, s1\<lparr>m_paused := False\<rparr>))"

section \<open>Request body\<close>

text \<open>\<^const>\<open>None\<close> is \<open>CURL_READFUNC_ABORT\<close>.\<close>

definition read_callback :: "nat \<Rightarrow> job_ctx \<Rightarrow> string option \<times> job_ctx" where
  "read_callback n s =
     (case m_uploadFile s of
        None \<Rightarrow> (None, s)
      | Some f \<Rightarrow> let (data, f') = fread n f (io_files s) in (Some data, s\<lparr>m_uploadFile := Some f'\<rparr>))"

text \<open>
  True is \<open>CURL_SEEKFUNC_OK\<close>. \<open>off_t\<close> has 32 bits on the target: the build does not ask for a
  64-bit one.
\<close>

definition seek_callback :: "int \<Rightarrow> int \<Rightarrow> job_ctx \<Rightarrow> bool \<times> job_ctx" where
  "seek_callback offset origin s =
     (case m_uploadFile s of
        None \<Rightarrow> (False, s)
      | Some f \<Rightarrow>
          (case fseeko (to_i32 offset) origin f (io_files s) of
             None \<Rightarrow> (False, s)
           | Some f' \<Rightarrow> (True, s\<lparr>m_uploadFile := Some f'\<rparr>)))"

section \<open>Progress\<close>

definition post_progress :: "host \<Rightarrow> int \<Rightarrow> int \<Rightarrow> int \<Rightarrow> int \<Rightarrow> job_ctx \<Rightarrow> job_ctx" where
  "post_progress h dltotal dlnow ultotal ulnow s =
     (if dlnow \<le> 0 \<and> ulnow \<le> 0 then s
      else let now = h_now h;
               elapsed = (now - m_lastProgressPost s) sdiv 1000000;
               downloadComplete = (dltotal > 0 \<and> dlnow \<ge> dltotal);
               uploadComplete = (ultotal > 0 \<and> ulnow \<ge> ultotal)
           in if \<not> downloadComplete \<and> \<not> uploadComplete
                 \<and> elapsed < cfg_progressInterval (job_config s) then s
              else let offset = m_resumeOffset s
                   in post_event (transfer_event_default
                        \<lparr>ev_kind := Kind_Progress, ev_jobId := spec_id (m_spec s),
                         ev_downloaded := dlnow + offset,
                         ev_downloadTotal := (if dltotal > 0 then dltotal + offset else 0),
                         ev_uploaded := ulnow, ev_uploadTotal := ultotal\<rparr>)
                        (s\<lparr>m_lastProgressPost := now\<rparr>))"

text \<open>A non-zero result makes libcurl abort the transfer.\<close>

definition progress_callback ::
  "host \<Rightarrow> int \<Rightarrow> int \<Rightarrow> int \<Rightarrow> int \<Rightarrow> job_ctx \<Rightarrow> int \<times> job_ctx" where
  "progress_callback h dltotal dlnow ultotal ulnow s =
     (if m_cancelRequested s then (1, s)
      else (0, post_progress h dltotal dlnow ultotal ulnow s))"

end
