(* ===== verification/Rest_Lifecycle.thy ===== *)
theory Rest_Lifecycle
  imports Rest_Callbacks
begin

text \<open>
  The life of a job (\<open>src/job.cpp\<close>, \<open>BeginAttempt\<close> and \<open>CaptureAttemptInfo\<close> to \<open>Finish\<close>): an
  attempt begins, ends with a libcurl result, and the job retries later or finishes; a job can be
  cancelled at any time. Finishing posts the one \<open>Complete\<close> event.
\<close>

section \<open>Finishing\<close>

definition complete_event :: "rest_status \<Rightarrow> string \<Rightarrow> 'a rest_job_scheme \<Rightarrow> transfer_event" where
  "complete_event status error s =
     transfer_event_default
       \<lparr>ev_kind := Kind_Complete, ev_jobId := spec_id (m_spec s), ev_status := status,
        ev_httpStatus := m_httpStatus s, ev_error := error, ev_url := m_effectiveUrl s,
        ev_elapsedMs := m_elapsedMs s, ev_bodyLength := m_bodyLength s,
        ev_headers := m_responseHeaders s, ev_body := m_responseBody s,
        ev_contentLength :=
          (case find_header (m_responseHeaders s) ''content-length'' of
             None \<Rightarrow> -1 | Some lengthHeader \<Rightarrow> atoll lengthHeader)\<rparr>"

definition finish :: "rest_status \<Rightarrow> string \<Rightarrow> job_ctx \<Rightarrow> job_ctx" where
  "finish status error s =
     (if m_finished s then s
      else post_event (complete_event status error s)
             (s\<lparr>m_finished := True, m_waitingForRetry := False, m_responseBody := ''''\<rparr>))"

definition cancel :: "job_ctx \<Rightarrow> job_ctx" where
  "cancel s =
     finish RestStatus_Cancelled ''cancelled''
       (release_curl (close_files (s\<lparr>m_cancelRequested := True\<rparr>)))"

section \<open>Beginning an attempt\<close>

definition begin_attempt :: "host \<Rightarrow> job_ctx \<Rightarrow> bool \<times> job_ctx" where
  "begin_attempt h s =
     (let s1 = reset_attempt_state (s\<lparr>m_attempt := m_attempt s + 1\<rparr>)
      in if m_cancelRequested s1 then (False, finish RestStatus_Cancelled ''cancelled'' s1)
         else let s2 = s1\<lparr>m_easy := (if h_easy_init h then Some [] else None)\<rparr>
              in if m_easy s2 = None
                 then (False, finish RestStatus_NetworkError ''curl_easy_init failed'' s2)
                 else let (opened, s3) = open_files h s2
                      in if \<not> opened then (False, finish RestStatus_IoError (h_errno_text h) s3)
                         else let s4 = configure_handle h s3
                              in case h_multi_add h of
                                   Some error \<Rightarrow> (False, finish RestStatus_NetworkError error s4)
                                 | None \<Rightarrow> (True, s4\<lparr>m_attached := True\<rparr>))"

section \<open>Ending an attempt\<close>

definition capture_attempt_info :: "host \<Rightarrow> 'a rest_job_scheme \<Rightarrow> 'a rest_job_scheme" where
  "capture_attempt_info h s =
     s\<lparr>m_httpStatus := h_response_code h,
       m_effectiveUrl := (case h_effective_url h of None \<Rightarrow> '''' | Some url \<Rightarrow> url),
       m_elapsedMs := h_total_time h sdiv 1000\<rparr>"

definition can_retry :: "'a rest_job_scheme \<Rightarrow> bool" where
  "can_retry s =
     (if m_attempt s > cfg_maxRetries (job_config s) then False
      else let streamedSomething = (spec_streamData (m_spec s) \<and> m_bodyLength s > 0)
           in \<not> streamedSomething)"

definition should_retry_status :: "int \<Rightarrow> bool" where
  "should_retry_status httpStatus \<longleftrightarrow>
     httpStatus = 429 \<or> httpStatus = 502 \<or> httpStatus = 503 \<or> httpStatus = 504"

definition backoff_base :: "int \<Rightarrow> int" where
  "backoff_base attempt =
     (let exponent = min (attempt - 1) 10
      in min kBackoffCapMs (kBackoffBaseMs * 2 ^ nat exponent))"

definition retry_delay :: "host \<Rightarrow> 'a rest_job_scheme \<Rightarrow> int" where
  "retry_delay h s =
     (let retryAfter = parse_retry_after_ms (m_responseHeaders s);
          base = backoff_base (m_attempt s);
          backoff = base + h_jitter h ((- base) sdiv 4) (base sdiv 4)
      in if retryAfter \<ge> 0 then retryAfter else backoff)"

definition schedule_retry :: "host \<Rightarrow> 'a rest_job_scheme \<Rightarrow> 'a rest_job_scheme" where
  "schedule_retry h s =
     s\<lparr>m_retryAt := h_now h + retry_delay h s * 1000000, m_waitingForRetry := True\<rparr>"

definition finalize_download :: "host \<Rightarrow> job_ctx \<Rightarrow> bool \<times> string \<times> job_ctx" where
  "finalize_download h s =
     (let (ok, fs) = rename_file h (m_partPath s) (spec_outputPath (m_spec s)) (io_files s)
      in if ok then (True, '''', s\<lparr>io_files := fs\<rparr>)
         else (False, ''rename failed: '' @ h_errno_text h, s))"

definition handle_transport_failure :: "host \<Rightarrow> curl_code \<Rightarrow> string \<Rightarrow> job_ctx \<Rightarrow> job_ctx" where
  "handle_transport_failure h code curlError s =
     (if code = CURLE_ABORTED_BY_CALLBACK then finish RestStatus_Cancelled ''cancelled'' s
      else if code = CURLE_WRITE_ERROR \<and> m_tooLarge s then
        finish RestStatus_TooLarge
          (''response body exceeds '' @ to_dec (cfg_maxBodySize (job_config s)) @ '' bytes'') s
      else if code = CURLE_WRITE_ERROR \<or> code = CURLE_READ_ERROR then
        finish RestStatus_IoError curlError s
      else if code = CURLE_SSL_CACERT_BADFILE \<or> code = CURLE_PEER_FAILED_VERIFICATION
              \<or> code = CURLE_TOO_MANY_REDIRECTS \<or> code = CURLE_URL_MALFORMAT
              \<or> code = CURLE_UNSUPPORTED_PROTOCOL then
        finish RestStatus_NetworkError curlError s
      else if can_retry s then schedule_retry h s
      else let timedOut = (code = CURLE_OPERATION_TIMEDOUT);
               status = (if timedOut then RestStatus_Timeout else RestStatus_NetworkError)
           in finish status curlError s)"

definition handle_http_failure :: "host \<Rightarrow> job_ctx \<Rightarrow> job_ctx" where
  "handle_http_failure h s =
     (if should_retry_status (m_httpStatus s) \<and> can_retry s then schedule_retry h s
      else let clientError = (m_httpStatus s \<ge> 400 \<and> m_httpStatus s < 500);
               s1 = (if m_partPath s \<noteq> [] \<and> clientError
                     then s\<lparr>io_files := unlink_file h (m_partPath s) (io_files s)\<rparr> else s)
           in finish RestStatus_HttpError (''HTTP '' @ to_dec (m_httpStatus s)) s1)"

definition handle_http_success :: "host \<Rightarrow> job_ctx \<Rightarrow> job_ctx" where
  "handle_http_success h s =
     (if spec_outputPath (m_spec s) = [] then finish RestStatus_Ok '''' (flush_stream s)
      else let (finalized, error, s1) = finalize_download h s
           in if \<not> finalized then finish RestStatus_IoError error s1
              else finish RestStatus_Ok '''' s1)"

definition on_attempt_done :: "host \<Rightarrow> curl_code \<Rightarrow> job_ctx \<Rightarrow> job_ctx" where
  "on_attempt_done h code s =
     (let s1 = capture_attempt_info h s;
          hasErrorText = (m_errorBuffer s1 \<noteq> []);
          curlError = (if hasErrorText then m_errorBuffer s1 else h_easy_strerror h code);
          s2 = release_curl (close_files s1)
      in if m_cancelRequested s2 then finish RestStatus_Cancelled ''cancelled'' s2
         else if code \<noteq> CURLE_OK then handle_transport_failure h code curlError s2
         else if is_success (m_httpStatus s2) then handle_http_success h s2
         else handle_http_failure h s2)"

text \<open>libcurl writes the text of an error into the buffer it was given.\<close>

definition store_curl_error :: "string \<Rightarrow> 'a rest_job_scheme \<Rightarrow> 'a rest_job_scheme" where
  "store_curl_error text s = s\<lparr>m_errorBuffer := c_str text\<rparr>"

section \<open>The destructor\<close>

text \<open>
  It closes the files and frees the header list, the form and the easy handle, but does not remove
  the handle from the multi handle: it must not run on an attached job.
\<close>

definition destroy_job :: "job_ctx \<Rightarrow> job_ctx" where
  "destroy_job s =
     (let s1 = close_files s;
          s2 = (if m_headerList s1 \<noteq> [] then s1\<lparr>m_headerList := []\<rparr> else s1);
          s3 = (if m_mime s2 \<noteq> None then s2\<lparr>m_mime := None\<rparr> else s2)
      in if m_easy s3 \<noteq> None then s3\<lparr>m_easy := None\<rparr> else s3)"

end
