(* ===== verification/Rest_Machine.thy ===== *)
theory Rest_Machine
  imports Rest_Lifecycle
begin

text \<open>
  A job as a state machine. The inputs are the calls its member functions get from the transfer
  thread and from libcurl; \<open>job_step\<close> is the call, \<open>job_enabled\<close> when it can happen: the transfer
  thread begins an attempt only on a new job or a waiting one (when its retry is due, see
  \<open>Rest_Thread\<close>) and cancels or credits only a job that is not finished (\<open>src/transfer_thread.cpp\<close>),
  libcurl calls back only on a handle that was added to the multi handle, delivers no body while
  paused (an empty body comes as one call without bytes, or as none), ends the transfer after a write callback that took fewer bytes than
  offered, and reports one response code for the whole body of a transfer.

  The record \<open>wire\<close> keeps the history the statements need: the response code of the body being
  delivered (\<^const>\<open>None\<close> until the first write call), the bytes the write callback has taken in this
  attempt, what the part file held before them, how many bytes the device takes from the stream they
  are written to, whether a write was cut short, whether an empty body has been announced by a
  call without bytes, and the size of the largest write. It never influences a step.
\<close>

datatype job_input =
    InBegin host
  | InHeader int string
  | InWrite host int string
  | InRead nat
  | InSeek int int
  | InProgress host int int int int
  | InErrorText string
  | InDone host curl_code
  | InConsumed int
  | InCancel

record wire =
  wr_status :: "int option"
  wr_taken :: string
  wr_base :: string
  wr_room :: nat
  wr_aborted :: bool
  wr_ended :: bool
  wr_largest :: nat

fun job_step :: "job_input \<Rightarrow> job_ctx \<Rightarrow> job_ctx" where
  "job_step (InBegin h) s = snd (begin_attempt h s)"
| "job_step (InHeader status line) s = snd (header_callback status line s)"
| "job_step (InWrite h status data) s = snd (write_callback h status data s)"
| "job_step (InRead n) s = snd (read_callback n s)"
| "job_step (InSeek offset origin) s = snd (seek_callback offset origin s)"
| "job_step (InProgress h dltotal dlnow ultotal ulnow) s =
     snd (progress_callback h dltotal dlnow ultotal ulnow s)"
| "job_step (InErrorText text) s = store_curl_error text s"
| "job_step (InDone h code) s = on_attempt_done h code s"
| "job_step (InConsumed bytes) s = snd (on_stream_consumed bytes s)"
| "job_step InCancel s = cancel s"

fun job_enabled :: "job_input \<Rightarrow> job_ctx \<Rightarrow> wire \<Rightarrow> bool" where
  "job_enabled (InBegin h) s w \<longleftrightarrow> \<not> m_finished s \<and> (m_attempt s = 0 \<or> m_waitingForRetry s)"
| "job_enabled (InHeader status line) s w \<longleftrightarrow> m_attached s"
| "job_enabled (InWrite h status data) s w \<longleftrightarrow>
     m_attached s \<and> \<not> m_paused s \<and> \<not> wr_aborted w \<and> \<not> wr_ended w
     \<and> wr_status w \<in> {None, Some status} \<and> (data = [] \<longrightarrow> wr_taken w = [])"
| "job_enabled (InRead n) s w \<longleftrightarrow> m_attached s"
| "job_enabled (InSeek offset origin) s w \<longleftrightarrow> m_attached s"
| "job_enabled (InProgress h dltotal dlnow ultotal ulnow) s w \<longleftrightarrow> m_attached s"
| "job_enabled (InErrorText text) s w \<longleftrightarrow> m_attached s"
| "job_enabled (InDone h code) s w \<longleftrightarrow>
     m_attached s \<and> wr_status w \<in> {None, Some (h_response_code h)}
     \<and> (wr_aborted w \<longrightarrow> code \<noteq> CURLE_OK) \<and> (m_paused s \<longrightarrow> code \<noteq> CURLE_OK)"
| "job_enabled (InConsumed bytes) s w \<longleftrightarrow> \<not> m_finished s \<and> m_attempt s > 0 \<and> bytes \<ge> 0"
| "job_enabled InCancel s w \<longleftrightarrow> \<not> m_finished s \<and> m_attempt s > 0"

text \<open>Whether a write call restarts the part file because the server sent the whole body. When the file
  cannot be opened again it keeps what it held.\<close>

definition restarts :: "int \<Rightarrow> job_ctx \<Rightarrow> bool" where
  "restarts status s \<longleftrightarrow>
     sink_for s status = Sink_File \<and> status = 200 \<and> m_resumeOffset s > 0 \<and> \<not> m_restartedFullBody s"

definition part_base :: "job_ctx \<Rightarrow> string" where
  "part_base s =
     (if spec_outputPath (m_spec s) \<noteq> [] \<and> spec_resume (m_spec s)
      then (case io_files s (spec_outputPath (m_spec s) @ ''.part'') of None \<Rightarrow> '''' | Some c \<Rightarrow> c)
      else '''')"

fun wire_step :: "job_input \<Rightarrow> job_ctx \<Rightarrow> wire \<Rightarrow> wire" where
  "wire_step (InBegin h) s w =
     \<lparr>wr_status = None, wr_taken = '''', wr_base = part_base s,
      wr_room = h_device_room h, wr_aborted = False, wr_ended = False, wr_largest = 0\<rparr>"
| "wire_step (InWrite h status data) s w =
     (let restarted = (restarts status s \<and> h_can_open h (m_partPath s));
          w1 = w\<lparr>wr_status := Some status, wr_base := (if restarted then '''' else wr_base w),
                  wr_room := (if restarted then h_device_room h else wr_room w),
                  wr_largest := max (wr_largest w) (length data)\<rparr>
      in case fst (write_callback h status data s) of
           Wrote n \<Rightarrow> w1\<lparr>wr_taken := wr_taken w @ take n data, wr_aborted := n < length data,
                            wr_ended := (data = [])\<rparr>
         | WritePause \<Rightarrow> w1
         | WriteNullFile \<Rightarrow> w1\<lparr>wr_aborted := True\<rparr>)"
| "wire_step _ s w = w"

definition wire_start :: wire where
  "wire_start = \<lparr>wr_status = None, wr_taken = '''', wr_base = '''', wr_room = 0,
     wr_aborted = False, wr_ended = False, wr_largest = 0\<rparr>"

definition job_start :: "request_spec \<Rightarrow> file_system \<Rightarrow> job_ctx" where
  "job_start spec fs = job_ctx_of (new_job spec) fs queue_default"

text \<open>
  A job owns its output file and the part file beside it. In \<open>job_reach spec fs s w\<close> the job of \<open>spec\<close>
  has reached state \<open>s\<close>, and \<open>fs\<close> is what the file system would be without it: between its steps the
  rest of the program and of the machine may change every other file.
\<close>

definition own_path :: "request_spec \<Rightarrow> string \<Rightarrow> bool" where
  "own_path spec p \<longleftrightarrow>
     spec_outputPath spec \<noteq> [] \<and> (p = spec_outputPath spec \<or> p = spec_outputPath spec @ ''.part'')"

inductive job_reach :: "request_spec \<Rightarrow> file_system \<Rightarrow> job_ctx \<Rightarrow> wire \<Rightarrow> bool" where
  start: "job_reach spec fs (job_start spec fs) wire_start"
| step: "job_reach spec fs s w \<Longrightarrow> job_enabled i s w \<Longrightarrow>
     job_reach spec fs (job_step i s) (wire_step i s w)"
| others: "job_reach spec fs s w \<Longrightarrow> (\<And>p. own_path spec p \<Longrightarrow> files p = io_files s p) \<Longrightarrow>
     job_reach spec (\<lambda>p. if own_path spec p then fs p else files p) (s\<lparr>io_files := files\<rparr>) w"

text \<open>A run over a list of inputs, for concrete executions.\<close>

fun job_run :: "job_input list \<Rightarrow> job_ctx \<times> wire \<Rightarrow> job_ctx \<times> wire" where
  "job_run [] (s, w) = (s, w)"
| "job_run (i # is) (s, w) = job_run is (job_step i s, wire_step i s w)"

fun job_run_enabled :: "job_input list \<Rightarrow> job_ctx \<times> wire \<Rightarrow> bool" where
  "job_run_enabled [] (s, w) \<longleftrightarrow> True"
| "job_run_enabled (i # is) (s, w) \<longleftrightarrow>
     job_enabled i s w \<and> job_run_enabled is (job_step i s, wire_step i s w)"

lemma job_run_reach:
  "job_reach spec fs s w \<Longrightarrow> job_run_enabled is (s, w) \<Longrightarrow>
     job_reach spec fs (fst (job_run is (s, w))) (snd (job_run is (s, w)))"
  by (induction "is" arbitrary: s w) (auto intro: job_reach.step)

end
