(* ===== verification/Rest_Events.thy ===== *)
theory Rest_Events
  imports Rest_Machine
begin

text \<open>
  What the operations of a job do to the events it has posted and to the rest of its state: the
  frame lemmas (collection \<open>frame_simps\<close>) and the event lemmas the invariants are built from.
\<close>

abbreviation posted :: "job_ctx \<Rightarrow> transfer_event list" where
  "posted s \<equiv> mq_events (io_queue s)"

definition is_kind :: "event_kind \<Rightarrow> transfer_event \<Rightarrow> bool" where
  "is_kind k e \<longleftrightarrow> ev_kind e = k"

definition completes :: "transfer_event list \<Rightarrow> transfer_event list" where
  "completes es = filter (is_kind Kind_Complete) es"

text \<open>The bytes of the data events, in order: what the data callback of the plugin receives.\<close>

definition data_bytes :: "transfer_event list \<Rightarrow> string" where
  "data_bytes es = concat (map ev_body (filter (is_kind Kind_Data) es))"

definition stream_bytes :: "job_ctx \<Rightarrow> string" where
  "stream_bytes s = data_bytes (posted s) @ m_streamBuffer s"

lemma completes_append [simp]: "completes (es @ fs) = completes es @ completes fs"
  by (simp add: completes_def)

lemma data_bytes_append [simp]: "data_bytes (es @ fs) = data_bytes es @ data_bytes fs"
  by (simp add: data_bytes_def)

lemma completes_single [simp]: "completes [e] = (if ev_kind e = Kind_Complete then [e] else [])"
  by (simp add: completes_def is_kind_def)

lemma data_bytes_single [simp]: "data_bytes [e] = (if ev_kind e = Kind_Data then ev_body e else [])"
  by (simp add: data_bytes_def is_kind_def)

lemma completes_Nil [simp]: "completes [] = []"
  by (simp add: completes_def)

lemma data_bytes_Nil [simp]: "data_bytes [] = []"
  by (simp add: data_bytes_def)

lemma default_event_kind [simp]: "ev_kind transfer_event_default = Kind_Complete"
  by (simp add: transfer_event_default_def)

section \<open>Frames\<close>

lemma post_event_frame [frame_simps]:
  "m_spec (post_event e s) = m_spec s" "m_attempt (post_event e s) = m_attempt s"
  "m_attached (post_event e s) = m_attached s" "m_easy (post_event e s) = m_easy s"
  "m_finished (post_event e s) = m_finished s"
  "m_waitingForRetry (post_event e s) = m_waitingForRetry s"
  "m_cancelRequested (post_event e s) = m_cancelRequested s"
  "m_bodyLength (post_event e s) = m_bodyLength s"
  "m_pendingStreamBytes (post_event e s) = m_pendingStreamBytes s"
  "m_responseBody (post_event e s) = m_responseBody s"
  "m_streamBuffer (post_event e s) = m_streamBuffer s"
  "m_partPath (post_event e s) = m_partPath s" "m_outputFile (post_event e s) = m_outputFile s"
  "m_resumeOffset (post_event e s) = m_resumeOffset s"
  "m_restartedFullBody (post_event e s) = m_restartedFullBody s"
  "m_paused (post_event e s) = m_paused s" "m_httpStatus (post_event e s) = m_httpStatus s"
  "m_tooLarge (post_event e s) = m_tooLarge s"
  "m_responseHeaders (post_event e s) = m_responseHeaders s"
  "m_retryAt (post_event e s) = m_retryAt s"
  "io_files (post_event e s) = io_files s" "mq_enabled (io_queue (post_event e s)) = mq_enabled (io_queue s)"
  by (simp_all add: post_event_def)

lemma posted_post_event:
  "posted (post_event e s) = (if mq_enabled (io_queue s) then posted s @ [e] else posted s)"
  by (simp add: post_event_def)

lemma finish_frame [frame_simps]:
  "m_spec (finish st er s) = m_spec s" "m_attempt (finish st er s) = m_attempt s"
  "m_attached (finish st er s) = m_attached s" "m_easy (finish st er s) = m_easy s"
  "m_cancelRequested (finish st er s) = m_cancelRequested s"
  "m_bodyLength (finish st er s) = m_bodyLength s"
  "m_pendingStreamBytes (finish st er s) = m_pendingStreamBytes s"
  "m_streamBuffer (finish st er s) = m_streamBuffer s"
  "m_partPath (finish st er s) = m_partPath s" "m_outputFile (finish st er s) = m_outputFile s"
  "m_resumeOffset (finish st er s) = m_resumeOffset s"
  "m_restartedFullBody (finish st er s) = m_restartedFullBody s"
  "m_paused (finish st er s) = m_paused s" "m_httpStatus (finish st er s) = m_httpStatus s"
  "m_responseHeaders (finish st er s) = m_responseHeaders s"
  "io_files (finish st er s) = io_files s" "mq_enabled (io_queue (finish st er s)) = mq_enabled (io_queue s)"
  by (simp_all add: finish_def frame_simps)

lemma finish_finished [simp]: "m_finished (finish st er s)"
  by (simp add: finish_def frame_simps)

lemma posted_finish:
  "\<not> m_finished s \<Longrightarrow> mq_enabled (io_queue s) \<Longrightarrow>
     posted (finish st er s) = posted s @ [complete_event st er s]"
  by (simp add: finish_def posted_post_event)

lemma finish_again: "m_finished s \<Longrightarrow> finish st er s = s"
  by (simp add: finish_def)

lemma complete_event_kind [simp]:
  "ev_kind (complete_event st er s) = Kind_Complete" "ev_jobId (complete_event st er s) = spec_id (m_spec s)"
  "ev_status (complete_event st er s) = st" "ev_body (complete_event st er s) = m_responseBody s"
  "ev_bodyLength (complete_event st er s) = m_bodyLength s"
  "ev_httpStatus (complete_event st er s) = m_httpStatus s" "ev_error (complete_event st er s) = er"
  "ev_headers (complete_event st er s) = m_responseHeaders s"
  by (simp_all add: complete_event_def)

lemma reset_frame [frame_simps]:
  "m_spec (reset_attempt_state s) = m_spec s" "m_attempt (reset_attempt_state s) = m_attempt s"
  "m_attached (reset_attempt_state s) = m_attached s" "m_easy (reset_attempt_state s) = m_easy s"
  "m_finished (reset_attempt_state s) = m_finished s"
  "m_cancelRequested (reset_attempt_state s) = m_cancelRequested s"
  "m_waitingForRetry (reset_attempt_state s) = False"
  "m_bodyLength (reset_attempt_state s) = 0" "m_pendingStreamBytes (reset_attempt_state s) = 0"
  "m_responseBody (reset_attempt_state s) = []" "m_streamBuffer (reset_attempt_state s) = []"
  "m_paused (reset_attempt_state s) = False" "m_restartedFullBody (reset_attempt_state s) = False"
  "m_tooLarge (reset_attempt_state s) = False" "m_httpStatus (reset_attempt_state s) = 0"
  "m_partPath (reset_attempt_state s) = m_partPath s"
  "m_outputFile (reset_attempt_state s) = m_outputFile s"
  "m_resumeOffset (reset_attempt_state s) = m_resumeOffset s"
  by (simp_all add: reset_attempt_state_def)

lemma reset_ctx_frame [frame_simps]:
  "io_files (reset_attempt_state s) = io_files s" "io_queue (reset_attempt_state s) = io_queue s"
  by (simp_all add: reset_attempt_state_def)

lemma close_files_frame [frame_simps]:
  "m_spec (close_files s) = m_spec s" "m_attempt (close_files s) = m_attempt s"
  "m_attached (close_files s) = m_attached s" "m_easy (close_files s) = m_easy s"
  "m_finished (close_files s) = m_finished s"
  "m_waitingForRetry (close_files s) = m_waitingForRetry s"
  "m_cancelRequested (close_files s) = m_cancelRequested s"
  "m_bodyLength (close_files s) = m_bodyLength s"
  "m_pendingStreamBytes (close_files s) = m_pendingStreamBytes s"
  "m_responseBody (close_files s) = m_responseBody s"
  "m_streamBuffer (close_files s) = m_streamBuffer s"
  "m_partPath (close_files s) = m_partPath s"
  "m_resumeOffset (close_files s) = m_resumeOffset s"
  "m_restartedFullBody (close_files s) = m_restartedFullBody s"
  "m_paused (close_files s) = m_paused s" "m_httpStatus (close_files s) = m_httpStatus s"
  "m_tooLarge (close_files s) = m_tooLarge s"
  "m_responseHeaders (close_files s) = m_responseHeaders s"
  "m_retryAt (close_files s) = m_retryAt s"
  "m_errorBuffer (close_files s) = m_errorBuffer s"
  by (simp_all add: close_files_def)

lemma close_files_ctx_frame [frame_simps]:
  "io_files (close_files s) = fclose_output (m_outputFile s) (io_files s)" "io_queue (close_files s) = io_queue s"
  by (simp_all add: close_files_def)

lemma release_curl_frame [frame_simps]:
  "m_spec (release_curl s) = m_spec s" "m_attempt (release_curl s) = m_attempt s"
  "m_finished (release_curl s) = m_finished s"
  "m_waitingForRetry (release_curl s) = m_waitingForRetry s"
  "m_cancelRequested (release_curl s) = m_cancelRequested s"
  "m_bodyLength (release_curl s) = m_bodyLength s"
  "m_pendingStreamBytes (release_curl s) = m_pendingStreamBytes s"
  "m_responseBody (release_curl s) = m_responseBody s"
  "m_streamBuffer (release_curl s) = m_streamBuffer s"
  "m_partPath (release_curl s) = m_partPath s"
  "m_resumeOffset (release_curl s) = m_resumeOffset s"
  "m_restartedFullBody (release_curl s) = m_restartedFullBody s"
  "m_paused (release_curl s) = m_paused s" "m_httpStatus (release_curl s) = m_httpStatus s"
  "m_tooLarge (release_curl s) = m_tooLarge s"
  "m_responseHeaders (release_curl s) = m_responseHeaders s"
  "m_retryAt (release_curl s) = m_retryAt s"
  "m_easy (release_curl s) = None"
  "m_attached (release_curl s) = (m_easy s = None \<and> m_attached s)"
  by (auto simp: release_curl_def)

lemma release_curl_ctx_frame [frame_simps]:
  "io_files (release_curl s) = io_files s" "io_queue (release_curl s) = io_queue s"
  by (simp_all add: release_curl_def)

lemma capture_frame [frame_simps]:
  "m_spec (capture_attempt_info h s) = m_spec s" "m_attempt (capture_attempt_info h s) = m_attempt s"
  "m_attached (capture_attempt_info h s) = m_attached s" "m_easy (capture_attempt_info h s) = m_easy s"
  "m_finished (capture_attempt_info h s) = m_finished s"
  "m_waitingForRetry (capture_attempt_info h s) = m_waitingForRetry s"
  "m_cancelRequested (capture_attempt_info h s) = m_cancelRequested s"
  "m_bodyLength (capture_attempt_info h s) = m_bodyLength s"
  "m_pendingStreamBytes (capture_attempt_info h s) = m_pendingStreamBytes s"
  "m_responseBody (capture_attempt_info h s) = m_responseBody s"
  "m_streamBuffer (capture_attempt_info h s) = m_streamBuffer s"
  "m_partPath (capture_attempt_info h s) = m_partPath s"
  "m_resumeOffset (capture_attempt_info h s) = m_resumeOffset s"
  "m_restartedFullBody (capture_attempt_info h s) = m_restartedFullBody s"
  "m_paused (capture_attempt_info h s) = m_paused s"
  "m_tooLarge (capture_attempt_info h s) = m_tooLarge s"
  "m_responseHeaders (capture_attempt_info h s) = m_responseHeaders s"
  "m_outputFile (capture_attempt_info h s) = m_outputFile s"
  "m_httpStatus (capture_attempt_info h s) = h_response_code h"
  by (simp_all add: capture_attempt_info_def)

lemma capture_ctx_frame [frame_simps]:
  "io_files (capture_attempt_info h s) = io_files s" "io_queue (capture_attempt_info h s) = io_queue s"
  by (simp_all add: capture_attempt_info_def)

lemma schedule_retry_frame [frame_simps]:
  "m_spec (schedule_retry h s) = m_spec s" "m_attempt (schedule_retry h s) = m_attempt s"
  "m_attached (schedule_retry h s) = m_attached s" "m_easy (schedule_retry h s) = m_easy s"
  "m_finished (schedule_retry h s) = m_finished s"
  "m_waitingForRetry (schedule_retry h s) = True"
  "m_cancelRequested (schedule_retry h s) = m_cancelRequested s"
  "m_bodyLength (schedule_retry h s) = m_bodyLength s"
  "m_pendingStreamBytes (schedule_retry h s) = m_pendingStreamBytes s"
  "m_streamBuffer (schedule_retry h s) = m_streamBuffer s"
  "m_partPath (schedule_retry h s) = m_partPath s"
  "m_paused (schedule_retry h s) = m_paused s"
  by (simp_all add: schedule_retry_def)

lemma schedule_retry_ctx_frame [frame_simps]:
  "io_files (schedule_retry h s) = io_files s" "io_queue (schedule_retry h s) = io_queue s"
  by (simp_all add: schedule_retry_def)

lemma open_upload_file_frame [frame_simps]:
  "m_spec (snd (open_upload_file h s)) = m_spec s"
  "m_attempt (snd (open_upload_file h s)) = m_attempt s"
  "m_attached (snd (open_upload_file h s)) = m_attached s"
  "m_easy (snd (open_upload_file h s)) = m_easy s"
  "m_finished (snd (open_upload_file h s)) = m_finished s"
  "m_waitingForRetry (snd (open_upload_file h s)) = m_waitingForRetry s"
  "m_cancelRequested (snd (open_upload_file h s)) = m_cancelRequested s"
  "m_bodyLength (snd (open_upload_file h s)) = m_bodyLength s"
  "m_pendingStreamBytes (snd (open_upload_file h s)) = m_pendingStreamBytes s"
  "m_responseBody (snd (open_upload_file h s)) = m_responseBody s"
  "m_streamBuffer (snd (open_upload_file h s)) = m_streamBuffer s"
  "m_restartedFullBody (snd (open_upload_file h s)) = m_restartedFullBody s"
  "m_paused (snd (open_upload_file h s)) = m_paused s"
  "io_queue (snd (open_upload_file h s)) = io_queue s"
  "io_files (snd (open_upload_file h s)) = io_files s"
  by (simp_all add: open_upload_file_def Let_def)

lemma open_output_file_frame [frame_simps]:
  "m_spec (snd (open_output_file h s)) = m_spec s"
  "m_attempt (snd (open_output_file h s)) = m_attempt s"
  "m_attached (snd (open_output_file h s)) = m_attached s"
  "m_easy (snd (open_output_file h s)) = m_easy s"
  "m_finished (snd (open_output_file h s)) = m_finished s"
  "m_waitingForRetry (snd (open_output_file h s)) = m_waitingForRetry s"
  "m_cancelRequested (snd (open_output_file h s)) = m_cancelRequested s"
  "m_bodyLength (snd (open_output_file h s)) = m_bodyLength s"
  "m_pendingStreamBytes (snd (open_output_file h s)) = m_pendingStreamBytes s"
  "m_responseBody (snd (open_output_file h s)) = m_responseBody s"
  "m_streamBuffer (snd (open_output_file h s)) = m_streamBuffer s"
  "m_restartedFullBody (snd (open_output_file h s)) = m_restartedFullBody s"
  "m_paused (snd (open_output_file h s)) = m_paused s"
  "io_queue (snd (open_output_file h s)) = io_queue s"
  by (simp_all add: open_output_file_def Let_def split: prod.splits)

lemma open_files_eq:
  "open_files h s =
     (if fst (open_upload_file h s) then open_output_file h (snd (open_upload_file h s))
      else (False, snd (open_upload_file h s)))"
  by (simp add: open_files_def split: prod.splits)

lemma open_files_frame [frame_simps]:
  "m_spec (snd (open_files h s)) = m_spec s"
  "m_attempt (snd (open_files h s)) = m_attempt s"
  "m_attached (snd (open_files h s)) = m_attached s"
  "m_easy (snd (open_files h s)) = m_easy s"
  "m_finished (snd (open_files h s)) = m_finished s"
  "m_waitingForRetry (snd (open_files h s)) = m_waitingForRetry s"
  "m_cancelRequested (snd (open_files h s)) = m_cancelRequested s"
  "m_bodyLength (snd (open_files h s)) = m_bodyLength s"
  "m_pendingStreamBytes (snd (open_files h s)) = m_pendingStreamBytes s"
  "m_responseBody (snd (open_files h s)) = m_responseBody s"
  "m_streamBuffer (snd (open_files h s)) = m_streamBuffer s"
  "m_restartedFullBody (snd (open_files h s)) = m_restartedFullBody s"
  "m_paused (snd (open_files h s)) = m_paused s"
  "io_queue (snd (open_files h s)) = io_queue s"
  by (simp_all add: open_files_eq frame_simps)


text \<open>
  Configuring a handle touches the handle, the header list and the mime structure only: what is
  left when these three are erased is the same before and after each stage.
\<close>

definition beside_handle :: "'a rest_job_scheme \<Rightarrow> 'a rest_job_scheme" where
  "beside_handle s = s\<lparr>m_easy := None, m_headerList := [], m_mime := None\<rparr>"

lemma beside_setopt: "beside_handle (setopt opt v s) = beside_handle s"
  by (simp add: beside_handle_def setopt_def)

lemma beside_setopts: "beside_handle (setopts opts s) = beside_handle s"
  by (simp add: beside_handle_def setopts_eq)

lemma beside_mime: "beside_handle (s\<lparr>m_mime := m\<rparr>) = beside_handle s"
  by (simp add: beside_handle_def)

lemma beside_build_headers: "beside_handle (build_headers s) = beside_handle s"
  by (simp add: beside_handle_def build_headers_def Let_def)

lemma beside_stages:
  "beside_handle (apply_common_options h s) = beside_handle s"
  "beside_handle (apply_auth s) = beside_handle s"
  "beside_handle (apply_method s) = beside_handle s"
  "beside_handle (apply_body s) = beside_handle s"
  by (simp_all add: apply_common_options_def apply_auth_def apply_method_def apply_body_def
      apply_multipart_def Let_def beside_setopt beside_setopts beside_mime split: body_kind.split)

lemma beside_configure: "beside_handle (configure_handle h s) = beside_handle s"
  by (simp add: configure_handle_def Let_def beside_setopt beside_stages beside_build_headers)

lemma beside_handle_fields:
  assumes "beside_handle t = beside_handle s"
  shows "m_spec t = m_spec s" "m_attempt t = m_attempt s" "m_attached t = m_attached s"
    "m_finished t = m_finished s" "m_waitingForRetry t = m_waitingForRetry s"
    "m_cancelRequested t = m_cancelRequested s" "m_bodyLength t = m_bodyLength s"
    "m_pendingStreamBytes t = m_pendingStreamBytes s" "m_responseBody t = m_responseBody s"
    "m_streamBuffer t = m_streamBuffer s" "m_partPath t = m_partPath s"
    "m_outputFile t = m_outputFile s" "m_resumeOffset t = m_resumeOffset s"
    "m_restartedFullBody t = m_restartedFullBody s" "m_paused t = m_paused s"
    "m_uploadFile t = m_uploadFile s"
  using arg_cong [OF assms, of m_spec] arg_cong [OF assms, of m_attempt]
    arg_cong [OF assms, of m_attached] arg_cong [OF assms, of m_finished]
    arg_cong [OF assms, of m_waitingForRetry] arg_cong [OF assms, of m_cancelRequested]
    arg_cong [OF assms, of m_bodyLength] arg_cong [OF assms, of m_pendingStreamBytes]
    arg_cong [OF assms, of m_responseBody] arg_cong [OF assms, of m_streamBuffer]
    arg_cong [OF assms, of m_partPath] arg_cong [OF assms, of m_outputFile]
    arg_cong [OF assms, of m_resumeOffset] arg_cong [OF assms, of m_restartedFullBody]
    arg_cong [OF assms, of m_paused] arg_cong [OF assms, of m_uploadFile]
  by (simp_all add: beside_handle_def)

lemma beside_handle_ctx_fields:
  assumes "beside_handle t = beside_handle s"
  shows "io_files t = io_files s" "io_queue t = io_queue s"
  using arg_cong [OF assms, of io_files] arg_cong [OF assms, of io_queue]
  by (simp_all add: beside_handle_def)

lemmas configure_frame [frame_simps] = beside_handle_fields [OF beside_configure]
lemmas configure_ctx_frame [frame_simps] = beside_handle_ctx_fields [OF beside_configure]

lemma configure_has [frame_simps]: "(m_easy (configure_handle h s) = None) = (m_easy s = None)"
  by (simp add: configure_handle_def Let_def frame_simps)

text \<open>The file write, without the intermediate pair.\<close>

lemma write_file_eq:
  "write_file h status data s =
     (let R = (status = 200 \<and> m_resumeOffset s > 0 \<and> \<not> m_restartedFullBody s);
          s1 = (if R then s\<lparr>m_restartedFullBody := True, m_resumeOffset := 0,
                  m_outputFile := fst (freopen_wb h (m_partPath s) (m_outputFile s) (io_files s)),
                  io_files := snd (freopen_wb h (m_partPath s) (m_outputFile s) (io_files s))\<rparr> else s)
      in if R \<and> m_outputFile s1 = None then (Wrote 0, s1)
         else case m_outputFile s1 of
                None \<Rightarrow> (WriteNullFile, s1)
              | Some f \<Rightarrow>
                  (Wrote (fst (fwrite h data f (io_files s1))),
                   s1\<lparr>io_files := snd (fwrite h data f (io_files s1)),
                      m_bodyLength := m_bodyLength s1 + int (fst (fwrite h data f (io_files s1)))\<rparr>))"
proof (cases "status = 200 \<and> m_resumeOffset s > 0 \<and> \<not> m_restartedFullBody s")
  case True
  then show ?thesis
    by (cases "fst (freopen_wb h (m_partPath s) (m_outputFile s) (io_files s))")
      (simp_all add: write_file_def Let_def split_beta)
next
  case False
  then have eq: "(status = 200 \<and> 0 < m_resumeOffset s \<and> \<not> m_restartedFullBody s) = False" by blast
  show ?thesis
    unfolding write_file_def eq
    by (cases "m_outputFile s") (simp_all add: Let_def split_beta)
qed

section \<open>Beginning an attempt, by its outcomes\<close>

text \<open>
  The state every attempt starts from, and the outcomes of \<open>BeginAttempt\<close>: it finishes the job
  with an error, or the job is attached with its files open and its handle configured.
\<close>

definition attempt_base :: "job_ctx \<Rightarrow> job_ctx" where
  "attempt_base s = reset_attempt_state (s\<lparr>m_attempt := m_attempt s + 1\<rparr>)"

lemma attempt_base_frame [frame_simps]:
  "m_spec (attempt_base s) = m_spec s" "m_attempt (attempt_base s) = m_attempt s + 1"
  "m_attached (attempt_base s) = m_attached s" "m_easy (attempt_base s) = m_easy s"
  "m_finished (attempt_base s) = m_finished s"
  "m_cancelRequested (attempt_base s) = m_cancelRequested s"
  "m_waitingForRetry (attempt_base s) = False"
  "m_bodyLength (attempt_base s) = 0" "m_pendingStreamBytes (attempt_base s) = 0"
  "m_responseBody (attempt_base s) = []" "m_streamBuffer (attempt_base s) = []"
  "m_paused (attempt_base s) = False" "m_restartedFullBody (attempt_base s) = False"
  "m_partPath (attempt_base s) = m_partPath s"
  "m_outputFile (attempt_base s) = m_outputFile s"
  "m_resumeOffset (attempt_base s) = m_resumeOffset s"
  "io_files (attempt_base s) = io_files s" "io_queue (attempt_base s) = io_queue s"
  by (simp_all add: attempt_base_def frame_simps)

lemma begin_attempt_cases:
  obtains (cancelled) "m_cancelRequested s"
      "begin_attempt h s = (False, finish RestStatus_Cancelled ''cancelled'' (attempt_base s))"
  | (no_handle) "\<not> m_cancelRequested s" "\<not> h_easy_init h"
      "begin_attempt h s =
         (False, finish RestStatus_NetworkError ''curl_easy_init failed'' ((attempt_base s)\<lparr>m_easy := None\<rparr>))"
  | (no_file) s3 where "\<not> m_cancelRequested s"
      "open_files h ((attempt_base s)\<lparr>m_easy := Some []\<rparr>) = (False, s3)"
      "begin_attempt h s = (False, finish RestStatus_IoError (h_errno_text h) s3)"
  | (not_added) s3 error where "\<not> m_cancelRequested s"
      "open_files h ((attempt_base s)\<lparr>m_easy := Some []\<rparr>) = (True, s3)" "h_multi_add h = Some error"
      "begin_attempt h s = (False, finish RestStatus_NetworkError error (configure_handle h s3))"
  | (attached) s3 where "\<not> m_cancelRequested s"
      "open_files h ((attempt_base s)\<lparr>m_easy := Some []\<rparr>) = (True, s3)" "h_multi_add h = None"
      "begin_attempt h s = (True, (configure_handle h s3)\<lparr>m_attached := True\<rparr>)"
proof -
  let ?o = "open_files h ((attempt_base s)\<lparr>m_easy := Some []\<rparr>)"
  have base: "reset_attempt_state (s\<lparr>m_attempt := m_attempt s + 1\<rparr>) = attempt_base s"
    by (simp add: attempt_base_def)
  obtain ok s3 where o: "?o = (ok, s3)" by (cases ?o)
  have cr: "m_cancelRequested (attempt_base s) = m_cancelRequested s" by (simp add: frame_simps)
  show thesis
  proof (cases "m_cancelRequested s")
    case True
    then show thesis by (intro cancelled) (simp_all add: begin_attempt_def base cr)
  next
    case False
    note nc = this
    show thesis
    proof (cases "h_easy_init h")
      case False
      with nc show thesis by (intro no_handle) (simp_all add: begin_attempt_def base cr)
    next
      case True
      then have eq: "begin_attempt h s =
          (if \<not> ok then (False, finish RestStatus_IoError (h_errno_text h) s3)
           else case h_multi_add h of
             Some error \<Rightarrow> (False, finish RestStatus_NetworkError error (configure_handle h s3))
           | None \<Rightarrow> (True, (configure_handle h s3)\<lparr>m_attached := True\<rparr>))"
        using nc o by (simp add: begin_attempt_def base cr Let_def)
      show thesis
      proof (cases ok)
        case False
        with nc o eq show thesis by (intro no_file [of s3]) simp_all
      next
        case True
        with nc o eq show thesis
          by (cases "h_multi_add h") (auto intro: attached [of s3] not_added [of s3])
      qed
    qed
  qed
qed

end
