(* ===== verification/Rest_Life.thy ===== *)
theory Rest_Life
  imports Rest_Events
begin

text \<open>
  The life-cycle invariant of a job. A job that is not new is attached to libcurl, waiting for a
  retry, or finished, and never two of these; the attempts are bounded by the configured retries;
  and the \<open>Complete\<close> event is posted exactly when the job finishes, once, as the last event.
\<close>

definition life_inv :: "job_ctx \<Rightarrow> bool" where
  "life_inv s \<longleftrightarrow>
     (m_waitingForRetry s \<longrightarrow> \<not> m_finished s \<and> \<not> m_attached s \<and> m_easy s = None
        \<and> m_attempt s \<le> cfg_maxRetries (job_config s)) \<and>
     (m_attached s \<longrightarrow> m_easy s \<noteq> None \<and> \<not> m_finished s) \<and>
     (m_cancelRequested s \<longrightarrow> m_finished s) \<and>
     0 \<le> m_attempt s \<and>
     (m_attempt s = 0 \<longrightarrow> \<not> m_finished s \<and> \<not> m_attached s \<and> \<not> m_waitingForRetry s) \<and>
     (m_attempt s > 0 \<longrightarrow> m_finished s \<or> m_attached s \<or> m_waitingForRetry s) \<and>
     m_attempt s \<le> max 1 (cfg_maxRetries (job_config s) + 1)"

lemma life_phases:
  assumes "life_inv s"
  shows "(m_attempt s = 0 \<and> \<not> m_attached s \<and> \<not> m_waitingForRetry s \<and> \<not> m_finished s) \<or>
    (m_attempt s > 0 \<and> m_attached s \<and> \<not> m_waitingForRetry s \<and> \<not> m_finished s) \<or>
    (m_attempt s > 0 \<and> \<not> m_attached s \<and> m_waitingForRetry s \<and> \<not> m_finished s) \<or>
    (m_attempt s > 0 \<and> \<not> m_attached s \<and> \<not> m_waitingForRetry s \<and> m_finished s)"
proof (cases "m_attempt s = 0")
  case True
  with assms show ?thesis by (simp add: life_inv_def)
next
  case False
  with assms have "m_attempt s > 0" by (simp add: life_inv_def)
  with assms show ?thesis unfolding life_inv_def by blast
qed

definition event_inv :: "job_ctx \<Rightarrow> bool" where
  "event_inv s \<longleftrightarrow>
     mq_enabled (io_queue s) \<and>
     (\<forall>e \<in> set (posted s). ev_jobId e = spec_id (m_spec s)) \<and>
     (if m_finished s then \<exists>es e. posted s = es @ [e] \<and> ev_kind e = Kind_Complete \<and> completes es = []
      else completes (posted s) = [])"

text \<open>What the other fields may change without touching the life cycle.\<close>

definition same_life :: "job_ctx \<Rightarrow> job_ctx \<Rightarrow> bool" where
  "same_life s t \<longleftrightarrow>
     m_waitingForRetry t = m_waitingForRetry s \<and> m_finished t = m_finished s \<and>
     m_attached t = m_attached s \<and> (m_easy t = None) = (m_easy s = None) \<and>
     m_attempt t = m_attempt s \<and> m_cancelRequested t = m_cancelRequested s \<and>
     m_spec t = m_spec s \<and> mq_enabled (io_queue t) = mq_enabled (io_queue s)"

lemma same_life_inv: "same_life s t \<Longrightarrow> life_inv s \<Longrightarrow> life_inv t"
  by (auto simp: same_life_def life_inv_def)

lemma event_inv_quiet:
  "same_life s t \<Longrightarrow> posted t = posted s \<Longrightarrow> event_inv s \<Longrightarrow> event_inv t"
  by (auto simp: same_life_def event_inv_def)

lemma event_inv_post:
  assumes "same_life s t" and "posted t = posted s @ [e]" and "ev_kind e \<noteq> Kind_Complete"
    and "ev_jobId e = spec_id (m_spec s)" and "event_inv s" and "\<not> m_finished s"
  shows "event_inv t"
  using assms by (auto simp: same_life_def event_inv_def)

section \<open>Each call keeps the invariant\<close>

lemma life_inv_finish:
  assumes "\<not> m_finished s" and "\<not> m_attached s" and "0 < m_attempt s"
    and "m_attempt s \<le> max 1 (cfg_maxRetries (job_config s) + 1)"
  shows "life_inv (finish st er s)"
proof -
  have "\<not> m_waitingForRetry (finish st er s)" using assms(1) by (simp add: finish_def frame_simps)
  with assms show ?thesis by (simp add: life_inv_def frame_simps)
qed

lemma event_inv_finish:
  "event_inv s \<Longrightarrow> event_inv (finish st er s)"
proof (cases "m_finished s")
  case True
  assume "event_inv s"
  with True show ?thesis by (simp add: finish_again)
next
  case False
  assume inv: "event_inv s"
  with False have "posted (finish st er s) = posted s @ [complete_event st er s]"
    by (simp add: posted_finish event_inv_def)
  with inv False show ?thesis by (auto simp: event_inv_def frame_simps)
qed

text \<open>The quiet callbacks: nothing of the life cycle changes.\<close>

lemma same_life_header: "same_life s (on_header_line status line s)"
  by (auto simp: same_life_def on_header_line_def on_headers_complete_def Let_def frame_simps
      split: option.splits)

lemma same_life_flush: "same_life s (flush_stream s)"
  by (auto simp: same_life_def flush_stream_def frame_simps)

lemma same_life_trans: "same_life s t \<Longrightarrow> same_life t u \<Longrightarrow> same_life s u"
  by (simp add: same_life_def)

lemma same_life_write_memory: "same_life s (snd (write_memory data s))"
  by (simp add: same_life_def write_memory_def Let_def)

lemma same_life_write_file: "same_life s (snd (write_file h status data s))"
  by (simp add: same_life_def write_file_eq Let_def split: option.split)

lemma same_life_write_stream: "same_life s (snd (write_stream data s))"
  by (simp add: same_life_def write_stream_def flush_stream_def Let_def frame_simps)

lemma same_life_write: "same_life s (snd (write_callback h status data s))"
  by (simp add: write_callback_def same_life_write_memory same_life_write_file same_life_write_stream
      split: sink.split)

lemma same_life_read: "same_life s (snd (read_callback n s))"
  by (auto simp: same_life_def read_callback_def split: option.splits prod.splits)

lemma same_life_seek: "same_life s (snd (seek_callback off origin s))"
  by (auto simp: same_life_def seek_callback_def split: option.splits)

lemma same_life_progress: "same_life s (snd (progress_callback h a b c d s))"
  by (auto simp: same_life_def progress_callback_def post_progress_def Let_def frame_simps)

lemma same_life_error: "same_life s (store_curl_error text s)"
  by (simp add: same_life_def store_curl_error_def)

lemma same_life_consumed: "same_life s (snd (on_stream_consumed bytes s))"
  by (simp add: same_life_def on_stream_consumed_def Let_def)

lemmas same_life_quiet = same_life_header same_life_write same_life_read same_life_seek
  same_life_progress same_life_error same_life_consumed

text \<open>Which events the quiet callbacks post: at most one, of this job, never a \<open>Complete\<close>.\<close>

definition posts_quietly :: "job_ctx \<Rightarrow> job_ctx \<Rightarrow> bool" where
  "posts_quietly s t \<longleftrightarrow>
     posted t = posted s \<or>
     (\<exists>e. posted t = posted s @ [e] \<and> ev_kind e \<noteq> Kind_Complete \<and> ev_jobId e = spec_id (m_spec s))"

lemma quiet_post_event:
  "ev_kind e \<noteq> Kind_Complete \<Longrightarrow> ev_jobId e = spec_id (m_spec s) \<Longrightarrow> posted t = posted s \<Longrightarrow>
     posts_quietly s (post_event e t)"
  by (auto simp: posts_quietly_def posted_post_event)

lemma quiet_header: "posts_quietly s (on_header_line status line s)"
  by (auto simp: on_header_line_def on_headers_complete_def Let_def quiet_post_event
      posts_quietly_def [of s s] split: option.splits) (simp_all add: posts_quietly_def)

lemma quiet_flush: "posted t = posted s \<Longrightarrow> m_spec t = m_spec s \<Longrightarrow> posts_quietly s (flush_stream t)"
  by (auto simp: flush_stream_def quiet_post_event) (simp add: posts_quietly_def)

lemma quiet_write: "posts_quietly s (snd (write_callback h status data s))"
proof (cases "sink_for s status")
  case Sink_Stream
  show ?thesis
  proof (cases "m_pendingStreamBytes s \<ge> kStreamHighWater")
    case True
    with Sink_Stream show ?thesis by (simp add: write_callback_def write_stream_def posts_quietly_def)
  next
    case False
    with Sink_Stream show ?thesis
      by (auto simp: write_callback_def write_stream_def Let_def quiet_flush) (simp add: posts_quietly_def)
  qed
qed (simp_all add: write_callback_def write_memory_def write_file_eq posts_quietly_def Let_def
    split: option.split)

lemma quiet_progress: "posts_quietly s (snd (progress_callback h a b c d s))"
  by (auto simp: progress_callback_def post_progress_def Let_def quiet_post_event)
    (simp_all add: posts_quietly_def)

lemma quiet_silent:
  "posts_quietly s (snd (read_callback n s))" "posts_quietly s (snd (seek_callback off origin s))"
  "posts_quietly s (store_curl_error text s)" "posts_quietly s (snd (on_stream_consumed bytes s))"
  by (auto simp: posts_quietly_def read_callback_def seek_callback_def store_curl_error_def
      on_stream_consumed_def Let_def split: option.splits prod.splits)

lemma event_inv_posts:
  "same_life s t \<Longrightarrow> posts_quietly s t \<Longrightarrow> event_inv s \<Longrightarrow> \<not> m_finished s \<Longrightarrow> event_inv t"
  unfolding posts_quietly_def by (elim disjE exE) (auto intro: event_inv_quiet event_inv_post)


section \<open>Beginning, ending and cancelling\<close>

text \<open>
  What \<open>event_inv\<close> looks at; two states that agree on it are the same to the invariant.
\<close>

lemma event_inv_cong:
  assumes "m_spec t = m_spec s" "m_finished t = m_finished s" "io_queue t = io_queue s"
  shows "event_inv t = event_inv s"
  by (simp only: event_inv_def assms)

lemma event_inv_finish_from:
  assumes "event_inv s" "m_spec t = m_spec s" "m_finished t = m_finished s" "io_queue t = io_queue s"
  shows "event_inv (finish st er t)"
  using assms(1) event_inv_cong [OF assms(2-4)] by (simp only: event_inv_finish)

lemma begin_keeps:
  assumes life: "life_inv s" and ev: "event_inv s" and en: "job_enabled (InBegin h) s w"
  shows "life_inv (snd (begin_attempt h s)) \<and> event_inv (snd (begin_attempt h s))"
proof -
  from en have nf: "\<not> m_finished s" and fresh: "m_attempt s = 0 \<or> m_waitingForRetry s"
    by (auto simp: is_retry_due_def)
  from life nf fresh have na: "\<not> m_attached s" "\<not> m_cancelRequested s" and
      at: "0 < m_attempt s + 1" "m_attempt s + 1 \<le> max 1 (cfg_maxRetries (job_config s) + 1)"
    by (auto simp: life_inv_def)
  let ?s2 = "(attempt_base s)\<lparr>m_easy := Some []\<rparr>"
  have o: "m_spec s3 = m_spec s" "m_finished s3 = m_finished s" "m_attempt s3 = m_attempt s + 1"
      "m_attached s3 = m_attached s" "io_queue s3 = io_queue s" "m_easy s3 = Some []"
      "m_waitingForRetry s3 = False" "m_cancelRequested s3 = m_cancelRequested s"
    if "open_files h ?s2 = (ok, s3)" for ok s3
    using open_files_frame [of h ?s2] that by (simp_all add: frame_simps)
  show ?thesis
  proof (cases rule: begin_attempt_cases [of s h])
    case cancelled
    with na show ?thesis by simp
  next
    case no_handle
    then show ?thesis using nf na at ev
      by (auto intro!: life_inv_finish event_inv_finish_from simp: frame_simps)
  next
    case (no_file s3)
    then show ?thesis using nf na at ev o [OF no_file(2)]
      by (auto intro!: life_inv_finish event_inv_finish_from)
  next
    case (not_added s3 error)
    then show ?thesis using nf na at ev o [OF not_added(2)]
      by (auto intro!: life_inv_finish event_inv_finish_from simp: frame_simps)
  next
    case (attached s3)
    let ?t = "(configure_handle h s3)\<lparr>m_attached := True\<rparr>"
    note o3 = o [OF attached(2)]
    have "life_inv ?t" using nf na at o3
      by (auto simp: life_inv_def frame_simps)
    moreover have "event_inv ?t" using ev
      by (rule event_inv_cong [THEN iffD2, rotated -1]) (simp_all add: o3 frame_simps)
    ultimately show ?thesis using attached(4) by simp
  qed
qed

text \<open>The state in which an attempt's result is judged: detached, its files closed.\<close>

definition done_base :: "host \<Rightarrow> job_ctx \<Rightarrow> job_ctx" where
  "done_base h s = release_curl (close_files (capture_attempt_info h s))"

definition error_text :: "host \<Rightarrow> curl_code \<Rightarrow> job_ctx \<Rightarrow> string" where
  "error_text h code s = (if m_errorBuffer s \<noteq> [] then m_errorBuffer s else h_easy_strerror h code)"

lemma done_base_frame [frame_simps]:
  "m_spec (done_base h s) = m_spec s" "m_attempt (done_base h s) = m_attempt s"
  "m_finished (done_base h s) = m_finished s"
  "m_waitingForRetry (done_base h s) = m_waitingForRetry s"
  "m_cancelRequested (done_base h s) = m_cancelRequested s"
  "m_bodyLength (done_base h s) = m_bodyLength s"
  "m_pendingStreamBytes (done_base h s) = m_pendingStreamBytes s"
  "m_responseBody (done_base h s) = m_responseBody s"
  "m_streamBuffer (done_base h s) = m_streamBuffer s"
  "m_partPath (done_base h s) = m_partPath s"
  "m_httpStatus (done_base h s) = h_response_code h"
  "m_tooLarge (done_base h s) = m_tooLarge s" "m_easy (done_base h s) = None"
  "m_responseHeaders (done_base h s) = m_responseHeaders s"
  "io_files (done_base h s) = fclose_output (m_outputFile s) (io_files s)" "io_queue (done_base h s) = io_queue s"
  "m_attached (done_base h s) = (m_easy s = None \<and> m_attached s)"
  by (simp_all add: done_base_def frame_simps)

lemma on_attempt_done_eq:
  "on_attempt_done h code s =
     (let t = done_base h s
      in if m_cancelRequested s then finish RestStatus_Cancelled ''cancelled'' t
         else if code \<noteq> CURLE_OK then handle_transport_failure h code (error_text h code s) t
         else if is_success (h_response_code h) then handle_http_success h t
         else handle_http_failure h t)"
proof -
  have "m_errorBuffer (capture_attempt_info h s) = m_errorBuffer s"
    by (simp add: capture_attempt_info_def)
  then show ?thesis
    by (simp add: on_attempt_done_def done_base_def error_text_def Let_def frame_simps)
qed

definition judged :: "job_ctx \<Rightarrow> bool" where
  "judged t \<longleftrightarrow> \<not> m_finished t \<and> \<not> m_attached t \<and> m_easy t = None \<and> 0 < m_attempt t \<and>
     m_attempt t \<le> max 1 (cfg_maxRetries (job_config t) + 1) \<and> \<not> m_cancelRequested t"

lemma judged_done_base: "life_inv s \<Longrightarrow> m_attached s \<Longrightarrow> judged (done_base h s)"
  by (auto simp: judged_def life_inv_def frame_simps)

lemma judged_finish: "judged t \<Longrightarrow> life_inv (finish st er t)"
  by (auto simp: judged_def intro: life_inv_finish)

lemma judged_retry: "judged t \<Longrightarrow> can_retry t \<Longrightarrow> life_inv (schedule_retry h t)"
  by (auto simp: judged_def life_inv_def can_retry_def frame_simps split: if_splits)

lemma event_inv_retry: "event_inv t \<Longrightarrow> event_inv (schedule_retry h t)"
  by (simp add: event_inv_def frame_simps)

lemma transport_keeps:
  "judged t \<Longrightarrow> event_inv t \<Longrightarrow>
     life_inv (handle_transport_failure h code txt t) \<and> event_inv (handle_transport_failure h code txt t)"
  by (simp add: handle_transport_failure_def Let_def judged_finish judged_retry event_inv_finish
      event_inv_retry)

lemma judged_cong:
  "judged s \<Longrightarrow> m_spec t = m_spec s \<Longrightarrow> m_finished t = m_finished s \<Longrightarrow> m_attached t = m_attached s \<Longrightarrow>
     m_easy t = m_easy s \<Longrightarrow> m_attempt t = m_attempt s \<Longrightarrow> m_cancelRequested t = m_cancelRequested s \<Longrightarrow>
     judged t"
  by (simp add: judged_def)

lemma http_failure_keeps:
  assumes "judged t" "event_inv t"
  shows "life_inv (handle_http_failure h t) \<and> event_inv (handle_http_failure h t)"
proof -
  have "judged (t\<lparr>io_files := fs\<rparr>)" for fs using assms(1) by (simp add: judged_def)
  moreover have "event_inv (t\<lparr>io_files := fs\<rparr>)" for fs using assms(2) by (simp add: event_inv_def)
  ultimately show ?thesis using assms
    by (simp add: handle_http_failure_def Let_def judged_finish judged_retry event_inv_finish event_inv_retry)
qed

lemma judged_flush: "judged t \<Longrightarrow> judged (flush_stream t)"
  by (simp add: judged_def flush_stream_def frame_simps)

lemma event_inv_flush: "event_inv t \<Longrightarrow> \<not> m_finished t \<Longrightarrow> event_inv (flush_stream t)"
  by (rule event_inv_posts [OF same_life_flush quiet_flush]) auto

lemma http_success_keeps:
  assumes "judged t" "event_inv t"
  shows "life_inv (handle_http_success h t) \<and> event_inv (handle_http_success h t)"
proof -
  have nf: "\<not> m_finished t" using assms(1) by (simp add: judged_def)
  have j: "judged (t\<lparr>io_files := fs\<rparr>)" "event_inv (t\<lparr>io_files := fs\<rparr>)" for fs
    using assms by (simp_all add: judged_def event_inv_def)
  obtain ok fs where r: "rename_file h (m_partPath t) (spec_outputPath (m_spec t)) (io_files t) = (ok, fs)"
    by (cases "rename_file h (m_partPath t) (spec_outputPath (m_spec t)) (io_files t)")
  show ?thesis using assms nf j r
    by (simp add: handle_http_success_def finalize_download_def Let_def judged_finish event_inv_finish
        judged_flush event_inv_flush)
qed

lemma done_keeps:
  assumes life: "life_inv s" and ev: "event_inv s" and en: "job_enabled (InDone h code) s w"
  shows "life_inv (on_attempt_done h code s) \<and> event_inv (on_attempt_done h code s)"
proof -
  have j: "judged (done_base h s)" using life en by (simp add: judged_done_base)
  have e: "event_inv (done_base h s)" using ev
    by (rule event_inv_cong [THEN iffD2, rotated -1]) (simp_all add: frame_simps)
  from j have "\<not> m_cancelRequested s" by (simp add: judged_def frame_simps)
  with j e show ?thesis
    by (simp add: on_attempt_done_eq Let_def transport_keeps http_success_keeps http_failure_keeps)
qed

lemma cancel_keeps:
  assumes life: "life_inv s" and ev: "event_inv s" and en: "job_enabled InCancel s w"
  shows "life_inv (cancel s) \<and> event_inv (cancel s)"
proof -
  have a: "m_attached s \<longrightarrow> m_easy s \<noteq> None" "0 < m_attempt s" "\<not> m_finished s"
      "m_attempt s \<le> max 1 (cfg_maxRetries (job_config s) + 1)"
    using life en by (auto simp: life_inv_def)
  then have "life_inv (cancel s)"
    unfolding cancel_def by (intro life_inv_finish) (auto simp: frame_simps close_files_def)
  moreover have "event_inv (cancel s)"
    unfolding cancel_def using ev by (rule event_inv_finish_from) (simp_all add: frame_simps close_files_def)
  ultimately show ?thesis by blast
qed

section \<open>The invariant of every reachable state\<close>

lemma life_inv_start: "life_inv (job_start spec fs)"
  by (simp add: job_start_def job_ctx_of_def new_job_def life_inv_def rest_job.extend_def)

lemma event_inv_start: "event_inv (job_start spec fs)"
  by (simp add: job_start_def job_ctx_of_def new_job_def event_inv_def rest_job.extend_def queue_default_def)

lemma quiet_keeps:
  "same_life s t \<Longrightarrow> posts_quietly s t \<Longrightarrow> life_inv s \<Longrightarrow> event_inv s \<Longrightarrow> \<not> m_finished s \<Longrightarrow>
     life_inv t \<and> event_inv t"
  by (blast intro: same_life_inv event_inv_posts)

lemma attached_not_finished: "life_inv s \<Longrightarrow> m_attached s \<Longrightarrow> \<not> m_finished s"
  by (simp add: life_inv_def)

lemma step_keeps:
  assumes life: "life_inv s" and ev: "event_inv s" and en: "job_enabled i s w"
  shows "life_inv (job_step i s) \<and> event_inv (job_step i s)"
proof (cases i)
  case (InBegin h)
  with assms show ?thesis using begin_keeps by simp
next
  case (InDone h code)
  with assms show ?thesis using done_keeps by simp
next
  case InCancel
  with assms show ?thesis using cancel_keeps by simp
qed (use assms attached_not_finished in \<open>auto simp: quiet_keeps [OF _ _ life ev] same_life_quiet
      quiet_header quiet_write quiet_progress quiet_silent\<close>)

lemma reach_inv: "job_reach spec fs s w \<Longrightarrow> life_inv s \<and> event_inv s"
proof (induction rule: job_reach.induct)
  case (start spec fs)
  show ?case by (simp add: life_inv_start event_inv_start)
next
  case (step spec fs s w i)
  then show ?case by (blast intro: step_keeps [THEN conjunct1] step_keeps [THEN conjunct2])
next
  case (others spec fs s w files)
  then show ?case by (simp add: life_inv_def event_inv_def)
qed

lemma step_spec: "m_spec (job_step i s) = m_spec s"
proof (cases i)
  case (InBegin h)
  show ?thesis unfolding InBegin
  proof (cases rule: begin_attempt_cases [of s h])
    case (no_file s3)
    then show "m_spec (job_step (InBegin h) s) = m_spec s"
      using open_files_frame(1) [of h "(attempt_base s)\<lparr>m_easy := Some []\<rparr>"] by (simp add: frame_simps)
  next
    case (not_added s3 error)
    then show "m_spec (job_step (InBegin h) s) = m_spec s"
      using open_files_frame(1) [of h "(attempt_base s)\<lparr>m_easy := Some []\<rparr>"] by (simp add: frame_simps)
  next
    case (attached s3)
    then show "m_spec (job_step (InBegin h) s) = m_spec s"
      using open_files_frame(1) [of h "(attempt_base s)\<lparr>m_easy := Some []\<rparr>"] by (simp add: frame_simps)
  qed (simp_all add: frame_simps)
next
  case (InDone h code)
  show ?thesis unfolding InDone
    by (simp add: on_attempt_done_eq Let_def handle_transport_failure_def handle_http_failure_def
        handle_http_success_def finalize_download_def flush_stream_def frame_simps split: prod.split)
next
  case InCancel
  then show ?thesis by (simp add: cancel_def frame_simps close_files_def)
qed (use same_life_quiet in \<open>auto simp: same_life_def\<close>)

lemma reach_spec: "job_reach spec fs s w \<Longrightarrow> m_spec s = spec"
  by (induction rule: job_reach.induct)
    (simp_all add: step_spec job_start_def job_ctx_of_def new_job_def rest_job.extend_def)

end
