(* ===== verification/Rest_Delivery.thy ===== *)
theory Rest_Delivery
  imports Rest_Life
begin

text \<open>
  Where the response body goes. During an attempt the bytes libcurl handed over (\<open>wr_taken\<close>) are in
  exactly one place, chosen by the response code and the request: the memory body, the part file
  after what it held before (\<open>wr_base\<close>), or the chunks posted to the main thread plus the chunk
  being filled. From this: what a \<open>Complete\<close> event with status \<open>Ok\<close> reports is what was received.
\<close>

definition body_ok :: "sink \<Rightarrow> job_ctx \<Rightarrow> wire \<Rightarrow> bool" where
  "body_ok k s w \<longleftrightarrow>
     m_bodyLength s = int (length (wr_taken w)) \<and>
     m_responseBody s = (if k = Sink_Memory then take (memory_cap s) (wr_taken w) else []) \<and>
     stream_bytes s = (if k = Sink_Stream then wr_taken w else []) \<and>
     (k = Sink_Memory \<and> spec_outputPath (m_spec s) = [] \<and> \<not> spec_streamData (m_spec s) \<longrightarrow>
        length (wr_taken w) \<le> memory_cap s)"

definition att_inv :: "job_ctx \<Rightarrow> wire \<Rightarrow> bool" where
  "att_inv s w \<longleftrightarrow>
     (wr_status w = None \<longrightarrow> wr_taken w = []) \<and>
     (\<forall>st. wr_status w \<in> {None, Some st} \<longrightarrow> body_ok (sink_for s st) s w)"

definition part_name :: "request_spec \<Rightarrow> string" where
  "part_name spec = spec_outputPath spec @ ''.part''"

definition part_bytes :: "wire \<Rightarrow> string" where
  "part_bytes w =
     (case wr_status w of None \<Rightarrow> [] | Some st \<Rightarrow> if is_success st then wr_taken w else [])"

definition part_inv :: "job_ctx \<Rightarrow> wire \<Rightarrow> bool" where
  "part_inv s w \<longleftrightarrow>
     (spec_outputPath (m_spec s) \<noteq> [] \<longrightarrow>
        m_partPath s = part_name (m_spec s) \<and>
        (m_outputFile s = None \<longrightarrow> wr_aborted w \<or>
           wr_ended w \<and> wr_taken w = [] \<and> io_files s (m_partPath s) = Some (wr_base w)) \<and>
        (\<forall>f. m_outputFile s = Some f \<longrightarrow> fh_path f = m_partPath s \<and>
           fh_limit f = length (wr_base w) + wr_room w \<and>
           io_files s (m_partPath s) = Some (wr_base w @ part_bytes w) \<and>
           (m_restartedFullBody s \<or> m_resumeOffset s \<le> 0 \<longrightarrow> wr_base w = [])) \<and>
        (wr_status w = Some 200 \<longrightarrow> m_restartedFullBody s \<or> m_resumeOffset s \<le> 0) \<and>
        (wr_base w \<noteq> [] \<longrightarrow> spec_resume (m_spec s)))"

text \<open>What a job that finished with status \<open>Ok\<close> has delivered.\<close>

definition ok_delivered :: "job_ctx \<Rightarrow> wire \<Rightarrow> bool" where
  "ok_delivered s w \<longleftrightarrow>
     ev_bodyLength (last (posted s)) = int (length (wr_taken w)) \<and>
     is_success (ev_httpStatus (last (posted s))) \<and> \<not> wr_aborted w \<and>
     (if spec_outputPath (m_spec s) \<noteq> []
      then io_files s (spec_outputPath (m_spec s)) = Some (wr_base w @ take (wr_room w) (wr_taken w)) \<and>
           io_files s (part_name (m_spec s)) = None \<and>
           (wr_base w \<noteq> [] \<longrightarrow> spec_resume (m_spec s) \<and>
              (ev_httpStatus (last (posted s)) = 200 \<longrightarrow> wr_taken w = []))
      else if spec_streamData (m_spec s) then data_bytes (posted s) = wr_taken w
      else ev_body (last (posted s)) = wr_taken w \<and> length (wr_taken w) \<le> memory_cap s)"

text \<open>
  The invariant: of an attached job, of a job about to begin (which has delivered nothing), and of
  a job that finished well.
\<close>

definition delivery_inv :: "job_ctx \<Rightarrow> wire \<Rightarrow> bool" where
  "delivery_inv s w \<longleftrightarrow>
     (m_attached s \<longrightarrow> att_inv s w \<and> part_inv s w) \<and>
     (\<not> m_attached s \<and> \<not> m_finished s \<longrightarrow> data_bytes (posted s) = []) \<and>
     (m_finished s \<and> ev_status (last (posted s)) = RestStatus_Ok \<longrightarrow> ok_delivered s w)"

section \<open>Callbacks that leave the body alone\<close>

definition same_body :: "job_ctx \<Rightarrow> job_ctx \<Rightarrow> bool" where
  "same_body s t \<longleftrightarrow>
     m_bodyLength t = m_bodyLength s \<and> m_responseBody t = m_responseBody s \<and>
     data_bytes (posted t) = data_bytes (posted s) \<and> m_streamBuffer t = m_streamBuffer s \<and>
     m_partPath t = m_partPath s \<and> m_outputFile t = m_outputFile s \<and>
     m_restartedFullBody t = m_restartedFullBody s \<and> m_resumeOffset t = m_resumeOffset s \<and>
     io_files t = io_files s"

lemma sink_for_spec: "m_spec t = m_spec s \<Longrightarrow> sink_for t st = sink_for s st"
  by (simp add: sink_for_def)

lemma memory_cap_spec: "m_spec t = m_spec s \<Longrightarrow> memory_cap t = memory_cap s"
  by (simp add: memory_cap_def)

lemma same_body_delivery:
  assumes "same_body s t" and "same_life s t" and "delivery_inv s w" and "\<not> m_finished s"
  shows "delivery_inv t w"
proof -
  have spec: "m_spec t = m_spec s" using assms(2) by (simp add: same_life_def)
  have "att_inv t w = att_inv s w"
    using assms(1) by (simp add: att_inv_def body_ok_def stream_bytes_def same_body_def spec
        sink_for_spec [OF spec] memory_cap_spec [OF spec])
  moreover have "part_inv t w = part_inv s w"
    using assms(1) by (simp add: part_inv_def same_body_def spec)
  ultimately show ?thesis
    using assms by (simp add: delivery_inv_def same_body_def same_life_def)
qed

lemma same_body_header: "mq_enabled (io_queue s) \<Longrightarrow> same_body s (on_header_line status line s)"
  by (simp add: same_body_def on_header_line_def on_headers_complete_def Let_def frame_simps
      posted_post_event split: option.split)

lemma same_body_progress: "mq_enabled (io_queue s) \<Longrightarrow> same_body s (snd (progress_callback h a b c d s))"
  by (simp add: same_body_def progress_callback_def post_progress_def Let_def frame_simps posted_post_event)

lemma same_body_read: "same_body s (snd (read_callback n s))"
  by (simp add: same_body_def read_callback_def split_beta split: option.split)

lemma same_body_seek: "same_body s (snd (seek_callback off origin s))"
  by (simp add: same_body_def seek_callback_def split: option.split)

lemma same_body_error: "same_body s (store_curl_error text s)"
  by (simp add: same_body_def store_curl_error_def)

lemma same_body_consumed: "same_body s (snd (on_stream_consumed bytes s))"
  by (simp add: same_body_def on_stream_consumed_def Let_def)

section \<open>The write callback\<close>

lemma write_memory_body:
  assumes "body_ok Sink_Memory s w" and "write_memory data s = (r, t)"
  shows "\<exists>n. r = Wrote n \<and> n \<le> length data \<and> body_ok Sink_Memory t (w\<lparr>wr_taken := wr_taken w @ take n data\<rparr>)"
proof -
  let ?cap = "memory_cap s" and ?T = "wr_taken w"
  let ?room = "if ?cap > length (m_responseBody s) then ?cap - length (m_responseBody s) else 0"
  define primary where "primary = (spec_outputPath (m_spec s) = [] \<and> \<not> spec_streamData (m_spec s))"
  have body: "m_responseBody s = take ?cap ?T" and len: "m_bodyLength s = int (length ?T)"
    and str: "stream_bytes s = []" and le: "primary \<Longrightarrow> length ?T \<le> ?cap"
    using assms(1) by (simp_all add: body_ok_def primary_def)
  show ?thesis
  proof (cases "length data > ?room \<and> primary")
    case True
    then have "write_memory data s = (Wrote 0, s\<lparr>m_tooLarge := True\<rparr>)"
      by (simp add: write_memory_def Let_def primary_def)
    then have "r = Wrote 0" and "t = s\<lparr>m_tooLarge := True\<rparr>" using assms(2) by simp_all
    moreover have "body_ok Sink_Memory (s\<lparr>m_tooLarge := True\<rparr>) w"
      using assms(1) by (simp add: body_ok_def stream_bytes_def memory_cap_def)
    ultimately show ?thesis by (intro exI [of _ 0]) simp
  next
    case False
    let ?t = "s\<lparr>m_responseBody := m_responseBody s @ take (min (length data) ?room) data,
                m_bodyLength := m_bodyLength s + int (length data)\<rparr>"
    from False have c: "(?room < length data \<and> spec_outputPath (m_spec s) = [] \<and>
        \<not> spec_streamData (m_spec s)) = False" by (simp only: primary_def simp_thms)
    have "write_memory data s = (Wrote (length data), ?t)"
      unfolding write_memory_def Let_def c if_False ..
    then have r: "r = Wrote (length data)" and t: "t = ?t" using assms(2) by simp_all
    have "m_responseBody s @ take (min (length data) ?room) data = take ?cap (?T @ data)"
    proof (cases "length ?T < ?cap")
      case True
      then show ?thesis using body by (simp add: min_def)
    next
      case False
      then show ?thesis using body by simp
    qed
    moreover have "length (?T @ data) \<le> ?cap" if primary
      using False le [OF that] that body by (auto split: if_splits)
    ultimately have "body_ok Sink_Memory ?t (w\<lparr>wr_taken := ?T @ data\<rparr>)"
      using str len by (simp add: body_ok_def stream_bytes_def memory_cap_def primary_def)
    with r t show ?thesis by (intro exI [of _ "length data"]) simp
  qed
qed

lemma stream_bytes_flush:
  "mq_enabled (io_queue s) \<Longrightarrow> stream_bytes (flush_stream s) = stream_bytes s"
  by (simp add: stream_bytes_def flush_stream_def frame_simps posted_post_event)

lemma flush_frame [frame_simps]:
  "m_spec (flush_stream s) = m_spec s" "m_bodyLength (flush_stream s) = m_bodyLength s"
  "m_responseBody (flush_stream s) = m_responseBody s" "m_streamBuffer (flush_stream s) = []"
  "m_partPath (flush_stream s) = m_partPath s" "m_outputFile (flush_stream s) = m_outputFile s"
  "m_restartedFullBody (flush_stream s) = m_restartedFullBody s"
  "m_resumeOffset (flush_stream s) = m_resumeOffset s" "io_files (flush_stream s) = io_files s"
  "m_finished (flush_stream s) = m_finished s" "m_httpStatus (flush_stream s) = m_httpStatus s"
  "m_attached (flush_stream s) = m_attached s" "m_paused (flush_stream s) = m_paused s"
  "mq_enabled (io_queue (flush_stream s)) = mq_enabled (io_queue s)"
  by (simp_all add: flush_stream_def frame_simps)

lemma body_ok_flush:
  "body_ok k s w \<Longrightarrow> mq_enabled (io_queue s) \<Longrightarrow> body_ok k (flush_stream s) w"
  using memory_cap_spec [of "flush_stream s" s] by (simp add: body_ok_def stream_bytes_flush frame_simps)

lemma write_stream_body:
  assumes "body_ok Sink_Stream s w" and "mq_enabled (io_queue s)" and "write_stream data s = (r, t)"
  shows "(r = WritePause \<and> body_ok Sink_Stream t w) \<or>
         (r = Wrote (length data) \<and> body_ok Sink_Stream t (w\<lparr>wr_taken := wr_taken w @ data\<rparr>))"
proof (cases "m_pendingStreamBytes s \<ge> kStreamHighWater")
  case True
  with assms show ?thesis by (auto simp: write_stream_def body_ok_def stream_bytes_def)
next
  case False
  let ?s1 = "s\<lparr>m_streamBuffer := m_streamBuffer s @ data, m_bodyLength := m_bodyLength s + int (length data)\<rparr>"
  have t: "r = Wrote (length data)" "t = ?s1 \<or> t = flush_stream ?s1"
    using False assms(3) by (auto simp: write_stream_def Let_def split: if_splits)
  have s1: "body_ok Sink_Stream ?s1 (w\<lparr>wr_taken := wr_taken w @ data\<rparr>)"
    using assms(1) by (simp add: body_ok_def stream_bytes_def)
  moreover have "mq_enabled (io_queue ?s1)" using assms(2) by simp
  ultimately have "body_ok Sink_Stream (flush_stream ?s1) (w\<lparr>wr_taken := wr_taken w @ data\<rparr>)"
    by (rule body_ok_flush)
  with t s1 show ?thesis by blast
qed

lemma take_min_length: "take (min (length data) n) data = take n data"
  by (simp add: min_def)

lemma fwrite_some:
  "fs (fh_path f) = Some c \<Longrightarrow>
     fwrite h data f fs = (min (length data) (h_write_room h), fs(fh_path f \<mapsto> c @ take (h_write_room h) data))"
  by (simp add: fwrite_def Let_def take_min_length)

text \<open>
  Writing to the part file, from a state in which the file holds what this attempt has written
  after its base. \<open>restarts\<close> is the case in which the server ignored the \<open>Range\<close> header.
\<close>

lemma write_file_restart:
  assumes "m_resumeOffset s > 0" "\<not> m_restartedFullBody s"
    and "m_outputFile s = Some f" "fh_path f = m_partPath s" "io_files s (m_partPath s) = Some c"
  shows "write_file h 200 data s =
    (if h_can_open h (m_partPath s)
     then (Wrote (min (length data) (h_write_room h)),
           s\<lparr>m_restartedFullBody := True, m_resumeOffset := 0,
             m_outputFile := Some \<lparr>fh_path = m_partPath s, fh_pos = 0, fh_limit = h_device_room h\<rparr>,
             io_files := (io_files s)(m_partPath s \<mapsto> take (h_write_room h) data),
             m_bodyLength := m_bodyLength s + int (min (length data) (h_write_room h))\<rparr>)
     else (Wrote 0, s\<lparr>m_restartedFullBody := True, m_resumeOffset := 0, m_outputFile := None,
             io_files := (io_files s)(m_partPath s \<mapsto> take (fh_limit f) c)\<rparr>))"
  using assms
  by (simp add: write_file_def Let_def freopen_wb_def fclose_output_def fclose_some fopen_wb_def fwrite_some)

lemma write_file_plain:
  assumes "\<not> (status = 200 \<and> m_resumeOffset s > 0 \<and> \<not> m_restartedFullBody s)"
    and "m_outputFile s = Some f" and "io_files s (fh_path f) = Some c"
  shows "write_file h status data s =
    (Wrote (min (length data) (h_write_room h)),
     s\<lparr>io_files := (io_files s)(fh_path f \<mapsto> c @ take (h_write_room h) data),
       m_bodyLength := m_bodyLength s + int (min (length data) (h_write_room h))\<rparr>)"
proof -
  have c: "(status = 200 \<and> m_resumeOffset s > 0 \<and> \<not> m_restartedFullBody s) = False" using assms(1) by blast
  show ?thesis
    unfolding write_file_def c using assms(2,3) by (simp add: Let_def fwrite_some)
qed

lemma sink_file_iff:
  "sink_for s status = Sink_File \<longleftrightarrow> is_success status \<and> spec_outputPath (m_spec s) \<noteq> []"
  by (simp add: sink_for_def)

lemma att_inv_at:
  "att_inv s w \<Longrightarrow> wr_status w \<in> {None, Some st} \<Longrightarrow> body_ok (sink_for s st) s w"
  unfolding att_inv_def by blast

lemma att_inv_intro:
  "wr_status v = Some st \<Longrightarrow> body_ok (sink_for t st) t v \<Longrightarrow> att_inv t v"
  by (simp add: att_inv_def)

lemma write_file_keeps:
  assumes att: "att_inv s w" and part: "part_inv s w" and k: "sink_for s st = Sink_File"
    and en: "data = [] \<longrightarrow> wr_taken w = []" "\<not> wr_aborted w" "wr_status w \<in> {None, Some st}" "\<not> wr_ended w"
  shows "fst (write_callback h st data s) \<noteq> WriteNullFile \<and>
    att_inv (snd (write_callback h st data s)) (wire_step (InWrite h st data) s w) \<and>
    part_inv (snd (write_callback h st data s)) (wire_step (InWrite h st data) s w)"
proof -
  let ?n = "min (length data) (h_write_room h)"
  have cb: "write_callback h st data s = write_file h st data s" using k by (simp add: write_callback_def)
  have out: "spec_outputPath (m_spec s) \<noteq> []" and suc: "is_success st" using k by (simp_all add: sink_file_iff)
  have body: "body_ok Sink_File s w" using att_inv_at [OF att en(3)] k by simp
  have pb: "part_bytes w = wr_taken w"
    using en(3) att suc by (auto simp: part_bytes_def att_inv_def)
  from part out en(2,4) obtain f where f: "m_outputFile s = Some f" "fh_path f = m_partPath s"
    "io_files s (m_partPath s) = Some (wr_base w @ wr_taken w)" "fh_limit f = length (wr_base w) + wr_room w"
    and pp: "m_partPath s = part_name (m_spec s)"
    and bz: "m_restartedFullBody s \<or> m_resumeOffset s \<le> 0 \<longrightarrow> wr_base w = []"
    and sr: "wr_base w \<noteq> [] \<longrightarrow> spec_resume (m_spec s)"
    and r: "wr_status w = Some 200 \<longrightarrow> m_restartedFullBody s \<or> m_resumeOffset s \<le> 0"
    by (auto simp: part_inv_def pb)
  have att_file: "att_inv t v"
    if "wr_status v = Some st" "m_spec t = m_spec s" "body_ok Sink_File t v" for t v
    using that k sink_for_spec [of t s] by (simp add: att_inv_def)
  show ?thesis
  proof (cases "restarts st s")
    case True
    then have st: "st = 200" and re: "m_resumeOffset s > 0" "\<not> m_restartedFullBody s"
      by (simp_all add: restarts_def)
    from re r en(3) st have nil: "wr_taken w = []" using att by (auto simp: att_inv_def)
    show ?thesis
      using write_file_restart [OF re f(1-3), of h data] st True cb nil body out suc pp sr f(4)
      by (auto simp: part_inv_def part_bytes_def body_ok_def stream_bytes_def Let_def
          take_min_length intro!: att_file)
  next
    case False
    then have nr: "\<not> (st = 200 \<and> m_resumeOffset s > 0 \<and> \<not> m_restartedFullBody s)"
      using k by (simp add: restarts_def)
    have "io_files s (fh_path f) = Some (wr_base w @ wr_taken w)" using f by simp
    note w = write_file_plain [OF nr f(1) this, of h data]
    show ?thesis
      using w nr False cb body out suc pp f bz sr
      by (auto simp: part_inv_def part_bytes_def body_ok_def stream_bytes_def Let_def
          take_min_length intro!: att_file)
  qed
qed

text \<open>The other two sinks leave the files alone.\<close>

lemma wire_step_write:
  "fst (write_callback h st data s) = Wrote n \<Longrightarrow> \<not> restarts st s \<Longrightarrow>
     wire_step (InWrite h st data) s w =
       w\<lparr>wr_status := Some st, wr_taken := wr_taken w @ take n data, wr_aborted := n < length data,
         wr_ended := (data = []), wr_largest := max (wr_largest w) (length data)\<rparr>"
  "fst (write_callback h st data s) = WritePause \<Longrightarrow> \<not> restarts st s \<Longrightarrow>
     wire_step (InWrite h st data) s w =
       w\<lparr>wr_status := Some st, wr_largest := max (wr_largest w) (length data)\<rparr>"
  by (simp_all add: Let_def)

lemma write_memory_frame:
  "m_spec (snd (write_memory data s)) = m_spec s" "m_partPath (snd (write_memory data s)) = m_partPath s"
  "m_outputFile (snd (write_memory data s)) = m_outputFile s"
  "m_restartedFullBody (snd (write_memory data s)) = m_restartedFullBody s"
  "m_resumeOffset (snd (write_memory data s)) = m_resumeOffset s"
  "io_files (snd (write_memory data s)) = io_files s"
  "spec_outputPath (m_spec s) \<noteq> [] \<Longrightarrow> fst (write_memory data s) = Wrote (length data)"
  by (simp_all add: write_memory_def Let_def)

lemma body_ok_upd [simp]:
  "body_ok k s (w\<lparr>wr_status := x\<rparr>) = body_ok k s w" "body_ok k s (w\<lparr>wr_aborted := b\<rparr>) = body_ok k s w"
  "body_ok k s (w\<lparr>wr_ended := b\<rparr>) = body_ok k s w" "body_ok k s (w\<lparr>wr_largest := n\<rparr>) = body_ok k s w"
  by (simp_all add: body_ok_def)

lemma write_memory_keeps:
  assumes att: "att_inv s w" and part: "part_inv s w" and k: "sink_for s st = Sink_Memory"
    and en: "wr_status w \<in> {None, Some st}" and na: "\<not> wr_aborted w" "\<not> wr_ended w"
  shows "fst (write_callback h st data s) \<noteq> WriteNullFile \<and>
    att_inv (snd (write_callback h st data s)) (wire_step (InWrite h st data) s w) \<and>
    part_inv (snd (write_callback h st data s)) (wire_step (InWrite h st data) s w)"
proof -
  obtain r t where rt: "write_memory data s = (r, t)" by (cases "write_memory data s")
  have cb: "write_callback h st data s = (r, t)" using k rt by (simp add: write_callback_def)
  have nr: "\<not> restarts st s" using k by (simp add: restarts_def)
  obtain n where n: "r = Wrote n" "n \<le> length data"
    and body: "body_ok Sink_Memory t (w\<lparr>wr_taken := wr_taken w @ take n data\<rparr>)"
    using write_memory_body [OF _ rt] att_inv_at [OF att en] k by auto
  let ?w = "w\<lparr>wr_status := Some st, wr_taken := wr_taken w @ take n data, wr_aborted := n < length data,
              wr_ended := (data = []), wr_largest := max (wr_largest w) (length data)\<rparr>"
  have w: "wire_step (InWrite h st data) s w = ?w" by (rule wire_step_write(1)) (simp_all add: cb n nr)
  note frame = write_memory_frame [where data = data and s = s, unfolded rt snd_conv fst_conv]
  have "sink_for t st = Sink_Memory" using sink_for_spec [OF frame(1)] k by simp
  then have "att_inv t ?w" using body by (intro att_inv_intro [of _ st]) (simp_all add: body_ok_def)
  moreover have "part_inv t ?w"
  proof (cases "spec_outputPath (m_spec s) = []")
    case True
    then show ?thesis by (simp add: part_inv_def frame)
  next
    case False
    then have ns: "\<not> is_success st" using k by (simp add: sink_for_def split: if_splits)
    then have "part_bytes w = []" "part_bytes ?w = []" "st \<noteq> 200"
      using en by (auto simp: part_bytes_def is_success_def)
    moreover have "n = length data" using frame(7) False n by simp
    ultimately show ?thesis using part False na by (auto simp: part_inv_def frame)
  qed
  ultimately show ?thesis using cb n w by simp
qed

lemma write_stream_keeps:
  assumes att: "att_inv s w" and k: "sink_for s st = Sink_Stream"
    and en: "wr_status w \<in> {None, Some st}" and q: "mq_enabled (io_queue s)"
  shows "fst (write_callback h st data s) \<noteq> WriteNullFile \<and>
    att_inv (snd (write_callback h st data s)) (wire_step (InWrite h st data) s w) \<and>
    part_inv (snd (write_callback h st data s)) (wire_step (InWrite h st data) s w)"
proof -
  obtain r t where rt: "write_stream data s = (r, t)" by (cases "write_stream data s")
  have cb: "write_callback h st data s = (r, t)" using k rt by (simp add: write_callback_def)
  have nr: "\<not> restarts st s" using k by (simp add: restarts_def)
  have spec: "m_spec t = m_spec s" using same_life_write_stream [of s data] rt by (simp add: same_life_def)
  then have p: "part_inv t v" for v using k by (auto simp: part_inv_def sink_for_def split: if_split_asm)
  have kt: "sink_for t st = Sink_Stream" using sink_for_spec [OF spec] k by simp
  have "body_ok Sink_Stream s w" using att_inv_at [OF att en] k by simp
  from write_stream_body [OF this q rt] show ?thesis
  proof
    assume a: "r = WritePause \<and> body_ok Sink_Stream t w"
    then have "wire_step (InWrite h st data) s w =
        w\<lparr>wr_status := Some st, wr_largest := max (wr_largest w) (length data)\<rparr>"
      by (intro wire_step_write(2)) (simp_all add: cb nr)
    with a cb p kt show ?thesis by (auto intro: att_inv_intro [of _ st])
  next
    assume a: "r = Wrote (length data) \<and> body_ok Sink_Stream t (w\<lparr>wr_taken := wr_taken w @ data\<rparr>)"
    then have "wire_step (InWrite h st data) s w =
        w\<lparr>wr_status := Some st, wr_taken := wr_taken w @ take (length data) data,
          wr_aborted := length data < length data, wr_ended := (data = []), wr_largest := max (wr_largest w) (length data)\<rparr>"
      by (intro wire_step_write(1)) (simp_all add: cb nr)
    with a cb p kt show ?thesis by (auto intro!: att_inv_intro [of _ st] simp: body_ok_def)
  qed
qed

lemma write_keeps:
  assumes "att_inv s w" and "part_inv s w" and "mq_enabled (io_queue s)"
    and "job_enabled (InWrite h st data) s w"
  shows "fst (write_callback h st data s) \<noteq> WriteNullFile \<and>
    att_inv (snd (write_callback h st data s)) (wire_step (InWrite h st data) s w) \<and>
    part_inv (snd (write_callback h st data s)) (wire_step (InWrite h st data) s w)"
proof (cases "sink_for s st")
  case Sink_Memory
  with assms show ?thesis by (intro write_memory_keeps) simp_all
next
  case Sink_File
  with assms show ?thesis by (intro write_file_keeps) simp_all
next
  case Sink_Stream
  with assms show ?thesis by (intro write_stream_keeps) simp_all
qed

section \<open>Beginning, ending and cancelling\<close>

lemma delivery_not_ok:
  assumes "\<not> m_finished s" "\<not> m_attached s" "mq_enabled (io_queue s)" "st \<noteq> RestStatus_Ok"
  shows "delivery_inv (finish st er s) w"
  using assms by (simp add: delivery_inv_def posted_finish frame_simps)

lemma open_output_file_ok:
  assumes "fst (open_output_file h s)" and "spec_outputPath (m_spec s) \<noteq> []"
  shows "m_partPath (snd (open_output_file h s)) = part_name (m_spec s) \<and>
    m_outputFile (snd (open_output_file h s)) = Some \<lparr>fh_path = part_name (m_spec s), fh_pos = 0,
      fh_limit = length (part_base s) + h_device_room h\<rparr> \<and>
    io_files (snd (open_output_file h s)) (part_name (m_spec s)) = Some (part_base s) \<and>
    (m_resumeOffset (snd (open_output_file h s)) \<le> 0 \<longrightarrow> part_base s = [])"
  using assms
  by (auto simp: open_output_file_def part_name_def part_base_def file_size_of_def fopen_ab_def
      fopen_wb_def Let_def split: if_splits option.splits)

lemma open_files_ok:
  assumes "open_files h s = (True, s3)" and "spec_outputPath (m_spec s) \<noteq> []"
  shows "m_partPath s3 = part_name (m_spec s) \<and>
    m_outputFile s3 = Some \<lparr>fh_path = part_name (m_spec s), fh_pos = 0,
      fh_limit = length (part_base s) + h_device_room h\<rparr> \<and>
    io_files s3 (part_name (m_spec s)) = Some (part_base s) \<and>
    (m_resumeOffset s3 \<le> 0 \<longrightarrow> part_base s = [])"
proof -
  let ?u = "snd (open_upload_file h s)"
  have o: "open_output_file h ?u = (True, s3)" using assms(1) by (simp add: open_files_eq split: if_splits)
  have "part_base ?u = part_base s" by (simp add: part_base_def frame_simps)
  with open_output_file_ok [of h ?u] o assms(2) show ?thesis by (simp add: frame_simps)
qed

lemma part_base_resume: "part_base s \<noteq> [] \<Longrightarrow> spec_resume (m_spec s)"
  by (simp add: part_base_def split: if_splits)

lemma begin_delivers:
  assumes inv: "delivery_inv s w" "life_inv s" "event_inv s" and en: "job_enabled (InBegin h) s w"
  shows "delivery_inv (snd (begin_attempt h s)) (wire_step (InBegin h) s w)"
proof -
  from en have nf: "\<not> m_finished s" and fresh: "m_attempt s = 0 \<or> m_waitingForRetry s"
    by (auto simp: is_retry_due_def)
  from inv(2) nf fresh have na: "\<not> m_attached s" "\<not> m_cancelRequested s" by (auto simp: life_inv_def)
  have q: "mq_enabled (io_queue s)" using inv(3) by (simp add: event_inv_def)
  have d: "data_bytes (posted s) = []" using inv(1) nf na by (simp add: delivery_inv_def)
  let ?b = "(attempt_base s)\<lparr>m_easy := Some []\<rparr>"
  have o: "m_spec s3 = m_spec s" "m_finished s3 = m_finished s" "m_attached s3 = m_attached s"
      "io_queue s3 = io_queue s" "m_bodyLength s3 = 0" "m_responseBody s3 = []" "m_streamBuffer s3 = []"
      "m_restartedFullBody s3 = False"
    if "open_files h ?b = (ok, s3)" for ok s3
    using open_files_frame [of h ?b] that by (simp_all add: frame_simps)
  show ?thesis
  proof (cases rule: begin_attempt_cases [of s h])
    case cancelled
    with na show ?thesis by simp
  next
    case no_handle
    then show ?thesis using nf na q by (auto intro!: delivery_not_ok simp: frame_simps)
  next
    case (no_file s3)
    then show ?thesis using nf na q o [OF no_file(2)] by (auto intro!: delivery_not_ok)
  next
    case (not_added s3 error)
    then show ?thesis using nf na q o [OF not_added(2)] by (auto intro!: delivery_not_ok simp: frame_simps)
  next
    case (attached s3)
    let ?t = "(configure_handle h s3)\<lparr>m_attached := True\<rparr>" and ?w = "wire_step (InBegin h) s w"
    note o3 = o [OF attached(2)]
    have "part_base ?b = part_base s" by (simp add: part_base_def frame_simps)
    then have "part_inv ?t ?w"
      using open_files_ok [OF attached(2)] o3 part_base_resume [of s]
      by (auto simp: part_inv_def part_bytes_def frame_simps)
    moreover have "att_inv ?t ?w"
      using o3 d by (simp add: att_inv_def body_ok_def stream_bytes_def frame_simps)
    ultimately show ?thesis using attached(4) o3 nf by (simp add: delivery_inv_def frame_simps)
  qed
qed

lemma retry_delivers:
  assumes att: "att_inv s w" and en: "wr_status w \<in> {None, Some st}" and r: "can_retry s"
  shows "data_bytes (posted s) = []"
proof (cases "sink_for s st = Sink_Stream")
  case True
  then have "spec_streamData (m_spec s)" by (auto simp: sink_for_def split: if_split_asm)
  with r have "m_bodyLength s \<le> 0" by (auto simp: can_retry_def split: if_split_asm)
  with att_inv_at [OF att en] True show ?thesis by (simp add: body_ok_def stream_bytes_def)
next
  case False
  with att_inv_at [OF att en] show ?thesis by (simp add: body_ok_def stream_bytes_def)
qed

text \<open>The state in which a result is judged still holds the body of the attempt.\<close>

definition judged_body :: "int \<Rightarrow> job_ctx \<Rightarrow> wire \<Rightarrow> bool" where
  "judged_body st t w \<longleftrightarrow>
     \<not> m_finished t \<and> \<not> m_attached t \<and> mq_enabled (io_queue t) \<and> m_httpStatus t = st \<and>
     wr_status w \<in> {None, Some st} \<and> att_inv t w \<and>
     (spec_outputPath (m_spec t) \<noteq> [] \<and> \<not> wr_aborted w \<longrightarrow> m_partPath t = part_name (m_spec t) \<and>
        (is_success st \<longrightarrow> io_files t (m_partPath t) = Some (wr_base w @ take (wr_room w) (wr_taken w))) \<and>
        (wr_base w \<noteq> [] \<longrightarrow> spec_resume (m_spec t) \<and> (st = 200 \<longrightarrow> wr_taken w = [])))"

lemma att_inv_cong:
  assumes "m_spec t = m_spec s" "m_bodyLength t = m_bodyLength s" "m_responseBody t = m_responseBody s"
    "io_queue t = io_queue s" "m_streamBuffer t = m_streamBuffer s"
  shows "att_inv t w = att_inv s w"
  by (simp only: att_inv_def body_ok_def stream_bytes_def assms sink_for_spec [OF assms(1)]
      memory_cap_spec [OF assms(1)])

text \<open>What \<open>fclose\<close> leaves of the part file, and when that is only what this attempt has written.\<close>

lemma part_closed:
  assumes "part_inv s w" "spec_outputPath (m_spec s) \<noteq> []" "\<not> wr_aborted w" "part_bytes w = wr_taken w"
  shows "fclose_output (m_outputFile s) (io_files s) (part_name (m_spec s)) =
    Some (wr_base w @ take (wr_room w) (wr_taken w))"
  using assms by (cases "m_outputFile s") (auto simp: part_inv_def fclose_output_def fclose_some)

lemma part_fresh:
  assumes "part_inv s w" "spec_outputPath (m_spec s) \<noteq> []" "\<not> wr_aborted w"
    and "wr_status w \<in> {None, Some 200}" "wr_status w = None \<longrightarrow> wr_taken w = []" "wr_base w \<noteq> []"
  shows "wr_taken w = []"
  using assms by (cases "m_outputFile s") (auto simp: part_inv_def)

lemma judged_body_done:
  assumes inv: "delivery_inv s w" "life_inv s" "event_inv s" and en: "job_enabled (InDone h code) s w"
  shows "judged_body (h_response_code h) (done_base h s) w"
proof -
  let ?st = "h_response_code h"
  from en have a: "m_attached s" and st: "wr_status w \<in> {None, Some ?st}" by simp_all
  from inv a have att: "att_inv s w" and part: "part_inv s w" and q: "mq_enabled (io_queue s)"
    and e: "m_easy s \<noteq> None" "\<not> m_finished s" by (simp_all add: delivery_inv_def event_inv_def life_inv_def)
  have "att_inv (done_base h s) w"
    using att by (rule att_inv_cong [THEN iffD2, rotated -1]) (simp_all add: frame_simps)
  moreover have "is_success ?st \<Longrightarrow> part_bytes w = wr_taken w"
    using st att by (auto simp: part_bytes_def att_inv_def)
  moreover have "spec_outputPath (m_spec s) \<noteq> [] \<and> \<not> wr_aborted w \<longrightarrow> m_partPath s = part_name (m_spec s) \<and>
      (is_success ?st \<longrightarrow> fclose_output (m_outputFile s) (io_files s) (part_name (m_spec s)) =
         Some (wr_base w @ take (wr_room w) (wr_taken w))) \<and>
      (wr_base w \<noteq> [] \<longrightarrow> spec_resume (m_spec s) \<and> (?st = 200 \<longrightarrow> wr_taken w = []))"
    using part part_closed [OF part] part_fresh [OF part] calculation(2) att st
    by (auto simp: part_inv_def att_inv_def)
  ultimately show ?thesis
    using q e st by (auto simp: judged_body_def frame_simps)
qed

lemma judged_body_not_ok:
  "judged_body st t w \<Longrightarrow> status \<noteq> RestStatus_Ok \<Longrightarrow> delivery_inv (finish status er t) w"
  by (simp add: judged_body_def delivery_not_ok)

lemma judged_body_retry:
  assumes "judged_body st t w" and "can_retry t"
  shows "delivery_inv (schedule_retry h t) w"
proof -
  have "data_bytes (posted t) = []" using assms retry_delivers [of t w st] by (simp add: judged_body_def)
  with assms(1) show ?thesis by (simp add: delivery_inv_def judged_body_def frame_simps)
qed

lemma transport_delivers:
  "judged_body st t w \<Longrightarrow> delivery_inv (handle_transport_failure h code txt t) w"
  by (simp add: handle_transport_failure_def Let_def judged_body_not_ok judged_body_retry)

lemma http_failure_delivers:
  assumes "judged_body st t w"
  shows "delivery_inv (handle_http_failure h t) w"
proof -
  have "delivery_inv (finish RestStatus_HttpError er (t\<lparr>io_files := fs\<rparr>)) w" for er fs
    using assms by (intro delivery_not_ok) (simp_all add: judged_body_def)
  then show ?thesis
    using assms by (simp add: handle_http_failure_def Let_def judged_body_not_ok judged_body_retry)
qed

lemma last_posted_finish:
  "\<not> m_finished s \<Longrightarrow> mq_enabled (io_queue s) \<Longrightarrow> last (posted (finish st er s)) = complete_event st er s"
  by (simp add: posted_finish)

lemma http_success_delivers:
  assumes j: "judged_body st t w" and suc: "is_success st" and na: "\<not> wr_aborted w"
  shows "delivery_inv (handle_http_success h t) w"
proof -
  have b: "body_ok (sink_for t st) t w" using j by (simp add: judged_body_def att_inv_at)
  have nf: "\<not> m_finished t" "\<not> m_attached t" and q: "mq_enabled (io_queue t)" and hs: "m_httpStatus t = st"
    using j by (simp_all add: judged_body_def)
  show ?thesis
  proof (cases "spec_outputPath (m_spec t) = []")
    case True
    let ?f = "flush_stream t"
    have "sink_for ?f st = sink_for t st" by (rule sink_for_spec) (simp add: frame_simps)
    then have bf: "body_ok (sink_for t st) ?f w" using body_ok_flush [OF b q] by simp
    have "memory_cap (finish RestStatus_Ok [] ?f) = memory_cap ?f" by (rule memory_cap_spec) (simp add: frame_simps)
    then have "ok_delivered (finish RestStatus_Ok [] ?f) w"
      using True bf nf q suc hs na
      by (auto simp: ok_delivered_def last_posted_finish frame_simps body_ok_def sink_for_def posted_finish
          stream_bytes_def split: if_splits)
    then show ?thesis
      using True nf by (simp add: handle_http_success_def delivery_inv_def frame_simps)
  next
    case False
    then have part: "m_partPath t = part_name (m_spec t)"
        "io_files t (m_partPath t) = Some (wr_base w @ take (wr_room w) (wr_taken w))"
        "wr_base w \<noteq> [] \<longrightarrow> spec_resume (m_spec t) \<and> (st = 200 \<longrightarrow> wr_taken w = [])"
      using j suc na by (auto simp: judged_body_def)
    have k: "sink_for t st = Sink_File" using False suc by (simp add: sink_file_iff)
    have ne: "part_name (m_spec t) \<noteq> spec_outputPath (m_spec t)" by (simp add: part_name_def)
    show ?thesis
    proof (cases "h_can_rename h")
      case True
      let ?t = "t\<lparr>io_files := ((io_files t)(m_partPath t := None))
                   (spec_outputPath (m_spec t) \<mapsto> wr_base w @ take (wr_room w) (wr_taken w))\<rparr>"
      have "handle_http_success h t = finish RestStatus_Ok [] ?t"
        using False True part by (simp add: handle_http_success_def finalize_download_def rename_file_def)
      moreover have "ok_delivered (finish RestStatus_Ok [] ?t) w"
        using b k nf q suc hs na False part ne
        by (simp add: ok_delivered_def last_posted_finish frame_simps body_ok_def)
      ultimately show ?thesis using nf by (simp add: delivery_inv_def frame_simps)
    next
      case False
      note norename = this
      have "handle_http_success h t = finish RestStatus_IoError (''rename failed: '' @ h_errno_text h) t"
        using norename part \<open>spec_outputPath (m_spec t) \<noteq> []\<close>
        by (simp add: handle_http_success_def finalize_download_def rename_file_def)
      then show ?thesis using j by (simp add: judged_body_not_ok)
    qed
  qed
qed

lemma done_delivers:
  assumes inv: "delivery_inv s w" "life_inv s" "event_inv s" and en: "job_enabled (InDone h code) s w"
  shows "delivery_inv (on_attempt_done h code s) w"
proof -
  note j = judged_body_done [OF assms]
  have "\<not> m_cancelRequested s" using inv(2) en by (auto simp: life_inv_def)
  moreover have "code = CURLE_OK \<Longrightarrow> \<not> wr_aborted w" using en by auto
  ultimately show ?thesis
    using transport_delivers [OF j] http_failure_delivers [OF j] http_success_delivers [OF j]
    by (simp add: on_attempt_done_eq Let_def)
qed

lemma cancel_delivers:
  assumes "life_inv s" "event_inv s" and en: "job_enabled InCancel s w"
  shows "delivery_inv (cancel s) w"
  unfolding cancel_def using assms
  by (intro delivery_not_ok) (auto simp: life_inv_def event_inv_def frame_simps close_files_def)

section \<open>The delivery invariant of every reachable state\<close>

lemma delivery_start: "delivery_inv (job_start spec fs) wire_start"
  by (simp add: delivery_inv_def job_start_def job_ctx_of_def new_job_def rest_job.extend_def queue_default_def)

lemma step_delivers:
  assumes inv: "delivery_inv s w" "life_inv s" "event_inv s" and en: "job_enabled i s w"
  shows "delivery_inv (job_step i s) (wire_step i s w)"
proof -
  have q: "mq_enabled (io_queue s)" using inv(3) by (simp add: event_inv_def)
  show ?thesis
  proof (cases i)
    case (InBegin h)
    with assms show ?thesis using begin_delivers by simp
  next
    case (InWrite h st data)
    let ?t = "snd (write_callback h st data s)"
    have a: "m_attached s" "\<not> m_finished s" using en InWrite inv(2) by (auto simp: life_inv_def)
    with inv q en InWrite have "att_inv ?t (wire_step i s w) \<and> part_inv ?t (wire_step i s w)"
      using write_keeps [of s w h st data] by (simp add: delivery_inv_def)
    with a same_life_write [of s h st data] InWrite show ?thesis
      by (simp add: delivery_inv_def same_life_def)
  next
    case (InDone h code)
    with assms show ?thesis using done_delivers by simp
  next
    case InCancel
    with assms show ?thesis using cancel_delivers by simp
  qed (use assms q attached_not_finished in \<open>auto intro!: same_body_delivery [OF _ _ inv(1)]
      simp: same_life_quiet same_body_header same_body_progress same_body_read same_body_seek
        same_body_error same_body_consumed\<close>)
qed

text \<open>Changes of files the job does not own.\<close>

lemma delivery_others:
  assumes "delivery_inv s w"
    and "spec_outputPath (m_spec s) \<noteq> [] \<Longrightarrow> files (part_name (m_spec s)) = io_files s (part_name (m_spec s))"
    and "spec_outputPath (m_spec s) \<noteq> [] \<Longrightarrow>
      files (spec_outputPath (m_spec s)) = io_files s (spec_outputPath (m_spec s))"
  shows "delivery_inv (s\<lparr>io_files := files\<rparr>) w"
proof -
  have c: "memory_cap (s\<lparr>io_files := files\<rparr>) = memory_cap s" by (simp add: memory_cap_def)
  have k: "sink_for (s\<lparr>io_files := files\<rparr>) st = sink_for s st" for st by (simp add: sink_for_def)
  have b: "body_ok (sink_for s st) (s\<lparr>io_files := files\<rparr>) w = body_ok (sink_for s st) s w" for st
    by (simp add: body_ok_def stream_bytes_def c)
  have att: "att_inv (s\<lparr>io_files := files\<rparr>) w = att_inv s w" by (simp add: att_inv_def b k)
  have part: "part_inv (s\<lparr>io_files := files\<rparr>) w" if "part_inv s w"
  proof (cases "spec_outputPath (m_spec s) = []")
    case False
    with that have p: "m_partPath s = part_name (m_spec s)" by (simp add: part_inv_def)
    show ?thesis using that assms(2) [OF False] by (simp add: part_inv_def p)
  qed (simp add: part_inv_def)
  have ok: "ok_delivered (s\<lparr>io_files := files\<rparr>) w" if "ok_delivered s w"
    using that assms(2,3) by (simp add: ok_delivered_def c split: if_split_asm)
  show ?thesis using assms(1) part ok by (simp add: delivery_inv_def att)
qed

lemma reach_delivery: "job_reach spec fs s w \<Longrightarrow> delivery_inv s w"
proof (induction rule: job_reach.induct)
  case (start spec fs)
  show ?case by (rule delivery_start)
next
  case (step spec fs s w i)
  then show ?case using reach_inv step_delivers by blast
next
  case (others spec fs s w files)
  have "m_spec s = spec" by (rule reach_spec [OF others.hyps(1)])
  with others show ?case by (intro delivery_others) (simp_all add: own_path_def part_name_def)
qed

end
