(* ===== verification/Rest_Flow.thy ===== *)
theory Rest_Flow
  imports Rest_Delivery
begin

text \<open>
  The flow control of a streamed body: how many bytes can be on their way to the plugin, how full
  the chunk being filled can be, and that a paused transfer still has bytes to be consumed, so that
  the consumption that resumes it is yet to come.
\<close>

definition chunk_limit :: "'a rest_job_scheme \<Rightarrow> int" where
  "chunk_limit s = max 1 (to_u32 (cfg_chunkSize (job_config s)))"

definition flow_inv :: "job_ctx \<Rightarrow> wire \<Rightarrow> bool" where
  "flow_inv s w \<longleftrightarrow> (m_attached s \<longrightarrow>
     (m_paused s \<longrightarrow> m_pendingStreamBytes s \<ge> kStreamLowWater) \<and>
     0 \<le> m_pendingStreamBytes s \<and>
     m_pendingStreamBytes s \<le> kStreamHighWater + chunk_limit s + int (wr_largest w) \<and>
     int (length (m_streamBuffer s)) < chunk_limit s)"

definition same_flow :: "job_ctx \<Rightarrow> job_ctx \<Rightarrow> bool" where
  "same_flow s t \<longleftrightarrow>
     m_attached t = m_attached s \<and> m_paused t = m_paused s \<and> m_spec t = m_spec s \<and>
     m_pendingStreamBytes t = m_pendingStreamBytes s \<and> m_streamBuffer t = m_streamBuffer s"

lemma same_flow_inv:
  "same_flow s t \<Longrightarrow> wr_largest w \<le> wr_largest v \<Longrightarrow> flow_inv s w \<Longrightarrow> flow_inv t v"
  by (auto simp: same_flow_def flow_inv_def chunk_limit_def)

lemma same_flow_quiet:
  "same_flow s (on_header_line status line s)" "same_flow s (snd (read_callback n s))"
  "same_flow s (snd (seek_callback off origin s))" "same_flow s (store_curl_error text s)"
  "same_flow s (snd (progress_callback h a b c d s))" "same_flow s (snd (write_memory data s))"
  "same_flow s (snd (write_file h status data s))"
  by (auto simp: same_flow_def on_header_line_def on_headers_complete_def read_callback_def
      seek_callback_def store_curl_error_def progress_callback_def post_progress_def write_memory_def
      write_file_eq Let_def frame_simps split: option.split prod.split)

lemma wire_largest: "wr_largest (wire_step (InWrite h st data) s w) = max (wr_largest w) (length data)"
  by (simp add: Let_def split: write_result.split)

lemma flow_write_stream:
  assumes inv: "flow_inv s w" and na: "m_attached s" "\<not> m_paused s"
    and v: "wr_largest w \<le> wr_largest v" "length data \<le> wr_largest v"
  shows "flow_inv (snd (write_stream data s)) v"
proof (cases "m_pendingStreamBytes s \<ge> kStreamHighWater")
  case True
  moreover have "kStreamLowWater \<le> kStreamHighWater" by (simp add: kStreamLowWater_def kStreamHighWater_def)
  ultimately show ?thesis using inv na v
    by (simp add: write_stream_def flow_inv_def chunk_limit_def)
next
  case False
  then show ?thesis using inv na v
    by (auto simp: write_stream_def flow_inv_def chunk_limit_def flush_stream_def Let_def frame_simps)
qed

lemma flow_begin:
  assumes "\<not> m_attached s"
  shows "flow_inv (snd (begin_attempt h s)) v"
proof (cases rule: begin_attempt_cases [of s h])
  case (no_file s3)
  then show ?thesis using assms open_files_frame [of h "(attempt_base s)\<lparr>m_easy := Some []\<rparr>"]
    by (simp add: flow_inv_def frame_simps)
next
  case (not_added s3 error)
  then show ?thesis using assms open_files_frame [of h "(attempt_base s)\<lparr>m_easy := Some []\<rparr>"]
    by (simp add: flow_inv_def frame_simps)
next
  case (attached s3)
  then show ?thesis using open_files_frame [of h "(attempt_base s)\<lparr>m_easy := Some []\<rparr>"]
    by (simp add: flow_inv_def frame_simps chunk_limit_def kStreamHighWater_def)
qed (use assms in \<open>simp_all add: flow_inv_def frame_simps\<close>)

lemma flow_write:
  assumes inv: "flow_inv s w" and na: "m_attached s" "\<not> m_paused s"
    and v: "wr_largest w \<le> wr_largest v" "length data \<le> wr_largest v"
  shows "flow_inv (snd (write_callback h st data s)) v"
proof (cases "sink_for s st")
  case Sink_Stream
  then show ?thesis using flow_write_stream [OF assms] by (simp add: write_callback_def)
next
  case Sink_File
  then show ?thesis using v
    by (intro same_flow_inv [OF _ _ inv]) (simp_all add: write_callback_def same_flow_quiet)
next
  case Sink_Memory
  then show ?thesis using v
    by (intro same_flow_inv [OF _ _ inv]) (simp_all add: write_callback_def same_flow_quiet)
qed

lemma done_detached: "life_inv s \<Longrightarrow> \<not> m_attached (on_attempt_done h code s)"
  by (auto simp: on_attempt_done_eq Let_def handle_transport_failure_def handle_http_failure_def
      handle_http_success_def finalize_download_def flush_stream_def frame_simps life_inv_def
      split: prod.split)

lemma cancel_detached: "life_inv s \<Longrightarrow> \<not> m_attached (cancel s)"
  by (auto simp: cancel_def frame_simps life_inv_def close_files_def)

lemma flow_keeps:
  assumes inv: "flow_inv s w" and life: "life_inv s" and en: "job_enabled i s w"
  shows "flow_inv (job_step i s) (wire_step i s w)"
proof (cases i)
  case (InBegin h)
  have "\<not> m_attached s" using en InBegin life by (auto simp: life_inv_def is_retry_due_def)
  with InBegin show ?thesis by (simp add: flow_begin)
next
  case (InWrite h st data)
  then have "flow_inv (snd (write_callback h st data s)) (wire_step i s w)"
    using en by (intro flow_write [OF inv]) (simp_all add: wire_largest del: wire_step.simps)
  with InWrite show ?thesis by (simp del: wire_step.simps)
next
  case (InDone h code)
  then show ?thesis using done_detached [OF life] by (simp add: flow_inv_def)
next
  case (InConsumed bytes)
  then show ?thesis using inv en
    by (auto simp: flow_inv_def on_stream_consumed_def Let_def chunk_limit_def)
next
  case InCancel
  then show ?thesis using cancel_detached [OF life] by (simp add: flow_inv_def)
qed (use inv in \<open>auto intro!: same_flow_inv [OF _ _ inv] simp: same_flow_quiet\<close>)

lemma reach_flow: "job_reach spec fs s w \<Longrightarrow> flow_inv s w"
proof (induction rule: job_reach.induct)
  case (start spec fs)
  show ?case by (simp add: flow_inv_def job_start_def job_ctx_of_def new_job_def rest_job.extend_def)
next
  case (step spec fs s w i)
  then show ?case using reach_inv flow_keeps by blast
next
  case (others spec fs s w files)
  then show ?case by (simp add: flow_inv_def chunk_limit_def)
qed

section \<open>Coalescing\<close>

text \<open>While a job runs, every chunk it has posted is full; only the last one, at the end, may be short.\<close>

definition chunks_full :: "job_ctx \<Rightarrow> bool" where
  "chunks_full s \<longleftrightarrow>
     (\<forall>e \<in> set (posted s). ev_kind e = Kind_Data \<longrightarrow> chunk_limit s \<le> int (length (ev_body e)))"

lemma chunk_limit_spec: "m_spec t = m_spec s \<Longrightarrow> chunk_limit t = chunk_limit s"
  by (simp add: chunk_limit_def)

lemma chunks_full_same: "posted t = posted s \<Longrightarrow> m_spec t = m_spec s \<Longrightarrow> chunks_full t = chunks_full s"
  by (simp add: chunks_full_def chunk_limit_def)

lemma chunks_full_update [simp]:
  "chunks_full (s\<lparr>m_headersPosted := b\<rparr>) = chunks_full s"
  "chunks_full (s\<lparr>m_responseHeaders := hs\<rparr>) = chunks_full s"
  "chunks_full (s\<lparr>m_lastProgressPost := n\<rparr>) = chunks_full s"
  "chunks_full (s\<lparr>m_paused := b\<rparr>) = chunks_full s"
  "chunks_full (s\<lparr>m_streamBuffer := buf\<rparr>) = chunks_full s"
  "chunks_full (s\<lparr>m_pendingStreamBytes := n\<rparr>) = chunks_full s"
  "chunks_full (s\<lparr>m_bodyLength := n\<rparr>) = chunks_full s"
  by (simp_all add: chunks_full_def chunk_limit_def)

lemma chunks_full_post:
  "ev_kind e = Kind_Data \<longrightarrow> chunk_limit s \<le> int (length (ev_body e)) \<Longrightarrow> chunks_full s \<Longrightarrow>
     chunks_full (post_event e s)"
  by (auto simp: chunks_full_def posted_post_event chunk_limit_def frame_simps)

lemma chunks_full_silent:
  "chunks_full (snd (read_callback n s)) = chunks_full s"
  "chunks_full (snd (seek_callback off origin s)) = chunks_full s"
  "chunks_full (store_curl_error text s) = chunks_full s"
  "chunks_full (snd (on_stream_consumed bytes s)) = chunks_full s"
  "chunks_full (snd (write_memory data s)) = chunks_full s"
  "chunks_full (snd (write_file h status data s)) = chunks_full s"
  by (rule chunks_full_same; auto simp: read_callback_def seek_callback_def store_curl_error_def
      on_stream_consumed_def write_memory_def write_file_eq Let_def split: option.split prod.split)+

lemma chunks_full_header: "chunks_full s \<Longrightarrow> chunks_full (on_header_line status line s)"
  by (auto simp: on_header_line_def on_headers_complete_def Let_def
      intro!: chunks_full_post split: option.split)

lemma chunks_full_progress: "chunks_full s \<Longrightarrow> chunks_full (snd (progress_callback h a b c d s))"
  by (auto simp: progress_callback_def post_progress_def Let_def
      intro!: chunks_full_post)

lemma chunks_full_flush:
  assumes "chunks_full s" and "m_streamBuffer s \<noteq> [] \<Longrightarrow> chunk_limit s \<le> int (length (m_streamBuffer s))"
  shows "chunks_full (flush_stream s)"
  using assms by (auto simp: flush_stream_def chunk_limit_def intro!: chunks_full_post)

lemma chunks_full_stream:
  assumes "chunks_full s"
  shows "chunks_full (snd (write_stream data s))"
proof -
  let ?s1 = "s\<lparr>m_streamBuffer := m_streamBuffer s @ data, m_bodyLength := m_bodyLength s + int (length data)\<rparr>"
  have s1: "chunks_full ?s1" using assms by simp
  have "chunks_full (flush_stream ?s1)"
    if "to_u32 (cfg_chunkSize (job_config s)) \<le> int (length (m_streamBuffer ?s1))"
    using that by (intro chunks_full_flush [OF s1]) (cases "m_streamBuffer ?s1", auto simp: chunk_limit_def)
  with s1 assms show ?thesis
    by (auto simp: write_stream_def Let_def)
qed

lemma chunks_step:
  assumes full: "chunks_full s" and en: "job_enabled i s w" and nf: "\<not> m_finished (job_step i s)"
  shows "chunks_full (job_step i s)"
proof (cases i)
  case (InBegin h)
  show ?thesis
  proof (cases rule: begin_attempt_cases [of s h])
    case (attached s3)
    then have "posted (job_step i s) = posted s"
      using InBegin open_files_frame(14) [of h "(attempt_base s)\<lparr>m_easy := Some []\<rparr>"] by (simp add: frame_simps)
    with full chunks_full_same step_spec show ?thesis by metis
  qed (use nf InBegin in simp_all)
next
  case (InWrite h st data)
  with full show ?thesis
    by (cases "sink_for s st") (simp_all add: write_callback_def chunks_full_silent chunks_full_stream)
next
  case (InDone h code)
  have "posted (job_step i s) = posted s" using nf InDone
    by (auto simp: on_attempt_done_eq Let_def handle_transport_failure_def handle_http_failure_def
        handle_http_success_def frame_simps split: if_split_asm prod.split_asm)
  with full chunks_full_same step_spec show ?thesis by metis
next
  case InCancel
  with nf show ?thesis by (simp add: cancel_def)
qed (use full in \<open>simp_all add: chunks_full_silent chunks_full_header chunks_full_progress\<close>)

lemma reach_chunks: "job_reach spec fs s w \<Longrightarrow> \<not> m_finished s \<Longrightarrow> chunks_full s"
proof (induction rule: job_reach.induct)
  case (start spec fs)
  show ?case by (simp add: chunks_full_def job_start_def job_ctx_of_def new_job_def rest_job.extend_def
      queue_default_def)
next
  case (step spec fs s w i)
  have "\<not> m_finished s" using step.hyps(1,2) reach_inv [OF step.hyps(1)]
    by (cases i) (auto simp: life_inv_def)
  with step chunks_step show ?case by blast
next
  case (others spec fs s w files)
  then show ?case by (simp add: chunks_full_def chunk_limit_def)
qed

end
