(* ===== verification/Rest_Files.thy ===== *)
theory Rest_Files
  imports Rest_Flow
begin

text \<open>
  Which files a job changes: its part file, and the output file only by the rename that ends a
  successful download. Everything else on the file system, the upload file included, is as it was.
\<close>

definition files_inv :: "file_system \<Rightarrow> job_ctx \<Rightarrow> bool" where
  "files_inv fs s \<longleftrightarrow>
     (m_partPath s = [] \<or> spec_outputPath (m_spec s) \<noteq> [] \<and> m_partPath s = part_name (m_spec s)) \<and>
     (\<forall>f. m_outputFile s = Some f \<longrightarrow>
        spec_outputPath (m_spec s) \<noteq> [] \<and> fh_path f = part_name (m_spec s)) \<and>
     (\<forall>p. io_files s p \<noteq> fs p \<longrightarrow> spec_outputPath (m_spec s) \<noteq> [] \<and>
        (p = part_name (m_spec s) \<or>
         p = spec_outputPath (m_spec s) \<and> m_finished s \<and> ev_status (last (posted s)) = RestStatus_Ok))"

lemma files_invD:
  assumes "files_inv fs s"
  shows "m_partPath s = [] \<or> spec_outputPath (m_spec s) \<noteq> [] \<and> m_partPath s = part_name (m_spec s)"
    and "m_outputFile s = Some f \<Longrightarrow> spec_outputPath (m_spec s) \<noteq> [] \<and> fh_path f = part_name (m_spec s)"
  using assms by (simp_all add: files_inv_def)

text \<open>What may change, in a job that is not finished, without breaking it.\<close>

definition part_only :: "job_ctx \<Rightarrow> job_ctx \<Rightarrow> bool" where
  "part_only s t \<longleftrightarrow>
     m_spec t = m_spec s \<and>
     (m_partPath t = m_partPath s \<or> spec_outputPath (m_spec s) \<noteq> [] \<and> m_partPath t = part_name (m_spec s)) \<and>
     (\<forall>f. m_outputFile t = Some f \<longrightarrow> m_outputFile s = Some f \<or>
        spec_outputPath (m_spec s) \<noteq> [] \<and> fh_path f = part_name (m_spec s)) \<and>
     (\<forall>p. io_files t p \<noteq> io_files s p \<longrightarrow> spec_outputPath (m_spec s) \<noteq> [] \<and> p = part_name (m_spec s))"

lemma part_only_refl [simp]: "part_only s s"
  by (simp add: part_only_def)

lemma part_only_trans: "part_only s t \<Longrightarrow> part_only t u \<Longrightarrow> part_only s u"
  unfolding part_only_def by (metis (no_types, lifting))

lemma part_only_same:
  "m_spec t = m_spec s \<Longrightarrow> m_partPath t = m_partPath s \<Longrightarrow>
     m_outputFile t = m_outputFile s \<or> m_outputFile t = None \<Longrightarrow> io_files t = io_files s \<Longrightarrow> part_only s t"
  by (auto simp: part_only_def)

lemma files_inv_part_only:
  assumes "files_inv fs s" "part_only s t" "\<not> m_finished s"
  shows "files_inv fs t"
proof -
  have spec: "m_spec t = m_spec s" using assms(2) by (simp add: part_only_def)
  have "io_files t p \<noteq> fs p \<longrightarrow> spec_outputPath (m_spec s) \<noteq> [] \<and> p = part_name (m_spec s)" for p
    using assms unfolding files_inv_def part_only_def by metis
  moreover have "m_partPath t = [] \<or> spec_outputPath (m_spec s) \<noteq> [] \<and> m_partPath t = part_name (m_spec s)"
    using assms unfolding files_inv_def part_only_def by metis
  moreover have "m_outputFile t = Some f \<longrightarrow>
      spec_outputPath (m_spec s) \<noteq> [] \<and> fh_path f = part_name (m_spec s)" for f
    using assms unfolding files_inv_def part_only_def by metis
  ultimately show ?thesis unfolding files_inv_def spec by blast
qed

lemma part_only_finish: "part_only s (finish st er s)"
  by (rule part_only_same) (simp_all add: frame_simps)

lemma part_only_schedule: "part_only s (schedule_retry h s)"
  by (rule part_only_same) (simp_all add: schedule_retry_def)

lemma part_only_quiet:
  "part_only s (on_header_line status line s)" "part_only s (snd (read_callback n s))"
  "part_only s (snd (seek_callback off origin s))" "part_only s (store_curl_error text s)"
  "part_only s (snd (progress_callback h a b c d s))" "part_only s (snd (write_memory data s))"
  "part_only s (snd (on_stream_consumed bytes s))" "part_only s (flush_stream s)"
  "part_only s (snd (write_stream data s))"
  by (auto intro!: part_only_same simp: on_header_line_def on_headers_complete_def read_callback_def
      seek_callback_def store_curl_error_def progress_callback_def post_progress_def write_memory_def
      on_stream_consumed_def write_stream_def Let_def frame_simps split: option.split prod.split)

lemma fwrite_other: "p \<noteq> fh_path f \<Longrightarrow> snd (fwrite h data f fs) p = fs p"
  by (simp add: fwrite_def Let_def split: option.split)

lemma fopen_wb_other: "p \<noteq> path \<Longrightarrow> snd (fopen_wb h path fs) p = fs p"
  by (simp add: fopen_wb_def)

lemma fopen_wb_path: "fst (fopen_wb h path fs) = Some f \<Longrightarrow> fh_path f = path"
  by (auto simp: fopen_wb_def split: if_splits)

lemma fclose_output_other:
  assumes "\<And>f. file = Some f \<Longrightarrow> fh_path f = path" and "p \<noteq> path"
  shows "fclose_output file fs p = fs p"
  using assms by (auto simp: fclose_output_def fclose_other split: option.split)

lemma freopen_wb_other:
  "(\<And>f. file = Some f \<Longrightarrow> fh_path f = path) \<Longrightarrow> p \<noteq> path \<Longrightarrow> snd (freopen_wb h path file fs) p = fs p"
  by (simp add: freopen_wb_def fopen_wb_other fclose_output_other)

lemma freopen_wb_path: "fst (freopen_wb h path file fs) = Some f \<Longrightarrow> fh_path f = path"
  by (simp add: freopen_wb_def fopen_wb_path)

lemma part_only_restart:
  assumes "spec_outputPath (m_spec s) \<noteq> []" "m_partPath s = part_name (m_spec s)"
    and "\<forall>f. m_outputFile s = Some f \<longrightarrow> fh_path f = part_name (m_spec s)"
  shows "part_only s (s\<lparr>m_restartedFullBody := True, m_resumeOffset := 0,
      m_outputFile := fst (freopen_wb h (m_partPath s) (m_outputFile s) (io_files s)),
      io_files := snd (freopen_wb h (m_partPath s) (m_outputFile s) (io_files s))\<rparr>)"
  using assms freopen_wb_other [of "m_outputFile s" "part_name (m_spec s)" _ h "io_files s"]
    freopen_wb_path [of h "part_name (m_spec s)" "m_outputFile s" "io_files s"]
  by (auto simp: part_only_def)

lemma part_only_fwrite:
  assumes "spec_outputPath (m_spec s) \<noteq> []" "fh_path f = part_name (m_spec s)"
  shows "part_only s (s\<lparr>io_files := snd (fwrite h data f (io_files s)), m_bodyLength := n\<rparr>)"
  using assms fwrite_other [of _ f h data "io_files s"] by (auto simp: part_only_def)

lemma part_only_write_file:
  assumes out: "spec_outputPath (m_spec s) \<noteq> []" and path: "m_partPath s = part_name (m_spec s)"
    and handle: "\<forall>f. m_outputFile s = Some f \<longrightarrow> fh_path f = part_name (m_spec s)"
  shows "part_only s (snd (write_file h st data s))"
proof -
  define R where "R = (st = 200 \<and> m_resumeOffset s > 0 \<and> \<not> m_restartedFullBody s)"
  define s1 where "s1 = (if R then s\<lparr>m_restartedFullBody := True, m_resumeOffset := 0,
      m_outputFile := fst (freopen_wb h (m_partPath s) (m_outputFile s) (io_files s)),
      io_files := snd (freopen_wb h (m_partPath s) (m_outputFile s) (io_files s))\<rparr> else s)"
  have s1: "part_only s s1" using part_only_restart [OF out path handle] by (simp add: s1_def)
  have spec: "m_spec s1 = m_spec s" by (simp add: s1_def)
  have h1: "fh_path f = part_name (m_spec s)" if "m_outputFile s1 = Some f" for f
    using s1 handle that unfolding part_only_def by metis
  have "part_only s1 (s1\<lparr>io_files := snd (fwrite h data f (io_files s1)), m_bodyLength := n\<rparr>)"
    if "m_outputFile s1 = Some f" for f n
    using out h1 [OF that] spec by (intro part_only_fwrite) simp_all
  with s1 show ?thesis
    unfolding write_file_eq R_def [symmetric] Let_def s1_def [symmetric]
    by (auto split: option.split intro: part_only_trans)
qed

lemma files_open_output:
  assumes "spec_outputPath (m_spec s) = [] \<Longrightarrow> m_outputFile s = None"
  shows "part_only s (snd (open_output_file h s))"
  using assms
  by (auto simp: open_output_file_def part_only_def part_name_def fopen_ab_def fopen_wb_def Let_def
      split: if_splits option.splits)

lemma part_only_open_files:
  assumes "spec_outputPath (m_spec s) = [] \<Longrightarrow> m_outputFile s = None"
  shows "part_only s (snd (open_files h s))"
proof -
  let ?u = "snd (open_upload_file h s)"
  have u: "part_only s ?u" "m_outputFile ?u = m_outputFile s" "m_spec ?u = m_spec s"
    by (auto intro!: part_only_same simp: open_upload_file_def Let_def)
  then have "part_only ?u (snd (open_output_file h ?u))" using assms by (intro files_open_output) simp
  with u(1) show ?thesis by (simp add: open_files_eq part_only_trans)
qed

lemma part_only_begin:
  assumes "spec_outputPath (m_spec s) = [] \<Longrightarrow> m_outputFile s = None"
  shows "part_only s (snd (begin_attempt h s))"
proof -
  let ?b = "(attempt_base s)\<lparr>m_easy := Some []\<rparr>"
  have b: "part_only s (attempt_base s)" "part_only s ?b" "part_only s ((attempt_base s)\<lparr>m_easy := None\<rparr>)"
    by (auto intro!: part_only_same simp: frame_simps)
  have o: "part_only s s3" if "open_files h ?b = (ok, s3)" for ok s3
  proof -
    have "part_only ?b (snd (open_files h ?b))" using assms by (intro part_only_open_files) (simp add: frame_simps)
    with b(2) that show ?thesis by (auto intro: part_only_trans)
  qed
  have c: "part_only s3 (configure_handle h s3)" "part_only s3 ((configure_handle h s3)\<lparr>m_attached := True\<rparr>)" for s3
    by (auto intro!: part_only_same simp: frame_simps)
  show ?thesis
  proof (cases rule: begin_attempt_cases [of s h])
    case (no_file s3)
    with o [OF no_file(2)] show ?thesis by (auto intro: part_only_trans part_only_finish)
  next
    case (not_added s3 error)
    with part_only_trans [OF o [OF not_added(2)] c(1)] show ?thesis
      by (auto intro: part_only_trans part_only_finish)
  next
    case (attached s3)
    with part_only_trans [OF o [OF attached(2)] c(2)] show ?thesis by simp
  qed (use b in \<open>auto intro: part_only_trans part_only_finish\<close>)
qed

lemma part_only_transport: "part_only s (handle_transport_failure h code txt s)"
  by (simp add: handle_transport_failure_def Let_def part_only_finish part_only_schedule)

lemma part_only_http_failure:
  assumes "m_partPath s = [] \<or> spec_outputPath (m_spec s) \<noteq> [] \<and> m_partPath s = part_name (m_spec s)"
  shows "part_only s (handle_http_failure h s)"
proof -
  have u: "part_only s (s\<lparr>io_files := unlink_file h (m_partPath s) (io_files s)\<rparr>)" if "m_partPath s \<noteq> []"
    using assms that by (auto simp: part_only_def unlink_file_def)
  show ?thesis
    by (auto simp: handle_http_failure_def Let_def part_only_schedule
        intro: part_only_finish part_only_trans [OF u part_only_finish])
qed

text \<open>Closing the files, with whatever else is released, changes at most the part file.\<close>

lemma part_only_closed:
  assumes "files_inv fs s"
    and "m_spec t = m_spec s" "m_partPath t = m_partPath s" "m_outputFile t = None"
    and "io_files t = fclose_output (m_outputFile s) (io_files s)"
  shows "part_only s t"
proof (cases "m_outputFile s")
  case None
  with assms show ?thesis by (intro part_only_same) (simp_all add: fclose_output_def)
next
  case (Some f)
  have "io_files t p = io_files s p" if "p \<noteq> part_name (m_spec s)" for p
    using that assms(5) files_invD(2) [OF assms(1) Some] by (simp add: Some fclose_output_def fclose_other)
  then show ?thesis using assms(2-4) files_invD(2) [OF assms(1) Some] by (auto simp: part_only_def)
qed

lemma files_done_base: "files_inv fs s \<Longrightarrow> part_only s (done_base h s)"
  by (rule part_only_closed) (simp_all add: frame_simps, simp add: done_base_def release_curl_def close_files_def)

lemma files_success:
  assumes inv: "files_inv fs t" and nf: "\<not> m_finished t" and q: "mq_enabled (io_queue t)"
    and path: "spec_outputPath (m_spec t) \<noteq> [] \<Longrightarrow> m_partPath t = part_name (m_spec t)"
  shows "files_inv fs (handle_http_success h t)"
proof (cases "spec_outputPath (m_spec t) = []")
  case True
  have "part_only t (finish RestStatus_Ok [] (flush_stream t))"
    by (rule part_only_trans [OF part_only_quiet(8) part_only_finish])
  with inv nf True show ?thesis by (simp add: handle_http_success_def files_inv_part_only)
next
  case False
  note out = this
  obtain ok gs where r: "rename_file h (m_partPath t) (spec_outputPath (m_spec t)) (io_files t) = (ok, gs)"
    by (cases "rename_file h (m_partPath t) (spec_outputPath (m_spec t)) (io_files t)")
  show ?thesis
  proof (cases ok)
    case False
    with r out inv nf show ?thesis
      by (auto simp: handle_http_success_def finalize_download_def
          intro!: files_inv_part_only [OF inv part_only_finish])
  next
    case True
    let ?t = "t\<lparr>io_files := gs\<rparr>"
    have g: "gs p = io_files t p" if "p \<noteq> part_name (m_spec t)" "p \<noteq> spec_outputPath (m_spec t)" for p
      using r True path [OF out] that by (auto simp: rename_file_def split: option.splits if_splits)
    have "handle_http_success h t = finish RestStatus_Ok [] ?t"
      using r out True by (simp add: handle_http_success_def finalize_download_def)
    moreover have "files_inv fs (finish RestStatus_Ok [] ?t)"
      using inv nf q out g by (auto simp: files_inv_def frame_simps last_posted_finish)
    ultimately show ?thesis by simp
  qed
qed

lemma files_done:
  assumes inv: "files_inv fs s" and d: "delivery_inv s w" "life_inv s" "event_inv s"
    and en: "job_enabled (InDone h code) s w"
  shows "files_inv fs (on_attempt_done h code s)"
proof -
  let ?t = "done_base h s"
  have nf: "\<not> m_finished ?t" "\<not> m_finished s" using d(2) en by (auto simp: life_inv_def frame_simps)
  have inv': "files_inv fs ?t" by (rule files_inv_part_only [OF inv files_done_base [OF inv] nf(2)])
  have q: "mq_enabled (io_queue ?t)" using d(3) by (simp add: event_inv_def frame_simps)
  have path: "spec_outputPath (m_spec ?t) \<noteq> [] \<Longrightarrow> m_partPath ?t = part_name (m_spec ?t)"
    using d(1) en by (simp add: delivery_inv_def part_inv_def frame_simps)
  have fail: "files_inv fs (handle_http_failure h ?t)"
    by (rule files_inv_part_only [OF inv' part_only_http_failure [OF files_invD(1) [OF inv']] nf(1)])
  show ?thesis
    using fail files_success [OF inv' nf(1) q path] files_inv_part_only [OF inv' part_only_transport nf(1)]
      files_inv_part_only [OF inv' part_only_finish nf(1)]
    by (simp add: on_attempt_done_eq Let_def)
qed

lemma files_step:
  assumes inv: "files_inv fs s" and d: "delivery_inv s w" "life_inv s" "event_inv s"
    and en: "job_enabled i s w"
  shows "files_inv fs (job_step i s)"
proof -
  have out: "spec_outputPath (m_spec s) = [] \<Longrightarrow> m_outputFile s = None"
    using inv by (cases "m_outputFile s") (auto simp: files_inv_def)
  show ?thesis
  proof (cases i)
    case (InBegin h)
    then show ?thesis using en files_inv_part_only [OF inv part_only_begin [OF out]] by simp
  next
    case (InWrite h st data)
    have nf: "\<not> m_finished s" using en InWrite d(2) by (simp add: life_inv_def)
    have "part_only s (snd (write_callback h st data s))"
    proof (cases "sink_for s st")
      case Sink_File
      then have "spec_outputPath (m_spec s) \<noteq> []" by (simp add: sink_file_iff)
      moreover from this have "m_partPath s = part_name (m_spec s)"
        using d(1) en InWrite by (simp add: delivery_inv_def part_inv_def)
      ultimately show ?thesis using files_invD(2) [OF inv] Sink_File
        by (simp add: write_callback_def part_only_write_file)
    qed (simp_all add: write_callback_def part_only_quiet)
    with inv nf InWrite show ?thesis by (simp add: files_inv_part_only)
  next
    case (InDone h code)
    with files_done [OF inv d] en show ?thesis by simp
  next
    case InCancel
    have "part_only s (cancel s)"
      unfolding cancel_def
      by (rule part_only_trans [OF part_only_closed part_only_finish], rule inv)
        (simp_all add: close_files_def release_curl_def)
    with en InCancel inv show ?thesis by (simp add: files_inv_part_only)
  qed (use en attached_not_finished [OF d(2)] in \<open>auto intro!: files_inv_part_only [OF inv] simp: part_only_quiet\<close>)
qed

lemma reach_files: "job_reach spec fs s w \<Longrightarrow> files_inv fs s"
proof (induction rule: job_reach.induct)
  case (start spec fs)
  show ?case by (simp add: files_inv_def job_start_def job_ctx_of_def new_job_def rest_job.extend_def)
next
  case (step spec fs s w i)
  then show ?case using reach_inv reach_delivery files_step by blast
next
  case (others spec fs s w files)
  have "m_spec s = spec" by (rule reach_spec [OF others.hyps(1)])
  with others show ?case by (auto simp: files_inv_def own_path_def part_name_def)
qed

section \<open>What a job holds\<close>

text \<open>
  What a job holds outside of its own memory: the libcurl handle, the form and the two files. The
  members are overwritten when an attempt begins, and a job is destroyed once it has finished.
\<close>

definition holds_nothing :: "'a rest_job_scheme \<Rightarrow> bool" where
  "holds_nothing s \<longleftrightarrow> m_easy s = None \<and> m_mime s = None \<and> m_uploadFile s = None \<and> m_outputFile s = None"

definition resources_inv :: "job_ctx \<Rightarrow> bool" where
  "resources_inv s \<longleftrightarrow> m_attached s \<or> m_finished s \<or> holds_nothing s"

lemma begin_settles: "m_attached (snd (begin_attempt h s)) \<or> m_finished (snd (begin_attempt h s))"
  by (cases rule: begin_attempt_cases [of s h]) simp_all

lemma done_base_holds: "m_easy s \<noteq> None \<Longrightarrow> holds_nothing (done_base h s)"
  by (cases "m_easy s") (simp_all add: done_base_def holds_nothing_def release_curl_def close_files_def capture_attempt_info_def)

lemma done_settles:
  assumes "m_easy s \<noteq> None"
  shows "m_finished (on_attempt_done h code s) \<or> holds_nothing (on_attempt_done h code s)"
proof -
  have "holds_nothing (schedule_retry h t) = holds_nothing t" for t :: job_ctx
    by (simp add: schedule_retry_def holds_nothing_def)
  then show ?thesis
    using done_base_holds [OF assms, of h]
    by (auto simp: on_attempt_done_eq Let_def handle_transport_failure_def handle_http_failure_def
        handle_http_success_def split: prod.split)
qed

lemma consumed_holds: "holds_nothing (snd (on_stream_consumed bytes s)) = holds_nothing s"
  by (simp add: on_stream_consumed_def holds_nothing_def Let_def)

lemma quiet_attached:
  "m_attached s \<Longrightarrow> job_enabled i s w \<Longrightarrow> m_attached (job_step i s) \<or> m_finished (job_step i s) \<or> (\<exists>h code. i = InDone h code)"
  using same_life_quiet begin_settles by (cases i) (auto simp: same_life_def cancel_def)

lemma reach_resources: "job_reach spec fs s w \<Longrightarrow> resources_inv s"
proof (induction rule: job_reach.induct)
  case (start spec fs)
  show ?case
    by (simp add: resources_inv_def holds_nothing_def job_start_def job_ctx_of_def new_job_def rest_job.extend_def)
next
  case (step spec fs s w i)
  have life: "life_inv s" using reach_inv [OF step.hyps(1)] by blast
  show ?case
  proof (cases "m_attached s")
    case True
    then have "m_easy s \<noteq> None" using life by (simp add: life_inv_def)
    then have d: "m_finished (on_attempt_done h code s) \<or> holds_nothing (on_attempt_done h code s)" for h code
      by (rule done_settles)
    from quiet_attached [OF True step.hyps(2)] show ?thesis
    proof (elim disjE exE)
      fix h code
      assume "i = InDone h code"
      then show ?thesis using d [of h code] by (auto simp: resources_inv_def)
    qed (simp_all add: resources_inv_def)
  next
    case False
    then show ?thesis
      using step.hyps(2) step.IH begin_settles
      by (cases i) (auto simp: resources_inv_def consumed_holds cancel_def life_inv_def)
  qed
next
  case (others spec fs s w files)
  then show ?case by (simp add: resources_inv_def holds_nothing_def)
qed

text \<open>Closing the files of a job that is not finished loses nothing that fits on the device.\<close>

lemma closing_keeps_files:
  assumes "job_reach spec fs s w" and "\<not> m_finished s" and "length (wr_taken w) \<le> wr_room w"
  shows "fclose_output (m_outputFile s) (io_files s) = io_files s"
proof (cases "m_outputFile s")
  case None
  then show ?thesis by (simp add: fclose_output_def)
next
  case (Some f)
  have "m_attached s"
    using reach_resources [OF assms(1)] assms(2) Some by (auto simp: resources_inv_def holds_nothing_def)
  moreover have "spec_outputPath (m_spec s) \<noteq> []" using files_invD(2) [OF reach_files [OF assms(1)] Some] by simp
  ultimately have f: "io_files s (fh_path f) = Some (wr_base w @ part_bytes w)"
      "fh_limit f = length (wr_base w) + wr_room w"
    using reach_delivery [OF assms(1)] Some by (auto simp: delivery_inv_def part_inv_def)
  have "length (part_bytes w) \<le> wr_room w" using assms(3) by (simp add: part_bytes_def split: option.split)
  with f show ?thesis by (simp add: Some fclose_output_def fclose_some fun_upd_idem)
qed

end
