(* ===== verification/Rest_Demo.thy ===== *)
theory Rest_Demo
  imports Rest_Files
begin

text \<open>
  Concrete executions of the job machine, for the properties that have hypotheses: a streamed
  request, a resumed download and a busy server. \<open>BeginAttempt\<close> is evaluated by its general lemma
  for an attempt that the environment does not hinder, the rest by rewriting.
\<close>

section \<open>An attempt that the environment does not hinder\<close>

definition opened_state :: "host \<Rightarrow> job_ctx \<Rightarrow> job_ctx" where
  "opened_state h s = snd (open_files h ((attempt_base s)\<lparr>m_easy := Some []\<rparr>))"

definition begun_state :: "host \<Rightarrow> job_ctx \<Rightarrow> job_ctx" where
  "begun_state h s = (configure_handle h (opened_state h s))\<lparr>m_attached := True\<rparr>"

lemma begin_attempt_ok:
  assumes "\<not> m_cancelRequested s" "h_easy_init h" "h_multi_add h = None"
    and "fst (open_files h ((attempt_base s)\<lparr>m_easy := Some []\<rparr>))"
  shows "begin_attempt h s = (True, begun_state h s)"
  using assms by (cases rule: begin_attempt_cases [of s h]) (simp_all add: begun_state_def opened_state_def)

lemma opened_frame [frame_simps]:
  "m_spec (opened_state h s) = m_spec s" "m_attempt (opened_state h s) = m_attempt s + 1"
  "m_finished (opened_state h s) = m_finished s" "m_easy (opened_state h s) = Some []"
  "m_cancelRequested (opened_state h s) = m_cancelRequested s" "m_paused (opened_state h s) = False"
  "m_pendingStreamBytes (opened_state h s) = 0" "m_streamBuffer (opened_state h s) = []"
  "m_bodyLength (opened_state h s) = 0" "m_responseBody (opened_state h s) = []"
  "m_restartedFullBody (opened_state h s) = False" "io_queue (opened_state h s) = io_queue s"
  "m_waitingForRetry (opened_state h s) = False"
  by (simp_all add: opened_state_def frame_simps)

lemma begun_frame [frame_simps]:
  "m_spec (begun_state h s) = m_spec s" "m_attempt (begun_state h s) = m_attempt s + 1"
  "m_finished (begun_state h s) = m_finished s" "m_attached (begun_state h s)"
  "m_cancelRequested (begun_state h s) = m_cancelRequested s" "m_paused (begun_state h s) = False"
  "m_pendingStreamBytes (begun_state h s) = 0" "m_streamBuffer (begun_state h s) = []"
  "m_bodyLength (begun_state h s) = 0" "m_responseBody (begun_state h s) = []"
  "m_restartedFullBody (begun_state h s) = False" "io_queue (begun_state h s) = io_queue s"
  "m_waitingForRetry (begun_state h s) = False"
  "m_outputFile (begun_state h s) = m_outputFile (opened_state h s)"
  "io_files (begun_state h s) = io_files (opened_state h s)"
  "m_partPath (begun_state h s) = m_partPath (opened_state h s)"
  "m_resumeOffset (begun_state h s) = m_resumeOffset (opened_state h s)"
  by (simp_all add: begun_state_def frame_simps)

section \<open>Concrete runs\<close>

definition demo_stream :: request_spec where
  "demo_stream = request_spec_default\<lparr>spec_id := 7, spec_url := ''http://h/s'', spec_streamData := True\<rparr>"

definition demo_download :: request_spec where
  "demo_download = request_spec_default
     \<lparr>spec_id := 8, spec_url := ''http://h/f'', spec_outputPath := ''out'', spec_resume := True\<rparr>"

definition demo_files :: file_system where
  "demo_files = Map.empty(''out.part'' \<mapsto> ''ab'', ''other'' \<mapsto> ''x'')"

definition partial_host :: host where
  "partial_host = host_default\<lparr>h_response_code := 206\<rparr>"

definition busy_host :: host where
  "busy_host = host_default\<lparr>h_response_code := 503\<rparr>"

abbreviation stream_start :: job_ctx where
  "stream_start \<equiv> job_start demo_stream demo_files"

abbreviation download_start :: job_ctx where
  "download_start \<equiv> job_start demo_download demo_files"

lemma start_fields:
  "m_spec (job_start spec fs) = spec" "m_attempt (job_start spec fs) = 0"
  "m_finished (job_start spec fs) = False" "m_cancelRequested (job_start spec fs) = False"
  "io_queue (job_start spec fs) = queue_default" "m_attached (job_start spec fs) = False"
  by (simp_all add: job_start_def job_ctx_of_def new_job_def rest_job.extend_def)

lemma demo_opens:
  "fst (open_files host_default ((attempt_base stream_start)\<lparr>m_easy := Some []\<rparr>))"
  "fst (open_files partial_host ((attempt_base download_start)\<lparr>m_easy := Some []\<rparr>))"
  "fst (open_files busy_host ((attempt_base stream_start)\<lparr>m_easy := Some []\<rparr>))"
  by code_simp+

lemma demo_hosts:
  "h_easy_init host_default" "h_easy_init partial_host" "h_easy_init busy_host"
  "h_multi_add host_default = None" "h_multi_add partial_host = None" "h_multi_add busy_host = None"
  "h_response_code host_default = 200" "h_response_code partial_host = 206"
  "h_response_code busy_host = 503" "h_write_room partial_host = 4096" "h_device_room partial_host = 16"
  "h_can_rename partial_host"
  by (simp_all add: host_default_def partial_host_def busy_host_def)

lemma demo_begins:
  "begin_attempt host_default stream_start = (True, begun_state host_default stream_start)"
  "begin_attempt partial_host download_start = (True, begun_state partial_host download_start)"
  "begin_attempt busy_host stream_start = (True, begun_state busy_host stream_start)"
  by (rule begin_attempt_ok; simp add: start_fields demo_hosts demo_opens)+

lemma demo_opened:
  "m_outputFile (opened_state partial_host download_start) = Some \<lparr>fh_path = ''out.part'', fh_pos = 0, fh_limit = 18\<rparr>"
  "io_files (opened_state partial_host download_start) ''out.part'' = Some ''ab''"
  "m_resumeOffset (opened_state partial_host download_start) = 2"
  by code_simp+

lemma demo_specs:
  "spec_outputPath demo_stream = []" "spec_streamData demo_stream" "spec_outputPath demo_download = ''out''"
  "cfg_chunkSize (spec_config demo_stream) = 16384" "cfg_maxRetries (spec_config demo_stream) = 3"
  by (simp_all add: demo_stream_def demo_download_def request_spec_default_def client_config_default_def)

lemma demo_download_write:
  "write_callback partial_host 206 ''cd'' (begun_state partial_host download_start) =
     (Wrote 2, (begun_state partial_host download_start)
        \<lparr>io_files := (io_files (begun_state partial_host download_start))(''out.part'' \<mapsto> ''abcd''),
         m_bodyLength := 2\<rparr>)"
  using write_file_plain [of 206 "begun_state partial_host download_start" "\<lparr>fh_path = ''out.part'', fh_pos = 0, fh_limit = 18\<rparr>"
      "''ab''" partial_host "''cd''"]
  by (simp add: write_callback_def sink_for_def is_success_def frame_simps start_fields demo_opened demo_hosts demo_specs)

lemma demo_stream_write:
  "fst (write_callback host_default 200 ''abc'' (begun_state host_default stream_start)) = Wrote 3"
  by (simp add: write_callback_def sink_for_def is_success_def frame_simps start_fields demo_specs
      write_stream_def kStreamHighWater_def Let_def)

definition download_inputs :: "job_input list" where
  "download_inputs = [InBegin partial_host, InWrite partial_host 206 ''cd'', InDone partial_host CURLE_OK]"

definition stream_inputs :: "job_input list" where
  "stream_inputs = [InBegin host_default, InWrite host_default 200 ''abc'']"

definition demo_run :: "request_spec \<Rightarrow> job_input list \<Rightarrow> job_ctx \<times> wire" where
  "demo_run spec is = job_run is (job_start spec demo_files, wire_start)"

lemma demo_run_reach:
  "job_run_enabled is (job_start spec demo_files, wire_start) \<Longrightarrow>
     job_reach spec demo_files (fst (demo_run spec is)) (snd (demo_run spec is))"
  unfolding demo_run_def by (rule job_run_reach [OF job_reach.start])

lemma download_enabled: "job_run_enabled download_inputs (download_start, wire_start)"
  by (simp add: download_inputs_def start_fields demo_begins frame_simps demo_download_write demo_hosts Let_def)

lemma stream_enabled: "job_run_enabled stream_inputs (stream_start, wire_start)"
  by (simp add: stream_inputs_def start_fields demo_begins frame_simps Let_def)

lemmas download_reach = demo_run_reach [OF download_enabled]
lemmas stream_reach = demo_run_reach [OF stream_enabled]

lemma download_ends:
  "m_finished (fst (demo_run demo_download download_inputs)) \<and>
   ev_status (last (posted (fst (demo_run demo_download download_inputs)))) = RestStatus_Ok"
proof -
  let ?t = "done_base partial_host ((begun_state partial_host download_start)
        \<lparr>io_files := (io_files (begun_state partial_host download_start))(''out.part'' \<mapsto> ''abcd''),
         m_bodyLength := 2\<rparr>)"
  have r: "fst (demo_run demo_download download_inputs) = handle_http_success partial_host ?t"
    by (simp add: demo_run_def download_inputs_def demo_begins demo_download_write on_attempt_done_eq
        frame_simps start_fields Let_def demo_hosts is_success_def)
  have "m_partPath (opened_state partial_host download_start) = ''out.part''" by code_simp
  then show ?thesis unfolding r
    by (simp add: handle_http_success_def finalize_download_def rename_file_def frame_simps start_fields
        demo_specs demo_opened demo_hosts fclose_output_def fclose_some last_posted_finish queue_default_def)
qed

end
