(* ===== verification/Rest_Guarantees.thy ===== *)
theory Rest_Guarantees
  imports Rest_Demo
begin

text \<open>
  What a job guarantees, over every sequence of calls the transfer thread and libcurl can make
  (\<open>job_reach\<close>): the properties of the job machine.
\<close>

section \<open>Completion\<close>

text \<open>
  C2: Exactly-once completion. In every reachable state a job that is not finished has posted no
  \<open>Complete\<close> event; a finished one has posted exactly one, as its last event; and every event it
  ever posted carries the job's own id.
\<close>

theorem complete_exactly_once:
  assumes "job_reach spec fs s w"
  shows "(\<forall>e \<in> set (posted s). ev_jobId e = spec_id spec) \<and>
    (if m_finished s
     then \<exists>es e. posted s = es @ [e] \<and> ev_kind e = Kind_Complete \<and> completes es = []
     else completes (posted s) = [])"
  using reach_inv [OF assms] reach_spec [OF assms] by (simp add: event_inv_def)

lemma complete_exactly_once_witness:
  "m_finished (fst (demo_run demo_download download_inputs)) \<and>
   (\<exists>es e. posted (fst (demo_run demo_download download_inputs)) = es @ [e] \<and>
      ev_kind e = Kind_Complete \<and> completes es = [])"
  using complete_exactly_once [OF download_reach] download_ends by simp

text \<open>
  C1: What \<open>Ok\<close> means. A job that finished with status \<open>Ok\<close> got a 2xx response, no write was cut
  short, and the body length it reports is the number of bytes libcurl delivered. For a streamed
  request those bytes are, byte for byte and in order, in its data events; for a request without an
  output path they are the body of the event, within the configured limit. For a download the part
  file is gone and the output file holds what the part file held when the attempt began, followed by
  the delivered bytes as far as the device took them. What the part file held counts only for a
  request that resumes, and a full response (200) with a body replaces it; but a 2xx response without
  a body to a resumed request leaves it, so that the old content alone becomes the output file. And
  what the device did not take when the file was closed is missing although the status is \<open>Ok\<close>,
  because the result of \<open>fclose\<close> is ignored; when everything fits (\<open>wr_room\<close>), nothing is missing.
\<close>

theorem ok_delivers_exactly:
  assumes "job_reach spec fs s w" and "m_finished s" and "ev_status (last (posted s)) = RestStatus_Ok"
  shows "ev_bodyLength (last (posted s)) = int (length (wr_taken w)) \<and>
    is_success (ev_httpStatus (last (posted s))) \<and> \<not> wr_aborted w \<and>
    (if spec_outputPath spec \<noteq> []
     then io_files s (spec_outputPath spec) = Some (wr_base w @ take (wr_room w) (wr_taken w)) \<and>
          io_files s (spec_outputPath spec @ ''.part'') = None \<and>
          (wr_base w \<noteq> [] \<longrightarrow>
             spec_resume spec \<and> (ev_httpStatus (last (posted s)) = 200 \<longrightarrow> wr_taken w = []))
     else if spec_streamData spec then data_bytes (posted s) = wr_taken w
     else ev_body (last (posted s)) = wr_taken w \<and>
          int (length (wr_taken w)) \<le> to_u32 (cfg_maxBodySize (spec_config spec)))"
proof -
  have d: "ok_delivered s w" and spec: "m_spec s = spec"
    using reach_delivery [OF assms(1)] reach_spec [OF assms(1)] assms(2,3) by (simp_all add: delivery_inv_def)
  then have "spec_outputPath spec = [] \<Longrightarrow> \<not> spec_streamData spec \<Longrightarrow>
      memory_cap s = nat (to_u32 (cfg_maxBodySize (spec_config spec)))"
    by (simp add: memory_cap_def)
  moreover have "0 \<le> to_u32 (cfg_maxBodySize (spec_config spec))" by (simp add: to_u32_def)
  ultimately show ?thesis using d spec by (auto simp: ok_delivered_def part_name_def le_nat_iff)
qed

lemma ok_delivers_exactly_witness:
  "io_files (fst (demo_run demo_download download_inputs)) ''out'' =
     Some (wr_base (snd (demo_run demo_download download_inputs)) @
           take (wr_room (snd (demo_run demo_download download_inputs)))
             (wr_taken (snd (demo_run demo_download download_inputs))))"
  using ok_delivers_exactly [OF download_reach download_ends [THEN conjunct1] download_ends [THEN conjunct2]]
  by (simp add: demo_specs)

section \<open>The verdict on an attempt\<close>

text \<open>The failures that are final whatever retries are left.\<close>

fun final_failure :: "curl_code \<Rightarrow> rest_status option" where
  "final_failure CURLE_ABORTED_BY_CALLBACK = Some RestStatus_Cancelled"
| "final_failure CURLE_WRITE_ERROR = Some RestStatus_IoError"
| "final_failure CURLE_READ_ERROR = Some RestStatus_IoError"
| "final_failure CURLE_SSL_CACERT_BADFILE = Some RestStatus_NetworkError"
| "final_failure CURLE_PEER_FAILED_VERIFICATION = Some RestStatus_NetworkError"
| "final_failure CURLE_TOO_MANY_REDIRECTS = Some RestStatus_NetworkError"
| "final_failure CURLE_URL_MALFORMAT = Some RestStatus_NetworkError"
| "final_failure CURLE_UNSUPPORTED_PROTOCOL = Some RestStatus_NetworkError"
| "final_failure _ = None"

definition worth_retrying :: "curl_code \<Rightarrow> int \<Rightarrow> bool" where
  "worth_retrying code http \<longleftrightarrow>
     (if code = CURLE_OK then http \<in> {429, 502, 503, 504} else final_failure code = None)"

definition verdict :: "curl_code \<Rightarrow> int \<Rightarrow> bool \<Rightarrow> bool \<Rightarrow> rest_status" where
  "verdict code http tooLarge renamed =
     (if code = CURLE_OK then
        (if 200 \<le> http \<and> http < 300 then (if renamed then RestStatus_Ok else RestStatus_IoError)
         else RestStatus_HttpError)
      else if code = CURLE_WRITE_ERROR \<and> tooLarge then RestStatus_TooLarge
      else case final_failure code of
             Some status \<Rightarrow> status
           | None \<Rightarrow> if code = CURLE_OPERATION_TIMEDOUT then RestStatus_Timeout else RestStatus_NetworkError)"

lemma final_failure_cases:
  "final_failure code = None \<longleftrightarrow>
     code \<notin> {CURLE_ABORTED_BY_CALLBACK, CURLE_WRITE_ERROR, CURLE_READ_ERROR, CURLE_SSL_CACERT_BADFILE,
       CURLE_PEER_FAILED_VERIFICATION, CURLE_TOO_MANY_REDIRECTS, CURLE_URL_MALFORMAT,
       CURLE_UNSUPPORTED_PROTOCOL}"
  by (cases code) auto

lemma judged_can_retry: "can_retry (done_base h s) = can_retry s"
  by (simp add: can_retry_def frame_simps)

lemma finish_status:
  "\<not> m_finished t \<Longrightarrow> mq_enabled (io_queue t) \<Longrightarrow> ev_status (last (posted (finish st er t))) = st"
  by (simp add: last_posted_finish)

lemma transport_verdict:
  assumes "\<not> m_finished t" "\<not> m_waitingForRetry t" "mq_enabled (io_queue t)" "code \<noteq> CURLE_OK"
  shows "if final_failure code = None \<and> can_retry t
    then handle_transport_failure h code msg t = schedule_retry h t
    else m_finished (handle_transport_failure h code msg t) \<and>
      ev_status (last (posted (handle_transport_failure h code msg t))) = verdict code http (m_tooLarge t) ren"
  using assms by (cases code)
    (simp_all add: handle_transport_failure_def verdict_def Let_def last_posted_finish)

lemma http_failure_verdict:
  assumes "\<not> m_finished t" "\<not> m_waitingForRetry t" "mq_enabled (io_queue t)"
    and "\<not> is_success (m_httpStatus t)"
  shows "if m_httpStatus t \<in> {429, 502, 503, 504} \<and> can_retry t
    then handle_http_failure h t = schedule_retry h t
    else m_finished (handle_http_failure h t) \<and>
      ev_status (last (posted (handle_http_failure h t))) = RestStatus_HttpError"
  using assms by (simp add: handle_http_failure_def should_retry_status_def Let_def last_posted_finish)

lemma http_success_verdict:
  assumes "\<not> m_finished t" "mq_enabled (io_queue t)"
    and "spec_outputPath (m_spec t) \<noteq> [] \<Longrightarrow> io_files t (m_partPath t) \<noteq> None"
  shows "m_finished (handle_http_success h t) \<and>
    ev_status (last (posted (handle_http_success h t))) =
      (if spec_outputPath (m_spec t) = [] \<or> h_can_rename h then RestStatus_Ok else RestStatus_IoError)"
proof (cases "spec_outputPath (m_spec t) = []")
  case True
  with assms show ?thesis by (simp add: handle_http_success_def last_posted_finish frame_simps)
next
  case False
  then obtain c where "io_files t (m_partPath t) = Some c" using assms(3) by auto
  with assms(1,2) False show ?thesis
    by (simp add: handle_http_success_def finalize_download_def rename_file_def last_posted_finish)
qed

lemma attempt_judged:
  assumes "job_reach spec fs s w" and "job_enabled (InDone h code) s w"
  shows "if worth_retrying code (h_response_code h) \<and> can_retry s
    then m_waitingForRetry (on_attempt_done h code s) \<and> \<not> m_finished (on_attempt_done h code s) \<and>
      posted (on_attempt_done h code s) = posted s
    else m_finished (on_attempt_done h code s) \<and>
      ev_status (last (posted (on_attempt_done h code s))) =
        verdict code (h_response_code h) (m_tooLarge s)
          (spec_outputPath spec = [] \<or> h_can_rename h)"
proof -
  let ?t = "done_base h s"
  have inv: "delivery_inv s w" "life_inv s" "event_inv s" and spec: "m_spec s = spec"
    using reach_delivery [OF assms(1)] reach_inv [OF assms(1)] reach_spec [OF assms(1)] by simp_all
  have a: "\<not> m_finished ?t" "\<not> m_waitingForRetry ?t" "mq_enabled (io_queue ?t)" "\<not> m_cancelRequested s"
    using inv(2,3) assms(2) by (auto simp: life_inv_def event_inv_def frame_simps)
  have files: "io_files ?t (m_partPath ?t) \<noteq> None"
    if "spec_outputPath (m_spec ?t) \<noteq> []" "code = CURLE_OK" "is_success (h_response_code h)"
    using judged_body_done [OF inv assms(2)] that assms(2) by (auto simp: judged_body_def frame_simps)
  show ?thesis
  proof (cases "code = CURLE_OK")
    case False
    then have "on_attempt_done h code s = handle_transport_failure h code (error_text h code s) ?t"
      using a by (simp add: on_attempt_done_eq)
    with transport_verdict [OF a(1-3) False, where h = h and msg = "error_text h code s"
        and http = "h_response_code h" and ren = "spec_outputPath spec = [] \<or> h_can_rename h"]
    show ?thesis using False a
      by (auto simp: worth_retrying_def judged_can_retry frame_simps split: if_split_asm)
  next
    case True
    note ok = this
    show ?thesis
    proof (cases "is_success (h_response_code h)")
      case False
      then have "on_attempt_done h code s = handle_http_failure h ?t"
        using a ok by (simp add: on_attempt_done_eq)
      with http_failure_verdict [OF a(1-3), where h = h] False ok a show ?thesis
        by (simp add: worth_retrying_def verdict_def is_success_def judged_can_retry frame_simps)
    next
      case True
      then have "on_attempt_done h code s = handle_http_success h ?t"
        using a ok by (simp add: on_attempt_done_eq)
      moreover have "h_response_code h \<notin> {429, 502, 503, 504}" using True by (auto simp: is_success_def)
      ultimately show ?thesis using http_success_verdict [OF a(1,3) files, where h = h] True ok spec
        by (simp add: worth_retrying_def verdict_def is_success_def frame_simps)
    qed
  qed
qed

text \<open>
  C8: The verdict on an attempt. When libcurl reports the end of an attempt, the job waits for a
  retry exactly when the outcome is a transient one (429, 502, 503, 504, or a transport error that
  is not final), the attempts made so far do not exceed the configured retries, and no byte of body
  has arrived in this attempt if the request is a streamed one; otherwise it finishes with the status
  of the table \<open>verdict\<close>. The body that rules a retry out may be that of the response itself: a 503
  that explains itself ends a streamed request, although its body is never streamed. In particular \<open>Ok\<close> is reported for a 2xx response to a transfer without an
  error, whose file, if any, could be renamed, and for nothing else.
\<close>

theorem attempt_verdict:
  assumes "job_reach spec fs s w" and "job_enabled (InDone h code) s w"
  shows "if worth_retrying code (h_response_code h) \<and> m_attempt s \<le> cfg_maxRetries (spec_config spec) \<and>
      \<not> (spec_streamData spec \<and> wr_taken w \<noteq> [])
    then m_waitingForRetry (on_attempt_done h code s) \<and> \<not> m_finished (on_attempt_done h code s) \<and>
      posted (on_attempt_done h code s) = posted s
    else m_finished (on_attempt_done h code s) \<and>
      ev_status (last (posted (on_attempt_done h code s))) =
        verdict code (h_response_code h) (m_tooLarge s)
          (spec_outputPath spec = [] \<or> h_can_rename h)"
proof -
  have "att_inv s w" using reach_delivery [OF assms(1)] assms(2) by (simp add: delivery_inv_def)
  then have "m_bodyLength s = int (length (wr_taken w))" by (cases "wr_status w") (auto simp: att_inv_def body_ok_def)
  then have "can_retry s \<longleftrightarrow> m_attempt s \<le> cfg_maxRetries (spec_config spec) \<and> \<not> (spec_streamData spec \<and> wr_taken w \<noteq> [])"
    using reach_spec [OF assms(1)] by (auto simp: can_retry_def)
  with attempt_judged [OF assms] show ?thesis by simp
qed

lemma demo_begun_reach:
  "job_reach demo_stream demo_files (begun_state busy_host stream_start)
     (wire_step (InBegin busy_host) stream_start wire_start)"
  using job_reach.step [OF job_reach.start [of demo_stream demo_files], of "InBegin busy_host"]
  by (simp add: start_fields demo_begins)

lemma demo_can_retry: "can_retry (begun_state busy_host stream_start)"
  by (simp add: can_retry_def frame_simps start_fields demo_specs)

lemma attempt_verdict_witness:
  "m_waitingForRetry (on_attempt_done busy_host CURLE_OK (begun_state busy_host stream_start))"
  using attempt_verdict [OF demo_begun_reach, of busy_host CURLE_OK]
  by (simp add: worth_retrying_def demo_hosts frame_simps start_fields demo_specs)

section \<open>Phases and retries\<close>

text \<open>
  C7: The life cycle. Every reachable state is in exactly one phase: new, attached to libcurl,
  waiting for a retry, or finished. The number of attempts never exceeds the configured retries plus
  one; a waiting job has a retry left and has not delivered a single byte to the plugin, so that a
  retried stream cannot repeat data; and a finished job accepts no further call.
\<close>

theorem phases_and_retries:
  assumes "job_reach spec fs s w"
  shows "((m_attempt s = 0 \<and> \<not> m_attached s \<and> \<not> m_waitingForRetry s \<and> \<not> m_finished s) \<or>
      (m_attempt s > 0 \<and> m_attached s \<and> \<not> m_waitingForRetry s \<and> \<not> m_finished s) \<or>
      (m_attempt s > 0 \<and> \<not> m_attached s \<and> m_waitingForRetry s \<and> \<not> m_finished s) \<or>
      (m_attempt s > 0 \<and> \<not> m_attached s \<and> \<not> m_waitingForRetry s \<and> m_finished s)) \<and>
    m_attempt s \<le> max 1 (cfg_maxRetries (spec_config spec) + 1) \<and>
    (m_waitingForRetry s \<longrightarrow> m_attempt s \<le> cfg_maxRetries (spec_config spec) \<and> data_bytes (posted s) = []) \<and>
    (m_finished s \<longrightarrow> \<not> job_enabled i s w)"
proof -
  have life: "life_inv s" and d: "delivery_inv s w" and spec: "m_spec s = spec"
    using reach_inv [OF assms] reach_delivery [OF assms] reach_spec [OF assms] by simp_all
  have "m_finished s \<Longrightarrow> \<not> job_enabled i s w"
    using life by (cases i) (auto simp: life_inv_def)
  moreover have "m_waitingForRetry s \<Longrightarrow> data_bytes (posted s) = []"
    using life d by (simp add: life_inv_def delivery_inv_def)
  moreover have "m_attempt s \<le> max 1 (cfg_maxRetries (spec_config spec) + 1)"
      "m_waitingForRetry s \<Longrightarrow> m_attempt s \<le> cfg_maxRetries (spec_config spec)"
    using life spec by (simp_all add: life_inv_def)
  ultimately show ?thesis using life_phases [OF life] by blast
qed

lemma phases_and_retries_witness:
  "m_attempt (fst (demo_run demo_download download_inputs)) \<le> 4"
  using phases_and_retries [OF download_reach]
  by (simp add: demo_download_def request_spec_default_def client_config_default_def)

section \<open>Files\<close>

text \<open>
  C11: No write through a null file. Whenever libcurl may deliver body bytes, the file that the write
  callback would write to is open: it never passes a null \<open>FILE *\<close> to \<open>fwrite\<close>, not even after the
  server has ignored a range and the part file had to be opened again.
\<close>

theorem no_null_file_write:
  assumes "job_reach spec fs s w" and "job_enabled (InWrite h status data) s w"
  shows "fst (write_callback h status data s) \<noteq> WriteNullFile"
proof -
  have "att_inv s w" "part_inv s w" "mq_enabled (io_queue s)"
    using reach_delivery [OF assms(1)] reach_inv [OF assms(1)] assms(2)
    by (simp_all add: delivery_inv_def event_inv_def)
  with write_keeps assms(2) show ?thesis by blast
qed

lemma no_null_file_write_witness:
  "fst (write_callback busy_host 200 ''x'' (begun_state busy_host stream_start)) \<noteq> WriteNullFile"
  by (rule no_null_file_write [OF demo_begun_reach]) (simp add: frame_simps)

text \<open>
  C10: The files a job changes. Whatever happens, every path but the part file and the output file
  holds what it would hold without the job; a request without an output path changes no file at
  all; and the output file changes only when the job finishes with \<open>Ok\<close>: a failed, cancelled or
  interrupted download never truncates or corrupts an existing output file.
\<close>

theorem only_own_files_change:
  assumes "job_reach spec fs s w" and "io_files s p \<noteq> fs p"
  shows "spec_outputPath spec \<noteq> [] \<and>
    (p = spec_outputPath spec @ ''.part'' \<or>
     p = spec_outputPath spec \<and> m_finished s \<and> ev_status (last (posted s)) = RestStatus_Ok)"
  using reach_files [OF assms(1)] reach_spec [OF assms(1)] assms(2) by (auto simp: files_inv_def part_name_def)

lemma only_own_files_change_witness:
  "io_files (fst (demo_run demo_download download_inputs)) ''out.part'' \<noteq> demo_files ''out.part'' \<and>
   spec_outputPath demo_download \<noteq> []"
proof -
  have "io_files (fst (demo_run demo_download download_inputs)) ''out.part'' = None"
    using reach_delivery [OF download_reach] download_ends reach_spec [OF download_reach]
    by (simp add: delivery_inv_def ok_delivered_def part_name_def demo_specs)
  then have "io_files (fst (demo_run demo_download download_inputs)) ''out.part'' \<noteq> demo_files ''out.part''"
    by (simp add: demo_files_def)
  with only_own_files_change [OF download_reach, of "''out.part''"] show ?thesis by simp
qed

section \<open>Flow control\<close>

text \<open>
  C9: Back-pressure without a lost wake-up. While a transfer runs, the bytes posted to the main
  thread and not yet consumed never exceed 4 MiB plus one chunk and the largest single write, the
  chunk being filled is never a full one, and every chunk posted has at least the configured size.
  A paused transfer always has at least the low-water mark outstanding, so the consumption that
  resumes it is still to come; and a consumption that brings the count below the mark does resume
  it.
\<close>

theorem stream_flow_control:
  assumes "job_reach spec fs s w" and "m_attached s"
  defines "chunk \<equiv> max 1 (to_u32 (cfg_chunkSize (spec_config spec)))"
  shows "0 \<le> m_pendingStreamBytes s \<and>
    m_pendingStreamBytes s \<le> kStreamHighWater + chunk + int (wr_largest w) \<and>
    int (length (m_streamBuffer s)) < chunk \<and>
    (\<forall>e \<in> set (posted s). ev_kind e = Kind_Data \<longrightarrow> chunk \<le> int (length (ev_body e))) \<and>
    (m_paused s \<longrightarrow> kStreamLowWater \<le> m_pendingStreamBytes s) \<and>
    (m_paused s \<and> m_pendingStreamBytes s - bytes < kStreamLowWater \<longrightarrow>
       fst (on_stream_consumed bytes s) \<and> \<not> m_paused (snd (on_stream_consumed bytes s)))"
proof -
  have f: "flow_inv s w" and spec: "m_spec s = spec" and nf: "\<not> m_finished s"
    using reach_flow [OF assms(1)] reach_spec [OF assms(1)] reach_inv [OF assms(1)] assms(2)
    by (simp_all add: life_inv_def)
  have limit: "chunk_limit s = chunk" by (simp add: chunk_limit_def chunk_def spec)
  have full: "\<forall>e \<in> set (posted s). ev_kind e = Kind_Data \<longrightarrow> chunk \<le> int (length (ev_body e))"
    using reach_chunks [OF assms(1) nf] by (simp add: chunks_full_def limit)
  have resume: "m_paused s \<and> m_pendingStreamBytes s - bytes < kStreamLowWater \<longrightarrow>
       fst (on_stream_consumed bytes s) \<and> \<not> m_paused (snd (on_stream_consumed bytes s))"
    using assms(2) by (auto simp: on_stream_consumed_def Let_def kStreamLowWater_def)
  have inv: "0 \<le> m_pendingStreamBytes s"
      "m_pendingStreamBytes s \<le> kStreamHighWater + chunk + int (wr_largest w)"
      "int (length (m_streamBuffer s)) < chunk" "m_paused s \<longrightarrow> kStreamLowWater \<le> m_pendingStreamBytes s"
    using f assms(2) by (simp_all add: flow_inv_def limit)
  show ?thesis using full resume inv by blast
qed

lemma stream_flow_control_witness:
  "m_pendingStreamBytes (begun_state busy_host stream_start) \<le> kStreamHighWater + 16384"
  using stream_flow_control [OF demo_begun_reach, of 0] by (simp add: frame_simps demo_specs to_u32_def)

section \<open>Cancelling\<close>

text \<open>
  C12: Cancellation is immediate and safe. Cancelling a running or waiting job finishes it with the
  status \<open>Cancelled\<close> as its only further event, gives back the libcurl handle and the open files, and
  leaves every file as closing the part file leaves it, which is as it was unless the device cannot
  take what has been written; cancelling again changes nothing.
\<close>

theorem cancel_finishes:
  assumes "job_reach spec fs s w" and "job_enabled InCancel s w"
  shows "m_finished (cancel s) \<and> \<not> m_attached (cancel s) \<and> m_easy (cancel s) = None \<and>
    m_uploadFile (cancel s) = None \<and> m_outputFile (cancel s) = None \<and>
    io_files (cancel s) = fclose_output (m_outputFile s) (io_files s) \<and>
    (length (wr_taken w) \<le> wr_room w \<longrightarrow> io_files (cancel s) = io_files s) \<and>
    (\<exists>e. posted (cancel s) = posted s @ [e] \<and> ev_kind e = Kind_Complete \<and>
       ev_status e = RestStatus_Cancelled \<and> ev_jobId e = spec_id spec) \<and>
    cancel (cancel s) = cancel s"
proof -
  let ?b = "release_curl (close_files (s\<lparr>m_cancelRequested := True\<rparr>))"
  have inv: "life_inv s" "event_inv s" and spec: "m_spec s = spec"
    using reach_inv [OF assms(1)] reach_spec [OF assms(1)] by simp_all
  have nf: "\<not> m_finished ?b" "mq_enabled (io_queue ?b)"
    using inv assms(2) by (simp_all add: life_inv_def event_inv_def frame_simps close_files_def)
  have b: "m_easy ?b = None" "m_uploadFile ?b = None" "m_outputFile ?b = None"
      "io_files ?b = fclose_output (m_outputFile s) (io_files s)"
      "m_spec ?b = spec" "m_cancelRequested ?b"
    using spec by (auto simp: release_curl_def close_files_def)
  have c: "cancel s = finish RestStatus_Cancelled ''cancelled'' ?b" by (simp add: cancel_def)
  have idle: "cancel t = t" if "m_finished t" "m_easy t = None" "m_uploadFile t = None"
    "m_outputFile t = None" "m_cancelRequested t" for t :: job_ctx
    using that by (simp add: cancel_def release_curl_def close_files_def finish_def fclose_output_def)
  have "m_uploadFile (cancel s) = None" unfolding c using b(2) by (simp add: finish_def post_event_def)
  moreover have "posted (cancel s) = posted s @ [complete_event RestStatus_Cancelled ''cancelled'' ?b]"
    unfolding c posted_finish [OF nf] by (simp add: frame_simps close_files_def)
  moreover have "length (wr_taken w) \<le> wr_room w \<longrightarrow> fclose_output (m_outputFile s) (io_files s) = io_files s"
    using closing_keeps_files [OF assms(1)] assms(2) by simp
  ultimately show ?thesis using b cancel_detached [OF inv(1)] idle [of "cancel s"]
    by (simp add: c frame_simps)
qed

lemma cancel_finishes_witness:
  "m_finished (cancel (begun_state busy_host stream_start)) \<and>
   m_easy (cancel (begun_state busy_host stream_start)) = None"
  using cancel_finishes [OF demo_begun_reach] by (simp add: frame_simps start_fields)

section \<open>When a retry is due\<close>

text \<open>The delay of a retry without a \<open>Retry-After\<close>, before the random part.\<close>

fun doubled :: "nat \<Rightarrow> int" where
  "doubled 0 = 1000"
| "doubled (Suc n) = min 30000 (2 * doubled n)"

lemma doubled_eq: "doubled n = min 30000 (1000 * 2 ^ n)"
  by (induction n) (auto simp: min_def)

lemma doubled_range: "1000 \<le> doubled n \<and> doubled n \<le> 30000"
  by (induction n) auto

lemma backoff_doubles: "1 \<le> attempt \<Longrightarrow> backoff_base attempt = doubled (nat (attempt - 1))"
proof -
  assume a: "1 \<le> attempt"
  show ?thesis
  proof (cases "attempt - 1 \<le> 10")
    case True
    then show ?thesis using a
      by (simp add: backoff_base_def doubled_eq kBackoffCapMs_def kBackoffBaseMs_def min_def)
  next
    case False
    then have "10 \<le> nat (attempt - 1)" by simp
    then obtain k where k: "nat (attempt - 1) = 10 + k" using le_Suc_ex by blast
    have "(1 :: int) \<le> 2 ^ k" "(2 :: int) ^ (10 + k) = 1024 * 2 ^ k" by (simp_all add: power_add)
    then have "30000 \<le> 1000 * (2 :: int) ^ (10 + k)" by linarith
    with False k show ?thesis
      by (simp add: backoff_base_def doubled_eq kBackoffCapMs_def kBackoffBaseMs_def)
  qed
qed

lemma strtol10_to_dec:
  assumes "0 \<le> n" "n \<le> 2147483647"
  shows "strtol10 (to_dec n) = Some n"
proof -
  have d: "list_all is_digit_char (nat_dec (nat n))" by (rule nat_dec_digits)
  then obtain c cs where c: "nat_dec (nat n) = c # cs" "is_digit_char c"
    by (cases "nat_dec (nat n)") (simp_all add: nat_dec_nonempty [THEN notE])
  have "\<not> is_space_char c" "c \<noteq> CHR ''-''" "c \<noteq> CHR ''+''"
    using c(2) by (auto simp: is_digit_char_def is_space_char_def)
  moreover have "c_str (nat_dec (nat n)) = nat_dec (nat n)"
    using d by (intro c_str_id) (auto simp: list_all_iff is_digit_char_def)
  moreover have "takeWhile is_digit_char (nat_dec (nat n)) = nat_dec (nat n)"
    using d by (simp add: takeWhile_eq_all_conv list_all_iff)
  moreover have "digits_val 0 (nat_dec (nat n)) = n" using assms(1) by (simp add: digits_val_nat_dec)
  ultimately show ?thesis using assms unfolding c(1)
    by (simp add: strtol10_def c_parse_int_def to_dec_def c(1) Let_def)
qed

lemma parse_retry_after_eq:
  "parse_retry_after_ms headers =
     (case Option.bind (find_header headers ''retry-after'') strtol10 of
        None \<Rightarrow> -1
      | Some n \<Rightarrow> if n < 0 then -1 else min 60000 (to_i32 (1000 * n)))"
  by (auto simp: parse_retry_after_ms_def kRetryAfterCapMs_def strtol10_def c_parse_int_def mult.commute
      split: option.split)

text \<open>
  C14: When a retry is due. A \<open>Retry-After\<close> of \<open>n\<close> seconds, the decimal number the header has or
  begins with, is honoured up to a minute when \<open>n\<close> is at most 2147483; a larger one overflows the
  32-bit product with 1000, and the delay is what the wrapped product says if that is not negative.
  Without a header, or when it has no number, or a negative one, or the product wraps to a negative
  value, the delay doubles from one second to half a minute, give or take a quarter. So the delay is
  never negative and never above a minute; and the retry is due exactly from that time on.
\<close>

theorem retry_is_due_after_backoff:
  assumes "jitter_ok h" and "1 \<le> m_attempt s"
  defines "delay \<equiv> retry_delay h s" and "base \<equiv> doubled (nat (m_attempt s - 1))"
    and "header \<equiv> find_header (m_responseHeaders s) ''retry-after''"
  defines "asked \<equiv> Option.bind header strtol10"
  shows "0 \<le> delay \<and> delay \<le> 60000 \<and>
    (\<forall>n. (header = Some (to_dec n) \<or> asked = Some n) \<and> 0 \<le> n \<and> n \<le> 2147483 \<longrightarrow>
       delay = min 60000 (1000 * n)) \<and>
    (\<forall>n. asked = Some n \<and> 2147483 < n \<and> 0 \<le> to_i32 (1000 * n) \<longrightarrow> delay = min 60000 (to_i32 (1000 * n))) \<and>
    ((\<forall>n. asked = Some n \<longrightarrow> n < 0 \<or> to_i32 (1000 * n) < 0) \<longrightarrow>
       3 * base \<le> 4 * delay \<and> 4 * delay \<le> 5 * base \<and> 750 \<le> delay \<and> delay \<le> 37500) \<and>
    (is_retry_due (schedule_retry h s) now \<longleftrightarrow> h_now h + delay * 1000000 \<le> now)"
proof -
  have r: "1000 \<le> base" "base \<le> 30000" using doubled_range by (simp_all add: base_def)
  have b: "backoff_base (m_attempt s) = base" using backoff_doubles [OF assms(2)] by (simp add: base_def)
  have q: "base sdiv 4 = base div 4" "(- base) sdiv 4 = - (base div 4)"
    using r by (simp_all add: signed_divide_int_def sgn_if)
  have j: "- (base div 4) \<le> h_jitter h (- (base div 4)) (base div 4) \<and>
      h_jitter h (- (base div 4)) (base div 4) \<le> base div 4"
    using assms(1) r unfolding jitter_ok_def by simp
  have d: "delay = (if 0 \<le> parse_retry_after_ms (m_responseHeaders s) then parse_retry_after_ms (m_responseHeaders s)
      else base + h_jitter h (- (base div 4)) (base div 4))"
    by (simp add: delay_def retry_delay_def Let_def b q)
  have u: "parse_retry_after_ms (m_responseHeaders s) \<le> 60000"
    using retry_after_upper by (simp add: kRetryAfterCapMs_def)
  have due: "is_retry_due (schedule_retry h s) now \<longleftrightarrow> h_now h + delay * 1000000 \<le> now"
    by (simp add: is_retry_due_def schedule_retry_def delay_def)
  have ms: "parse_retry_after_ms (m_responseHeaders s) =
      (case asked of None \<Rightarrow> -1 | Some n \<Rightarrow> if n < 0 then -1 else min 60000 (to_i32 (1000 * n)))"
    by (simp add: parse_retry_after_eq asked_def header_def)
  have exact: "delay = min 60000 (1000 * n)" if "asked = Some n" "0 \<le> n" "n \<le> 2147483" for n
  proof -
    have "to_i32 (1000 * n) = 1000 * n" using that by (intro to_i32_id) (simp add: is_i32_def)
    with that ms d show ?thesis by simp
  qed
  have number: "asked = Some n" if "header = Some (to_dec n)" "0 \<le> n" "n \<le> 2147483" for n
    using that strtol10_to_dec [of n] by (simp add: asked_def)
  have wrapped: "delay = min 60000 (to_i32 (1000 * n))"
    if "asked = Some n" "2147483 < n" "0 \<le> to_i32 (1000 * n)" for n
    using that ms d by simp
  have backoff: "3 * base \<le> 4 * delay \<and> 4 * delay \<le> 5 * base \<and> 750 \<le> delay \<and> delay \<le> 37500"
    if "\<forall>n. asked = Some n \<longrightarrow> n < 0 \<or> to_i32 (1000 * n) < 0"
  proof -
    have "parse_retry_after_ms (m_responseHeaders s) < 0" using that ms by (auto split: option.split)
    with d have e: "delay = base + h_jitter h (- (base div 4)) (base div 4)" by simp
    have "3 * base \<le> 4 * delay" "4 * delay \<le> 5 * base" using j e by linarith+
    with r show ?thesis by linarith
  qed
  have "0 \<le> delay" "delay \<le> 60000"
    using d u j r by (cases "0 \<le> parse_retry_after_ms (m_responseHeaders s)"; simp; linarith)+
  with exact number wrapped backoff due show ?thesis by blast
qed

lemma retry_is_due_after_backoff_witness:
  "retry_delay busy_host (begun_state busy_host stream_start) \<le> 60000"
proof -
  have "jitter_ok busy_host" by (simp add: jitter_ok_def busy_host_def host_default_def)
  from retry_is_due_after_backoff [OF this, of "begun_state busy_host stream_start" 0]
  show ?thesis by (simp add: frame_simps start_fields)
qed

section \<open>Resuming a download\<close>

lemma to_dec_no_nul: "0 \<le> n \<Longrightarrow> CHR 0x00 \<notin> set (to_dec n)"
  using nat_dec_digits [of "nat n"] by (auto simp: to_dec_def list_all_iff is_digit_char_def)

lemma range_line_c_str: "0 \<le> n \<Longrightarrow> c_str (''Range: bytes='' @ to_dec n @ ''-'') = ''Range: bytes='' @ to_dec n @ ''-''"
  using to_dec_no_nul by (intro c_str_id) auto

lemma fold_slist: "fold (\<lambda>x l. slist_append l (f x)) xs l = l @ map (c_str \<circ> f) xs"
  by (induction xs arbitrary: l) (simp_all add: slist_append_def)

lemma configured_header_list: "m_headerList (configure_handle h s) = m_headerList (build_headers s)"
  by (simp add: configure_handle_def Let_def frame_simps)

lemma open_output_file_resume:
  assumes "fst (open_output_file h s)" and "spec_outputPath (m_spec s) \<noteq> []"
  shows "m_resumeOffset (snd (open_output_file h s)) = int (length (part_base s))"
  using assms by (auto simp: open_output_file_def part_base_def file_size_of_def Let_def
      split: if_splits option.splits prod.splits)

lemma open_files_resume:
  assumes "open_files h s = (True, s3)" and "spec_outputPath (m_spec s) \<noteq> []"
  shows "m_resumeOffset s3 = int (length (part_base s))"
proof -
  let ?u = "snd (open_upload_file h s)"
  have o: "open_output_file h ?u = (True, s3)" using assms(1) by (simp add: open_files_eq split: if_splits)
  have "part_base ?u = part_base s" by (simp add: part_base_def frame_simps)
  with open_output_file_resume [of h ?u] o assms(2) show ?thesis by (simp add: frame_simps)
qed

text \<open>
  C15: Resuming. When an attempt of a download begins, the part file holds what an earlier attempt or
  an earlier request left when resuming is asked for, and is empty otherwise; the request then asks
  for the rest, by a \<open>Range\<close> header with exactly the length of what is there, and for the whole body
  when there is nothing. The header list is the client's headers, the content type, the range and
  the empty \<open>Expect\<close>.
\<close>

theorem resume_requests_rest:
  assumes "begin_attempt h s = (True, t)" and "spec_outputPath (m_spec s) \<noteq> []"
  defines "old \<equiv> (if spec_resume (m_spec s)
      then (case io_files s (spec_outputPath (m_spec s) @ ''.part'') of None \<Rightarrow> [] | Some c \<Rightarrow> c) else [])"
  shows "io_files t (spec_outputPath (m_spec s) @ ''.part'') = Some old \<and>
    m_resumeOffset t = int (length old) \<and>
    m_headerList t = map (c_str \<circ> header_line) (cfg_headers (job_config s)) @
      (if spec_bodyKind (m_spec s) \<in> {BodyKind_Memory, BodyKind_File, BodyKind_Form}
          \<and> spec_bodyContentType (m_spec s) \<noteq> []
       then [c_str (''Content-Type: '' @ spec_bodyContentType (m_spec s))] else []) @
      (if old = [] then [] else [''Range: bytes='' @ to_dec (int (length old)) @ ''-'']) @ [''Expect:''] \<and>
    opt_of t CURLOPT_HTTPHEADER = Some (VList (m_headerList t))"
proof (cases rule: begin_attempt_cases [of s h])
  case (attached s3)
  let ?b = "(attempt_base s)\<lparr>m_easy := Some []\<rparr>"
  have t: "t = (configure_handle h s3)\<lparr>m_attached := True\<rparr>" using attached(4) assms(1) by simp
  have old: "part_base ?b = old" using assms(2) by (simp add: part_base_def old_def frame_simps)
  have spec: "m_spec s3 = m_spec s" and easy: "m_easy s3 = Some []"
    using open_files_frame [of h ?b] attached(2) by (simp_all add: frame_simps)
  have r: "m_resumeOffset s3 = int (length old)"
    using open_files_resume [OF attached(2)] assms(2) old by (simp add: frame_simps)
  have f: "io_files s3 (part_name (m_spec s)) = Some old"
    using open_files_ok [OF attached(2)] assms(2) old by (simp add: frame_simps)
  have l: "m_headerList t = m_headerList (build_headers s3)" by (simp add: t configured_header_list)
  have e: "c_str ''Expect:'' = ''Expect:''" by (simp add: c_str_def)
  have "m_headerList t = map (c_str \<circ> header_line) (cfg_headers (job_config s)) @
      (if spec_bodyKind (m_spec s) \<in> {BodyKind_Memory, BodyKind_File, BodyKind_Form}
          \<and> spec_bodyContentType (m_spec s) \<noteq> []
       then [c_str (''Content-Type: '' @ spec_bodyContentType (m_spec s))] else []) @
      (if old = [] then [] else [''Range: bytes='' @ to_dec (int (length old)) @ ''-'']) @ [''Expect:'']"
    unfolding l build_headers_def Let_def fold_slist spec r
    using range_line_c_str [of "int (length old)"] by (simp add: slist_append_def e)
  moreover have "opt_of t CURLOPT_HTTPHEADER = Some (VList (m_headerList t))"
    using easy by (simp add: t opt_of_def configure_handle_def Let_def)
      (simp add: setopt_def easy_option_def frame_simps split: option.split)
  moreover have "io_files t (spec_outputPath (m_spec s) @ ''.part'') = Some old" "m_resumeOffset t = int (length old)"
    using f r by (simp_all add: t frame_simps part_name_def)
  ultimately show ?thesis by blast
qed (use assms(1) in simp_all)

lemma resume_requests_rest_witness:
  "m_resumeOffset (begun_state partial_host download_start) = 2"
  using resume_requests_rest [OF demo_begins(2)]
  by (simp add: start_fields demo_specs demo_download_def demo_files_def request_spec_default_def
      job_start_def job_ctx_of_def rest_job.extend_def new_job_def)

end
