(* ===== verification/Rest_Resources.thy ===== *)
theory Rest_Resources
  imports Rest_Guarantees
begin

text \<open>What a job holds of libcurl and of the C library when it begins, runs and ends.\<close>

text \<open>
  C13: Nothing leaks and nothing is freed under libcurl's feet. When an attempt begins the members that
  it overwrites hold no handle, form or file, so nothing is lost; an attached job has its handle; and
  when a job is finished, which is when the thread destroys it, its handle is no longer in the multi
  handle and the destructor releases whatever a failed start has left.
\<close>

theorem nothing_is_leaked:
  assumes "job_reach spec fs s w"
  shows "(job_enabled (InBegin h) s w \<longrightarrow> holds_nothing s) \<and>
    (m_attached s \<longrightarrow> m_easy s \<noteq> None) \<and>
    (m_finished s \<longrightarrow> \<not> m_attached s \<and> holds_nothing (destroy_job s) \<and> m_headerList (destroy_job s) = [])"
proof -
  have life: "life_inv s" and r: "resources_inv s"
    using reach_inv [OF assms] reach_resources [OF assms] by simp_all
  have "holds_nothing (destroy_job s)" "m_headerList (destroy_job s) = []"
    by (simp_all add: destroy_job_def holds_nothing_def close_files_def Let_def)
  with life r show ?thesis by (auto simp: life_inv_def resources_inv_def)
qed

lemma nothing_is_leaked_witness:
  "holds_nothing stream_start \<and>
   \<not> m_attached (fst (demo_run demo_download download_inputs)) \<and>
   holds_nothing (destroy_job (fst (demo_run demo_download download_inputs)))"
  using nothing_is_leaked [OF job_reach.start [of demo_stream demo_files], of host_default]
    nothing_is_leaked [OF download_reach] download_ends by (simp add: start_fields)

end
