(* ===== verification/Rest_Local.thy ===== *)
theory Rest_Local
  imports Rest_Guarantees
begin

text \<open>
  A job never looks at the queue it posts to. Any change of the queue that commutes with posting
  commutes with every operation of a job (\<open>step_under\<close>); in particular the events that a step
  appends do not depend on what the queue holds, so that the statements about a job with a queue of
  its own carry over to jobs that share one.
\<close>

definition post_hom :: "(main_thread_queue \<Rightarrow> main_thread_queue) \<Rightarrow> bool" where
  "post_hom r \<longleftrightarrow> (\<forall>e q. r (queue_post e q) = queue_post e (r q))"

definition under :: "(main_thread_queue \<Rightarrow> main_thread_queue) \<Rightarrow> job_ctx \<Rightarrow> job_ctx" where
  "under r s = s\<lparr>io_queue := r (io_queue s)\<rparr>"

named_theorems under_simps \<open>how the operations of a job pass a change of the queue\<close>

lemma under_select [under_simps]:
  "m_easy (under r s) = m_easy s" "m_headerList (under r s) = m_headerList s"
  "m_mime (under r s) = m_mime s" "m_uploadFile (under r s) = m_uploadFile s"
  "m_outputFile (under r s) = m_outputFile s" "m_resumeOffset (under r s) = m_resumeOffset s"
  "m_uploadSize (under r s) = m_uploadSize s" "m_bodyLength (under r s) = m_bodyLength s"
  "m_pendingStreamBytes (under r s) = m_pendingStreamBytes s" "m_httpStatus (under r s) = m_httpStatus s"
  "m_elapsedMs (under r s) = m_elapsedMs s" "m_retryAt (under r s) = m_retryAt s"
  "m_lastProgressPost (under r s) = m_lastProgressPost s"
  "m_responseHeaders (under r s) = m_responseHeaders s" "m_partPath (under r s) = m_partPath s"
  "m_responseBody (under r s) = m_responseBody s" "m_streamBuffer (under r s) = m_streamBuffer s"
  "m_effectiveUrl (under r s) = m_effectiveUrl s" "m_spec (under r s) = m_spec s"
  "m_attempt (under r s) = m_attempt s" "m_attached (under r s) = m_attached s"
  "m_restartedFullBody (under r s) = m_restartedFullBody s"
  "m_headersPosted (under r s) = m_headersPosted s" "m_paused (under r s) = m_paused s"
  "m_tooLarge (under r s) = m_tooLarge s" "m_waitingForRetry (under r s) = m_waitingForRetry s"
  "m_finished (under r s) = m_finished s" "m_cancelRequested (under r s) = m_cancelRequested s"
  "m_errorBuffer (under r s) = m_errorBuffer s" "io_files (under r s) = io_files s"
  by (simp_all add: under_def)

lemma under_update [under_simps]:
  "(under r s)\<lparr>m_easy := x0\<rparr> = under r (s\<lparr>m_easy := x0\<rparr>)"
  "(under r s)\<lparr>m_headerList := x1\<rparr> = under r (s\<lparr>m_headerList := x1\<rparr>)"
  "(under r s)\<lparr>m_mime := x2\<rparr> = under r (s\<lparr>m_mime := x2\<rparr>)"
  "(under r s)\<lparr>m_uploadFile := x3\<rparr> = under r (s\<lparr>m_uploadFile := x3\<rparr>)"
  "(under r s)\<lparr>m_outputFile := x4\<rparr> = under r (s\<lparr>m_outputFile := x4\<rparr>)"
  "(under r s)\<lparr>m_resumeOffset := x5\<rparr> = under r (s\<lparr>m_resumeOffset := x5\<rparr>)"
  "(under r s)\<lparr>m_uploadSize := x6\<rparr> = under r (s\<lparr>m_uploadSize := x6\<rparr>)"
  "(under r s)\<lparr>m_bodyLength := x7\<rparr> = under r (s\<lparr>m_bodyLength := x7\<rparr>)"
  "(under r s)\<lparr>m_pendingStreamBytes := x8\<rparr> = under r (s\<lparr>m_pendingStreamBytes := x8\<rparr>)"
  "(under r s)\<lparr>m_httpStatus := x9\<rparr> = under r (s\<lparr>m_httpStatus := x9\<rparr>)"
  "(under r s)\<lparr>m_elapsedMs := x10\<rparr> = under r (s\<lparr>m_elapsedMs := x10\<rparr>)"
  "(under r s)\<lparr>m_retryAt := x11\<rparr> = under r (s\<lparr>m_retryAt := x11\<rparr>)"
  "(under r s)\<lparr>m_lastProgressPost := x12\<rparr> = under r (s\<lparr>m_lastProgressPost := x12\<rparr>)"
  "(under r s)\<lparr>m_responseHeaders := x13\<rparr> = under r (s\<lparr>m_responseHeaders := x13\<rparr>)"
  "(under r s)\<lparr>m_partPath := x14\<rparr> = under r (s\<lparr>m_partPath := x14\<rparr>)"
  "(under r s)\<lparr>m_responseBody := x15\<rparr> = under r (s\<lparr>m_responseBody := x15\<rparr>)"
  "(under r s)\<lparr>m_streamBuffer := x16\<rparr> = under r (s\<lparr>m_streamBuffer := x16\<rparr>)"
  "(under r s)\<lparr>m_effectiveUrl := x17\<rparr> = under r (s\<lparr>m_effectiveUrl := x17\<rparr>)"
  "(under r s)\<lparr>m_spec := x18\<rparr> = under r (s\<lparr>m_spec := x18\<rparr>)"
  "(under r s)\<lparr>m_attempt := x19\<rparr> = under r (s\<lparr>m_attempt := x19\<rparr>)"
  "(under r s)\<lparr>m_attached := x20\<rparr> = under r (s\<lparr>m_attached := x20\<rparr>)"
  "(under r s)\<lparr>m_restartedFullBody := x21\<rparr> = under r (s\<lparr>m_restartedFullBody := x21\<rparr>)"
  "(under r s)\<lparr>m_headersPosted := x22\<rparr> = under r (s\<lparr>m_headersPosted := x22\<rparr>)"
  "(under r s)\<lparr>m_paused := x23\<rparr> = under r (s\<lparr>m_paused := x23\<rparr>)"
  "(under r s)\<lparr>m_tooLarge := x24\<rparr> = under r (s\<lparr>m_tooLarge := x24\<rparr>)"
  "(under r s)\<lparr>m_waitingForRetry := x25\<rparr> = under r (s\<lparr>m_waitingForRetry := x25\<rparr>)"
  "(under r s)\<lparr>m_finished := x26\<rparr> = under r (s\<lparr>m_finished := x26\<rparr>)"
  "(under r s)\<lparr>m_cancelRequested := x27\<rparr> = under r (s\<lparr>m_cancelRequested := x27\<rparr>)"
  "(under r s)\<lparr>m_errorBuffer := x28\<rparr> = under r (s\<lparr>m_errorBuffer := x28\<rparr>)"
  "(under r s)\<lparr>io_files := x29\<rparr> = under r (s\<lparr>io_files := x29\<rparr>)"
  by (simp_all add: under_def)

lemma under_post [under_simps]: "post_hom r \<Longrightarrow> post_event e (under r s) = under r (post_event e s)"
  by (simp add: under_def post_event_def post_hom_def)

lemma under_if [under_simps]: "under r (if c then s else t) = (if c then under r s else under r t)"
  by simp

lemma under_finish [under_simps]: "post_hom r \<Longrightarrow> finish st er (under r s) = under r (finish st er s)"
  by (simp add: finish_def complete_event_def under_simps)

lemma under_parts [under_simps]:
  "capture_attempt_info h (under r s) = under r (capture_attempt_info h s)"
  "close_files (under r s) = under r (close_files s)"
  "release_curl (under r s) = under r (release_curl s)"
  "reset_attempt_state (under r s) = under r (reset_attempt_state s)"
  "schedule_retry h (under r s) = under r (schedule_retry h s)"
  "can_retry (under r s) = can_retry s"
  by (simp_all add: capture_attempt_info_def close_files_def release_curl_def reset_attempt_state_def
      schedule_retry_def retry_delay_def can_retry_def under_simps)

lemma under_cancel [under_simps]: "post_hom r \<Longrightarrow> cancel (under r s) = under r (cancel s)"
  by (simp add: cancel_def under_simps)

lemma under_flush [under_simps]: "post_hom r \<Longrightarrow> flush_stream (under r s) = under r (flush_stream s)"
  by (simp add: flush_stream_def under_simps)

lemma under_transport [under_simps]:
  "post_hom r \<Longrightarrow> handle_transport_failure h code msg (under r s) = under r (handle_transport_failure h code msg s)"
  by (simp add: handle_transport_failure_def Let_def under_simps)

lemma under_http_failure [under_simps]:
  "post_hom r \<Longrightarrow> handle_http_failure h (under r s) = under r (handle_http_failure h s)"
  by (simp add: handle_http_failure_def Let_def under_simps)

lemma under_http_success [under_simps]:
  "post_hom r \<Longrightarrow> handle_http_success h (under r s) = under r (handle_http_success h s)"
  by (cases "rename_file h (m_partPath s) (spec_outputPath (m_spec s)) (io_files s)")
    (simp add: handle_http_success_def finalize_download_def under_simps)

lemma under_done [under_simps]:
  "post_hom r \<Longrightarrow> on_attempt_done h code (under r s) = under r (on_attempt_done h code s)"
  by (simp add: on_attempt_done_def Let_def under_simps)

lemma under_header [under_simps]:
  "post_hom r \<Longrightarrow> on_header_line status line (under r s) = under r (on_header_line status line s)"
  by (cases "find_header (m_responseHeaders s) ''location''")
    (simp_all add: on_header_line_def on_headers_complete_def Let_def under_simps split: option.split)

lemma under_write_memory: "write_memory data (under r s) = apsnd (under r) (write_memory data s)"
proof -
  have "memory_cap (under r s) = memory_cap s" by (simp add: memory_cap_def under_simps)
  then show ?thesis
    unfolding write_memory_def Let_def under_select
    by (simp only: if_distrib [of "apsnd (under r)"] apsnd_conv under_update)
qed

lemma under_write_stream: "post_hom r \<Longrightarrow> write_stream data (under r s) = apsnd (under r) (write_stream data s)"
  by (simp add: write_stream_def Let_def under_simps)

lemma under_write_file: "write_file h status data (under r s) = apsnd (under r) (write_file h status data s)"
proof (cases "status = 200 \<and> m_resumeOffset s > 0 \<and> \<not> m_restartedFullBody s")
  case True
  then show ?thesis
    by (cases "fst (freopen_wb h (m_partPath s) (m_outputFile s) (io_files s))")
      (simp_all add: write_file_eq Let_def under_simps)
next
  case False
  then have c: "(status = 200 \<and> m_resumeOffset s > 0 \<and> \<not> m_restartedFullBody s) = False" by blast
  show ?thesis
    unfolding write_file_eq under_select c by (cases "m_outputFile s") (simp_all add: Let_def under_simps)
qed

lemma under_write [under_simps]:
  "post_hom r \<Longrightarrow> write_callback h status data (under r s) = apsnd (under r) (write_callback h status data s)"
  by (simp add: write_callback_def sink_for_def under_write_memory under_write_stream under_write_file under_simps)

lemma under_quiet [under_simps]:
  "read_callback n (under r s) = apsnd (under r) (read_callback n s)"
  "seek_callback off origin (under r s) = apsnd (under r) (seek_callback off origin s)"
  "store_curl_error text (under r s) = under r (store_curl_error text s)"
  "on_stream_consumed bytes (under r s) = apsnd (under r) (on_stream_consumed bytes s)"
  by (simp_all add: read_callback_def seek_callback_def store_curl_error_def on_stream_consumed_def Let_def
      under_simps split: option.split prod.split)

lemma under_progress [under_simps]:
  "post_hom r \<Longrightarrow> progress_callback h a b c d (under r s) = apsnd (under r) (progress_callback h a b c d s)"
  by (simp add: progress_callback_def post_progress_def Let_def under_simps)
section \<open>Beginning an attempt\<close>

lemma under_open_upload: "open_upload_file h (under r s) = apsnd (under r) (open_upload_file h s)"
  by (simp add: open_upload_file_def Let_def under_simps)

lemma under_open_output: "open_output_file h (under r s) = apsnd (under r) (open_output_file h s)"
  by (simp add: open_output_file_def Let_def under_simps split: prod.split)

lemma under_open_files: "open_files h (under r s) = apsnd (under r) (open_files h s)"
  by (simp add: open_files_eq under_open_upload under_open_output)

lemma under_setopt [under_simps]:
  "setopt opt v (under r s) = under r (setopt opt v s)" "setopts opts (under r s) = under r (setopts opts s)"
  by (simp_all add: setopt_def setopts_eq under_simps)

lemma under_stages:
  "build_headers (under r s) = under r (build_headers s)"
  "apply_auth (under r s) = under r (apply_auth s)"
  "apply_method (under r s) = under r (apply_method s)"
  "apply_body (under r s) = under r (apply_body s)"
  by (simp_all add: build_headers_def apply_auth_def apply_method_def apply_body_def apply_multipart_def
      Let_def under_simps split: body_kind.split)

lemma under_common: "apply_common_options h (under r s) = under r (apply_common_options h s)"
  by (simp add: apply_common_options_def Let_def under_simps)

lemma under_configure: "configure_handle h (under r s) = under r (configure_handle h s)"
  by (simp add: configure_handle_def Let_def under_stages under_common under_simps)

lemma under_begin:
  "post_hom r \<Longrightarrow> begin_attempt h (under r s) = apsnd (under r) (begin_attempt h s)"
proof -
  assume hom: "post_hom r"
  define s1 where "s1 = reset_attempt_state (s\<lparr>m_attempt := m_attempt s + 1\<rparr>)"
  define s2 where "s2 = s1\<lparr>m_easy := (if h_easy_init h then Some [] else None)\<rparr>"
  obtain ok s3 where o: "open_files h s2 = (ok, s3)" by (cases "open_files h s2")
  have eq: "begin_attempt h u =
     (if m_cancelRequested u1 then (False, finish RestStatus_Cancelled ''cancelled'' u1)
      else if m_easy u2 = None then (False, finish RestStatus_NetworkError ''curl_easy_init failed'' u2)
      else if \<not> k then (False, finish RestStatus_IoError (h_errno_text h) u3)
      else case h_multi_add h of
        Some error \<Rightarrow> (False, finish RestStatus_NetworkError error (configure_handle h u3))
      | None \<Rightarrow> (True, (configure_handle h u3)\<lparr>m_attached := True\<rparr>))"
    if "u1 = reset_attempt_state (u\<lparr>m_attempt := m_attempt u + 1\<rparr>)"
      "u2 = u1\<lparr>m_easy := (if h_easy_init h then Some [] else None)\<rparr>" "open_files h u2 = (k, u3)" for u u1 u2 u3 k
    unfolding begin_attempt_def Let_def that(1) [symmetric] that(2) [symmetric] that(3) prod.case ..
  have u1: "under r s1 = reset_attempt_state ((under r s)\<lparr>m_attempt := m_attempt (under r s) + 1\<rparr>)"
    by (simp add: s1_def under_simps)
  have u2: "under r s2 = (under r s1)\<lparr>m_easy := (if h_easy_init h then Some [] else None)\<rparr>"
    unfolding s2_def by (rule under_update(1) [symmetric])
  have u3: "open_files h (under r s2) = (ok, under r s3)" by (simp add: under_open_files o)
  show ?thesis
    unfolding eq [OF s1_def s2_def o] eq [OF u1 u2 u3] under_select
    using hom by (simp add: under_simps under_configure split: option.split)
qed

text \<open>Every step of a job commutes with a change of the queue that posting commutes with.\<close>

lemma step_under:
  assumes "post_hom r"
  shows "job_step i (under r s) = under r (job_step i s)"
  using assms by (cases i) (simp_all add: under_simps under_begin)

section \<open>What a step posts\<close>

definition emitted :: "(job_ctx \<Rightarrow> job_ctx) \<Rightarrow> job_ctx \<Rightarrow> transfer_event list" where
  "emitted f s = posted (f (s\<lparr>io_queue := queue_default\<rparr>))"

definition queue_before :: "transfer_event list \<Rightarrow> main_thread_queue \<Rightarrow> main_thread_queue" where
  "queue_before es q = q\<lparr>mq_events := es @ mq_events q, mq_hasEvents := (es \<noteq> [] \<or> mq_hasEvents q)\<rparr>"

lemma queue_before_hom: "post_hom (queue_before es)"
  by (simp add: post_hom_def queue_before_def queue_post_def)

definition queue_of :: "transfer_event list \<Rightarrow> main_thread_queue" where
  "queue_of es = \<lparr>mq_events = es, mq_hasEvents = (es \<noteq> []), mq_enabled = True\<rparr>"

lemma queue_of_before: "queue_before es (queue_of fs) = queue_of (es @ fs)"
  by (simp add: queue_before_def queue_of_def)

lemma queue_default_of: "queue_default = queue_of []"
  by (simp add: queue_default_def queue_of_def)

text \<open>All a step does to the queue is to post.\<close>

definition posts_only :: "job_ctx \<Rightarrow> job_ctx \<Rightarrow> bool" where
  "posts_only s t \<longleftrightarrow> (\<exists>es. io_queue t = fold queue_post es (io_queue s))"

lemma posts_only_same: "io_queue t = io_queue s \<Longrightarrow> posts_only s t"
  unfolding posts_only_def by (rule exI [of _ "[]"]) simp

lemma posts_only_post: "posts_only s t \<Longrightarrow> posts_only s (post_event e t)"
proof -
  assume "posts_only s t"
  then obtain es where "io_queue t = fold queue_post es (io_queue s)" by (auto simp: posts_only_def)
  then have "io_queue (post_event e t) = fold queue_post (es @ [e]) (io_queue s)"
    by (simp add: post_event_def)
  then show ?thesis unfolding posts_only_def by blast
qed

lemma posts_only_cong: "posts_only s t \<Longrightarrow> io_queue u = io_queue t \<Longrightarrow> posts_only s u"
  by (simp add: posts_only_def)

lemma posts_only_finish: "posts_only s t \<Longrightarrow> posts_only s (finish st er t)"
  by (simp add: finish_def posts_only_post posts_only_cong)

lemma posts_only_flush: "posts_only s t \<Longrightarrow> posts_only s (flush_stream t)"
  by (simp add: flush_stream_def posts_only_post posts_only_cong)

lemma posts_only_header: "posts_only s (on_header_line status line s)"
  by (auto simp: on_header_line_def on_headers_complete_def Let_def posts_only_same
      intro: posts_only_post split: option.split)

lemma posts_only_write: "posts_only s (snd (write_callback h status data s))"
proof (cases "sink_for s status")
  case Sink_Stream
  have "posts_only s (snd (write_stream data s))"
    by (auto simp: write_stream_def Let_def posts_only_same intro: posts_only_flush)
  with Sink_Stream show ?thesis by (simp add: write_callback_def)
next
  case Sink_File
  then show ?thesis
    by (auto simp: write_callback_def write_file_eq Let_def posts_only_same split: option.split)
next
  case Sink_Memory
  then show ?thesis by (simp add: write_callback_def write_memory_def Let_def posts_only_same)
qed

lemma posts_only_quiet:
  "posts_only s (snd (read_callback n s))" "posts_only s (snd (seek_callback off origin s))"
  "posts_only s (store_curl_error text s)" "posts_only s (snd (on_stream_consumed bytes s))"
  "posts_only s (snd (progress_callback h a b c d s))"
  by (auto simp: read_callback_def seek_callback_def store_curl_error_def on_stream_consumed_def
      progress_callback_def post_progress_def Let_def posts_only_same intro: posts_only_post
      split: option.split prod.split)

lemma posts_only_begin: "posts_only s (snd (begin_attempt h s))"
proof -
  let ?b = "(attempt_base s)\<lparr>m_easy := Some []\<rparr>"
  have o: "io_queue s3 = io_queue s" if "open_files h ?b = (ok, s3)" for ok s3
    using open_files_frame(14) [of h ?b] that by (simp add: frame_simps)
  show ?thesis
    by (cases rule: begin_attempt_cases [of s h])
      (auto simp: posts_only_same frame_simps o intro!: posts_only_finish)
qed

lemma posts_only_done: "posts_only s (on_attempt_done h code s)"
proof -
  have base: "posts_only s (done_base h s)" by (rule posts_only_same) (simp add: frame_simps)
  have u: "posts_only s ((done_base h s)\<lparr>io_files := fs\<rparr>)" for fs using base by (rule posts_only_cong) simp
  have r: "posts_only s (schedule_retry h (done_base h s))"
    using base by (rule posts_only_cong) (simp add: frame_simps)
  show ?thesis
    using base u r
    by (simp add: on_attempt_done_eq handle_transport_failure_def handle_http_failure_def
        handle_http_success_def finalize_download_def Let_def posts_only_finish posts_only_flush
        split: prod.split)
qed

lemma posts_only_cancel: "posts_only s (cancel s)"
  unfolding cancel_def by (rule posts_only_finish, rule posts_only_same) (simp add: frame_simps close_files_def)

lemma posts_only_step: "posts_only s (job_step i s)"
  by (cases i) (simp_all add: posts_only_header posts_only_write posts_only_quiet posts_only_begin
      posts_only_done posts_only_cancel)

lemma post_of: "queue_post e (queue_of es) = queue_of (es @ [e])"
  by (simp add: queue_of_def queue_post_def)

lemma fold_post_of: "fold queue_post fs (queue_of es) = queue_of (es @ fs)"
  by (induction fs arbitrary: es) (simp_all add: post_of)

text \<open>
  The events a step appends are the same whatever queue it appends them to, and everything else it
  does is independent of the queue.
\<close>

lemma step_on_queue:
  assumes "io_queue s = queue_of es"
  shows "job_step i s =
    (job_step i (s\<lparr>io_queue := queue_default\<rparr>))\<lparr>io_queue := queue_of (es @ emitted (job_step i) s)\<rparr>"
proof -
  let ?z = "s\<lparr>io_queue := queue_default\<rparr>"
  have s: "s = under (queue_before es) ?z"
    using assms by (simp add: under_def queue_default_of queue_of_before)
  obtain fs where "io_queue (job_step i ?z) = fold queue_post fs queue_default"
    using posts_only_step [of ?z i] by (auto simp: posts_only_def)
  then have q: "io_queue (job_step i ?z) = queue_of fs" by (simp add: queue_default_of fold_post_of)
  then have "emitted (job_step i) s = fs" by (simp add: emitted_def queue_of_def)
  moreover have "job_step i s = under (queue_before es) (job_step i ?z)"
    using step_under [OF queue_before_hom, of i es ?z] s by simp
  ultimately show ?thesis by (simp add: under_def q queue_of_before)
qed

end
