(* ===== verification/Rest_Transfer.thy ===== *)
theory Rest_Transfer
  imports Rest_Local
begin

text \<open>
  The transfer thread, \<open>class TransferThread\<close> of \<open>src/transfer_thread.cpp\<close>. The record holds its
  members; a \<open>world\<close> is what every job can reach through pointers: the file system and the event
  queue. The vectors of \<open>unique_ptr<RestJob>\<close> are lists of jobs, a pointer to an active job is its
  index. The three methods of the main thread and \<open>TakePending\<close> each hold the lock for their whole
  effect, so each is one step. \<open>curl_multi_wakeup\<close> changes no state of the program.
\<close>

section \<open>State\<close>

type_synonym world = "file_system \<times> main_thread_queue"

record transfer_thread =
  tt_multi :: bool
  tt_running :: bool
  tt_incoming :: "rest_job list"
  tt_cancelRequests :: "int list"
  tt_consumeRequests :: "(int \<times> int) list"
  tt_active :: "rest_job list"
  tt_world :: world

definition kMaxWaitMs :: int where
  "kMaxWaitMs = 1000"

definition job_id :: "rest_job \<Rightarrow> int" where
  "job_id job = spec_id (m_spec job)"

text \<open>Calling a member function of a job, in the world its pointers lead to.\<close>

definition call_job :: "(job_ctx \<Rightarrow> job_ctx) \<Rightarrow> rest_job \<Rightarrow> world \<Rightarrow> rest_job \<times> world" where
  "call_job f job w =
     (let s = f (job_ctx_of job (fst w) (snd w)) in (job_of s, (io_files s, io_queue s)))"

text \<open>Calling it on the element of a vector that the loop variable refers to.\<close>

definition call_at :: "('j \<Rightarrow> 'w \<Rightarrow> 'j \<times> 'w) \<Rightarrow> nat \<Rightarrow> 'j list \<times> 'w \<Rightarrow> 'j list \<times> 'w" where
  "call_at call i p = (let (job, w) = call (fst p ! i) (snd p) in ((fst p)[i := job], w))"

definition on_active :: "(job_ctx \<Rightarrow> job_ctx) \<Rightarrow> nat \<Rightarrow> transfer_thread \<Rightarrow> transfer_thread" where
  "on_active f i t =
     (let (jobs, w) = call_at (call_job f) i (tt_active t, tt_world t)
      in t\<lparr>tt_active := jobs, tt_world := w\<rparr>)"

section \<open>What the main thread calls\<close>

definition tt_start :: "bool \<Rightarrow> transfer_thread \<Rightarrow> bool \<times> transfer_thread" where
  "tt_start multiInit t =
     (let t1 = t\<lparr>tt_multi := multiInit\<rparr>
      in if \<not> tt_multi t1 then (False, t1) else (True, t1\<lparr>tt_running := True\<rparr>))"

definition enqueue :: "rest_job \<Rightarrow> transfer_thread \<Rightarrow> transfer_thread" where
  "enqueue job t = t\<lparr>tt_incoming := tt_incoming t @ [job]\<rparr>"

definition tt_cancel :: "int \<Rightarrow> transfer_thread \<Rightarrow> transfer_thread" where
  "tt_cancel jobId t = t\<lparr>tt_cancelRequests := tt_cancelRequests t @ [jobId]\<rparr>"

definition tt_consume :: "int \<Rightarrow> int \<Rightarrow> transfer_thread \<Rightarrow> transfer_thread" where
  "tt_consume jobId bytes t = t\<lparr>tt_consumeRequests := tt_consumeRequests t @ [(jobId, bytes)]\<rparr>"

section \<open>The loop of the thread\<close>

definition take_pending ::
  "transfer_thread \<Rightarrow> (rest_job list \<times> int list \<times> (int \<times> int) list) \<times> transfer_thread" where
  "take_pending t =
     ((tt_incoming t, tt_cancelRequests t, tt_consumeRequests t),
      t\<lparr>tt_incoming := [], tt_cancelRequests := [], tt_consumeRequests := []\<rparr>)"

text \<open>\<open>env\<close> is what the environment answers to each job.\<close>

definition admit_job :: "(int \<Rightarrow> host) \<Rightarrow> rest_job \<Rightarrow> transfer_thread \<Rightarrow> transfer_thread" where
  "admit_job env job t =
     (let (job', w) = call_job (\<lambda>s. snd (begin_attempt (env (job_id job)) s)) job (tt_world t)
      in t\<lparr>tt_active := tt_active t @ [job'], tt_world := w\<rparr>)"

definition admit_incoming :: "(int \<Rightarrow> host) \<Rightarrow> rest_job list \<Rightarrow> transfer_thread \<Rightarrow> transfer_thread" where
  "admit_incoming env incoming t = fold (admit_job env) incoming t"

definition find_active :: "int \<Rightarrow> transfer_thread \<Rightarrow> nat option" where
  "find_active jobId t = find_index (\<lambda>job. job_id job = jobId \<and> \<not> m_finished job) (tt_active t)"

definition apply_cancellation :: "int \<Rightarrow> transfer_thread \<Rightarrow> transfer_thread" where
  "apply_cancellation jobId t =
     (case find_active jobId t of None \<Rightarrow> t | Some i \<Rightarrow> on_active cancel i t)"

definition apply_cancellations :: "int list \<Rightarrow> transfer_thread \<Rightarrow> transfer_thread" where
  "apply_cancellations cancelRequests t = fold apply_cancellation cancelRequests t"

definition apply_consume :: "int \<times> int \<Rightarrow> transfer_thread \<Rightarrow> transfer_thread" where
  "apply_consume request t =
     (case find_active (fst request) t of
        None \<Rightarrow> t
      | Some i \<Rightarrow> on_active (\<lambda>s. snd (on_stream_consumed (snd request) s)) i t)"

definition apply_consumed :: "(int \<times> int) list \<Rightarrow> transfer_thread \<Rightarrow> transfer_thread" where
  "apply_consumed consumeRequests t = fold apply_consume consumeRequests t"

text \<open>One round of the loop of \<open>StartDueRetries\<close>.\<close>

definition start_retry :: "(int \<Rightarrow> host) \<Rightarrow> int \<Rightarrow> nat \<Rightarrow> transfer_thread \<Rightarrow> transfer_thread" where
  "start_retry env now i t =
     (let job = tt_active t ! i
      in if is_retry_due job now then on_active (\<lambda>s. snd (begin_attempt (env (job_id job)) s)) i t else t)"

definition start_due_retries :: "(int \<Rightarrow> host) \<Rightarrow> int \<Rightarrow> transfer_thread \<Rightarrow> transfer_thread" where
  "start_due_retries env now t = fold (start_retry env now) [0..<length (tt_active t)] t"

text \<open>\<open>curl_multi_perform\<close>: libcurl calls back into the jobs, in the order it chooses.\<close>

definition curl_perform :: "(nat \<times> job_input) list \<Rightarrow> transfer_thread \<Rightarrow> transfer_thread" where
  "curl_perform calls t = fold (\<lambda>(i, input). on_active (job_step input) i) calls t"

text \<open>
  A message of \<open>curl_multi_info_read\<close>: a finished transfer with the job its private pointer leads to
  (none if it is null), or something else.
\<close>

datatype curl_message = MsgDone "nat option" host curl_code | MsgOther

fun reap_message :: "curl_message \<Rightarrow> transfer_thread \<Rightarrow> transfer_thread" where
  "reap_message MsgOther t = t"
| "reap_message (MsgDone None h code) t = t"
| "reap_message (MsgDone (Some i) h code) t = on_active (on_attempt_done h code) i t"

definition reap_completed :: "curl_message list \<Rightarrow> transfer_thread \<Rightarrow> transfer_thread" where
  "reap_completed messages t = fold reap_message messages t"

definition remove_finished :: "transfer_thread \<Rightarrow> transfer_thread" where
  "remove_finished t = t\<lparr>tt_active := filter (\<lambda>job. \<not> m_finished job) (tt_active t)\<rparr>"

definition compute_wait_ms :: "int \<Rightarrow> transfer_thread \<Rightarrow> int" where
  "compute_wait_ms now t =
     fold (\<lambda>job waitMs.
        if \<not> m_waitingForRetry job then waitMs
        else let remaining = (m_retryAt job - now) sdiv 1000000
             in min waitMs (max 0 (to_i32 remaining)))
       (tt_active t) kMaxWaitMs"

text \<open>
  One round of \<open>Run\<close>: the environment gives the hosts of the attempts that begin, the clock at
  \<open>StartDueRetries\<close> and at \<open>ComputeWaitMs\<close>, the calls of \<open>curl_multi_perform\<close> and the messages.
  The second result is what \<open>curl_multi_poll\<close> may wait.
\<close>

definition run_iteration ::
  "(int \<Rightarrow> host) \<Rightarrow> int \<Rightarrow> (nat \<times> job_input) list \<Rightarrow> curl_message list \<Rightarrow> int \<Rightarrow>
     transfer_thread \<Rightarrow> transfer_thread \<times> int" where
  "run_iteration env now calls messages later t =
     (let ((incoming, cancels, consumes), t1) = take_pending t;
          t2 = admit_incoming env incoming t1;
          t3 = apply_cancellations cancels t2;
          t4 = apply_consumed consumes t3;
          t5 = start_due_retries env now t4;
          t6 = curl_perform calls t5;
          t7 = reap_completed messages t6;
          t8 = remove_finished t7
      in (t8, compute_wait_ms later t8))"

text \<open>\<open>Stop\<close>, after the thread has been joined.\<close>

definition tt_stop :: "transfer_thread \<Rightarrow> transfer_thread" where
  "tt_stop t =
     (if \<not> tt_running t then t
      else let t1 = t\<lparr>tt_running := False\<rparr>;
               t2 = fold (on_active cancel) [0..<length (tt_active t1)] t1
           in t2\<lparr>tt_active := [], tt_incoming := [], tt_multi := False\<rparr>)"

section \<open>The contract between the thread and its jobs\<close>

lemma map_call_at:
  assumes "\<And>j w. g (fst (call j w)) = g j"
  shows "map g (fst (call_at call i p)) = map g (fst p)"
proof (cases "i < length (fst p)")
  case True
  then have "(map g (fst p))[i := g (fst p ! i)] = map g (fst p)" by (metis list_update_id nth_map)
  with assms show ?thesis by (simp add: call_at_def split_beta map_update)
next
  case False
  then show ?thesis by (simp add: call_at_def split_beta list_update_beyond)
qed

lemma length_call_at [simp]: "length (fst (call_at call i p)) = length (fst p)"
  by (simp add: call_at_def split_beta)

lemma nth_call_at:
  "i < length (fst p) \<Longrightarrow>
     fst (call_at call i p) ! k = (if k = i then fst (call (fst p ! i) (snd p)) else fst p ! k)"
  by (simp add: call_at_def split_beta nth_list_update)

text \<open>A loop whose round \<open>i\<close> establishes \<open>Q\<close> at \<open>i\<close> and leaves the other elements alone.\<close>

lemma walk_establishes:
  assumes same: "\<And>i p. length (fst (round i p)) = length (fst p)"
    and other: "\<And>i k p. k \<noteq> i \<Longrightarrow> i < length (fst p) \<Longrightarrow> fst (round i p) ! k = fst p ! k"
    and est: "\<And>i p. i < length (fst p) \<Longrightarrow> Q (fst (round i p) ! i)"
  shows "\<forall>j \<in> set (fst (fold round [0..<length (fst p)] p)). Q j"
proof -
  have "n \<le> length (fst p) \<Longrightarrow> length (fst (fold round [0..<n] p)) = length (fst p) \<and>
      (\<forall>i < n. Q (fst (fold round [0..<n] p) ! i))" for n
  proof (induction n)
    case (Suc n)
    then show ?case using same other est by (simp add: less_Suc_eq)
  qed simp
  from this [of "length (fst p)"] show ?thesis by (auto simp: in_set_conv_nth)
qed

text \<open>
  What the thread relies on when it walks over its jobs: an operation keeps the identity of a job,
  starting a job ends its wait, cancelling finishes it. The client lemmas are about the loops.
\<close>

locale managed_jobs =
  fixes ident :: "'j \<Rightarrow> int"
    and finished :: "'j \<Rightarrow> bool"
    and due :: "'j \<Rightarrow> int \<Rightarrow> bool"
    and start :: "'e \<Rightarrow> 'j \<Rightarrow> 'w \<Rightarrow> 'j \<times> 'w"
    and stop :: "'j \<Rightarrow> 'w \<Rightarrow> 'j \<times> 'w"
  assumes ident_start: "ident (fst (start e j w)) = ident j"
    and ident_stop: "ident (fst (stop j w)) = ident j"
    and start_not_due: "\<not> due (fst (start e j w)) now"
    and stop_finished: "finished (fst (stop j w))"
begin

lemma start_walk_idents:
  "map ident (fst (fold (\<lambda>i p. if due (fst p ! i) now then call_at (start e) i p else p) idxs p)) =
     map ident (fst p)"
  by (induction idxs arbitrary: p) (simp_all add: map_call_at ident_start)

lemma start_walk_none_due:
  "\<forall>j \<in> set (fst (fold (\<lambda>i p. if due (fst p ! i) now then call_at (start e) i p else p)
       [0..<length (fst p)] p)). \<not> due j now"
  by (rule walk_establishes) (simp_all add: nth_call_at start_not_due)

lemma stop_walk_idents: "map ident (fst (fold (call_at stop) idxs p)) = map ident (fst p)"
  by (induction idxs arbitrary: p) (simp_all add: map_call_at ident_stop)

lemma stop_walk_finished: "\<forall>j \<in> set (fst (fold (call_at stop) [0..<length (fst p)] p)). finished j"
  by (rule walk_establishes) (simp_all add: nth_call_at stop_finished)

end

lemma job_of_select [simp]:
  "m_spec (job_of s) = m_spec s" "m_finished (job_of s) = m_finished s"
  "m_waitingForRetry (job_of s) = m_waitingForRetry s" "m_retryAt (job_of s) = m_retryAt s"
  "m_attached (job_of s) = m_attached s" "m_attempt (job_of s) = m_attempt s"
  by (simp_all add: job_of_def rest_job.truncate_def)

lemma job_ctx_select [simp]:
  "m_spec (job_ctx_of j fs q) = m_spec j" "m_finished (job_ctx_of j fs q) = m_finished j"
  "m_waitingForRetry (job_ctx_of j fs q) = m_waitingForRetry j" "m_retryAt (job_ctx_of j fs q) = m_retryAt j"
  "m_attached (job_ctx_of j fs q) = m_attached j" "m_attempt (job_ctx_of j fs q) = m_attempt j"
  "io_files (job_ctx_of j fs q) = fs" "io_queue (job_ctx_of j fs q) = q"
  by (simp_all add: job_ctx_of_def rest_job.extend_def)

lemma job_ctx_of_job_of [simp]: "job_ctx_of (job_of s) (io_files s) (io_queue s) = s"
  by (simp add: job_ctx_of_def job_of_def rest_job.extend_def rest_job.truncate_def)

lemma job_of_ctx [simp]: "job_of (job_ctx_of j fs q) = j"
  by (simp add: job_ctx_of_def job_of_def rest_job.extend_def rest_job.truncate_def)

lemma call_job_fst: "fst (call_job f j w) = job_of (f (job_ctx_of j (fst w) (snd w)))"
  by (simp add: call_job_def Let_def)

lemma begin_ends_wait: "\<not> m_waitingForRetry (snd (begin_attempt h s))"
proof (cases rule: begin_attempt_cases [of s h])
  case (no_file s3)
  then show ?thesis using open_files_frame [of h "(attempt_base s)\<lparr>m_easy := Some []\<rparr>"]
    by (simp add: finish_def frame_simps)
next
  case (not_added s3 error)
  then show ?thesis using open_files_frame [of h "(attempt_base s)\<lparr>m_easy := Some []\<rparr>"]
    by (simp add: finish_def frame_simps)
next
  case (attached s3)
  then show ?thesis using open_files_frame [of h "(attempt_base s)\<lparr>m_easy := Some []\<rparr>"]
    by (simp add: frame_simps)
qed (simp_all add: finish_def frame_simps)

lemma begin_keeps_spec: "m_spec (snd (begin_attempt h s)) = m_spec s"
  using step_spec [of "InBegin h" s] by simp

lemma cancel_keeps_spec: "m_spec (cancel s) = m_spec s"
  using step_spec [of InCancel s] by simp

lemma cancel_done: "m_finished (cancel s)"
  by (simp add: cancel_def)

interpretation mj: managed_jobs job_id m_finished is_retry_due
  "\<lambda>env job. call_job (\<lambda>s. snd (begin_attempt (env (job_id job)) s)) job" "call_job cancel"
  by unfold_locales (simp_all add: call_job_fst job_id_def begin_keeps_spec cancel_keeps_spec
      is_retry_due_def begin_ends_wait cancel_done)

section \<open>The loops of the thread as walks\<close>

definition jobs_world :: "transfer_thread \<Rightarrow> rest_job list \<times> world" where
  "jobs_world t = (tt_active t, tt_world t)"

abbreviation begin_with :: "(int \<Rightarrow> host) \<Rightarrow> rest_job \<Rightarrow> world \<Rightarrow> rest_job \<times> world" where
  "begin_with env job \<equiv> call_job (\<lambda>s. snd (begin_attempt (env (job_id job)) s)) job"

lemma jobs_world_select: "tt_active t = fst (jobs_world t)" "tt_world t = snd (jobs_world t)"
  by (simp_all add: jobs_world_def)

lemma jobs_world_on_active: "jobs_world (on_active f i t) = call_at (call_job f) i (jobs_world t)"
  by (simp add: jobs_world_def on_active_def split_beta)

lemma jobs_world_retries:
  "jobs_world (start_due_retries env now t) =
     fold (\<lambda>i p. if is_retry_due (fst p ! i) now then call_at (begin_with env) i p else p)
       [0..<length (tt_active t)] (jobs_world t)"
proof -
  have "jobs_world (fold (start_retry env now) is t) =
      fold (\<lambda>i p. if is_retry_due (fst p ! i) now then call_at (begin_with env) i p else p) is (jobs_world t)" for "is"
  proof (induction "is" arbitrary: t)
    case (Cons i "is")
    have "jobs_world (start_retry env now i t) =
        (if is_retry_due (fst (jobs_world t) ! i) now then call_at (begin_with env) i (jobs_world t) else jobs_world t)"
      by (simp add: start_retry_def Let_def jobs_world_on_active) (simp add: jobs_world_def call_at_def)
    then show ?case using Cons.IH by simp
  qed simp
  then show ?thesis by (simp add: start_due_retries_def)
qed

lemma on_active_ids:
  assumes "\<And>s. m_spec (f s) = m_spec s"
  shows "map job_id (tt_active (on_active f i t)) = map job_id (tt_active t)"
  unfolding jobs_world_select jobs_world_on_active
  by (rule map_call_at) (simp add: job_id_def call_job_fst assms)

lemma on_active_rest [simp]:
  "tt_incoming (on_active f i t) = tt_incoming t" "tt_cancelRequests (on_active f i t) = tt_cancelRequests t"
  "tt_consumeRequests (on_active f i t) = tt_consumeRequests t" "tt_running (on_active f i t) = tt_running t"
  "tt_multi (on_active f i t) = tt_multi t" "length (tt_active (on_active f i t)) = length (tt_active t)"
  by (simp_all add: on_active_def call_at_def split_beta)

lemma consumed_keeps_spec: "m_spec (snd (on_stream_consumed n s)) = m_spec s"
  by (simp add: on_stream_consumed_def Let_def)

lemma done_keeps_spec: "m_spec (on_attempt_done h code s) = m_spec s"
  using step_spec [of "InDone h code" s] by simp

text \<open>What no phase but the first touches, and that no phase changes which jobs there are.\<close>

definition same_jobs :: "transfer_thread \<Rightarrow> transfer_thread \<Rightarrow> bool" where
  "same_jobs t u \<longleftrightarrow>
     map job_id (tt_active u) = map job_id (tt_active t) \<and> tt_incoming u = tt_incoming t \<and>
     tt_cancelRequests u = tt_cancelRequests t \<and> tt_consumeRequests u = tt_consumeRequests t \<and>
     tt_running u = tt_running t \<and> tt_multi u = tt_multi t"

lemma same_jobs_refl [simp]: "same_jobs t t"
  by (simp add: same_jobs_def)

lemma same_jobs_trans: "same_jobs t u \<Longrightarrow> same_jobs u v \<Longrightarrow> same_jobs t v"
  by (simp add: same_jobs_def)

lemma same_jobs_on_active: "(\<And>s. m_spec (f s) = m_spec s) \<Longrightarrow> same_jobs t (on_active f i t)"
  by (simp add: same_jobs_def on_active_ids)

lemma same_jobs_fold: "(\<And>x t. same_jobs t (f x t)) \<Longrightarrow> same_jobs t (fold f xs t)"
  by (induction xs arbitrary: t) (simp, metis fold_simps(2) same_jobs_trans)

lemma same_jobs_phases:
  "same_jobs t (apply_cancellations cancels t)" "same_jobs t (apply_consumed consumes t)"
  "same_jobs t (start_due_retries env now t)" "same_jobs t (curl_perform calls t)"
  "same_jobs t (reap_completed messages t)"
proof -
  have m: "same_jobs t (reap_message m t)" for m t
    by (cases "(m, t)" rule: reap_message.cases) (simp_all add: same_jobs_on_active done_keeps_spec)
  show "same_jobs t (apply_cancellations cancels t)" "same_jobs t (apply_consumed consumes t)"
    "same_jobs t (start_due_retries env now t)" "same_jobs t (curl_perform calls t)"
    "same_jobs t (reap_completed messages t)"
    unfolding apply_cancellations_def apply_consumed_def start_due_retries_def curl_perform_def reap_completed_def
    by (auto intro!: same_jobs_fold m simp: apply_cancellation_def apply_consume_def start_retry_def Let_def
        same_jobs_on_active cancel_keeps_spec consumed_keeps_spec begin_keeps_spec step_spec
        split: option.split prod.split)
qed

lemma admit_ids:
  "map job_id (tt_active (admit_incoming env js t)) = map job_id (tt_active t) @ map job_id js"
  "tt_incoming (admit_incoming env js t) = tt_incoming t"
  "tt_cancelRequests (admit_incoming env js t) = tt_cancelRequests t"
  "tt_consumeRequests (admit_incoming env js t) = tt_consumeRequests t"
  unfolding admit_incoming_def
  by (induction js arbitrary: t)
    (simp_all add: admit_job_def split_beta job_id_def call_job_fst begin_keeps_spec)

end
