(* ===== verification/Rest_Objects.thy ===== *)
theory Rest_Objects
  imports Rest_Transfer "HOL-Library.AList"
begin

text \<open>
  The main-thread side of \<open>src/extension.h\<close>: the objects behind the plugin's handles, the record of a
  job, and the state of \<open>class RestExtension\<close> with the globals it works on. SourceMod itself (the
  handle system, forwards, paths) is not part of the repository: what it answers is the record
  \<open>sourcemod\<close>, a parameter of the operations, and what the extension does to it that no field of the
  state shows (creating, releasing and executing forwards, writing the error log) is kept in order
  in \<open>x_log\<close>.
\<close>

text \<open>A \<open>Handle_t\<close>, an \<open>IdentityToken_t *\<close> and an \<open>IChangeableForward *\<close>; a null forward is None.\<close>

type_synonym handle = int
type_synonym identity = nat
type_synonym forward = nat

text \<open>Two constants of the SourceMod interface: no handle, and the least action that blocks.\<close>

abbreviation (input) BAD_HANDLE :: handle where "BAD_HANDLE \<equiv> 0"
abbreviation (input) Pl_Continue :: int where "Pl_Continue \<equiv> 0"
abbreviation (input) Pl_Handled :: int where "Pl_Handled \<equiv> 3"

record client_object =
  co_config :: client_config
  co_handle :: handle

record request_object =
  ro_spec :: request_spec
  ro_clientHandle :: handle
  ro_headers :: "forward option"
  ro_data :: "forward option"
  ro_progress :: "forward option"

record response_object =
  rs_status :: rest_status
  rs_httpStatus :: int
  rs_contentLength :: int
  rs_bodyLength :: int
  rs_elapsedMs :: int
  rs_error :: string
  rs_url :: string
  rs_headers :: header_list
  rs_body :: string

record job_record =
  jr_id :: int
  jr_clientHandle :: handle
  jr_owner :: identity
  jr_completed :: "forward option"
  jr_headers :: "forward option"
  jr_data :: "forward option"
  jr_progress :: "forward option"
  jr_context :: int
  jr_dispatching :: bool
  jr_dropped :: bool

definition client_object_default :: client_object where
  "client_object_default = \<lparr>co_config = client_config_default, co_handle = BAD_HANDLE\<rparr>"

definition request_object_default :: request_object where
  "request_object_default =
     \<lparr>ro_spec = request_spec_default, ro_clientHandle = BAD_HANDLE, ro_headers = None, ro_data = None,
      ro_progress = None\<rparr>"

definition job_record_default :: job_record where
  "job_record_default =
     \<lparr>jr_id = 0, jr_clientHandle = BAD_HANDLE, jr_owner = 0, jr_completed = None, jr_headers = None,
      jr_data = None, jr_progress = None, jr_context = 0, jr_dispatching = False, jr_dropped = False\<rparr>"

text \<open>The three handle types (\<open>g_ClientType\<close>, \<open>g_RequestType\<close>, \<open>g_ResponseType\<close>) and their objects.\<close>

datatype handle_type = ClientType | RequestType | ResponseType

datatype rest_object =
    ObjClient client_object
  | ObjRequest request_object
  | ObjResponse response_object

fun type_name :: "handle_type \<Rightarrow> string" where
  "type_name ClientType = ''RESTClient''"
| "type_name RequestType = ''RESTRequest''"
| "type_name ResponseType = ''RESTResponse''"

section \<open>What the extension asks of SourceMod\<close>

text \<open>
  What \<open>Execute\<close> passes to a plugin: the forward and the cells pushed, in order (the chunk as a byte
  string).
\<close>

datatype plugin_call =
    CallProgress (call_forward: forward) handle int int int int int
  | CallHeaders (call_forward: forward) handle handle int
  | CallData (call_forward: forward) handle string int int
  | CallComplete (call_forward: forward) handle handle int

text \<open>
  How a forward is declared when it is created: how results are combined and the types of its
  parameters; and the declaration each kind of call fits.
\<close>

datatype exec_type = ET_Ignore | ET_Single
datatype param_type = Param_Cell | Param_String

type_synonym signature = "exec_type \<times> param_type list"

fun call_signature :: "plugin_call \<Rightarrow> signature" where
  "call_signature (CallProgress f client downloaded downloadTotal uploaded uploadTotal context) =
     (ET_Ignore, [Param_Cell, Param_Cell, Param_Cell, Param_Cell, Param_Cell, Param_Cell])"
| "call_signature (CallHeaders f client response context) =
     (ET_Single, [Param_Cell, Param_Cell, Param_Cell])"
| "call_signature (CallData f client chunk len context) =
     (ET_Ignore, [Param_Cell, Param_String, Param_Cell, Param_Cell])"
| "call_signature (CallComplete f client response context) =
     (ET_Ignore, [Param_Cell, Param_Cell, Param_Cell])"

text \<open>
  The effects on SourceMod, in the order they happen. A call is tagged with the id of the job record
  it is made for.
\<close>

datatype sm_effect =
    Fx_Create forward signature
  | Fx_Release forward
  | Fx_Call int plugin_call
  | Fx_LogError string

text \<open>
  The answers of SourceMod during one operation: whether the security check of a handle passes, the
  handle \<open>CreateHandle\<close> gives (\<open>BAD_HANDLE\<close> if it fails), the error code of a failing call, whether
  \<open>FreeHandle\<close> destroys the object, whether a function id is valid, the forward \<open>CreateForwardEx\<close>
  gives, \<open>GetFunctionCount\<close>, the paths \<open>BuildPath\<close> builds (in the game and in the SourceMod
  directory), the files that exist, the environment variables, the bytes \<open>StringToLocalUTF8\<close> stores
  in a buffer of a given size, and what a moved-from \<open>RequestSpec\<close> holds.
\<close>

record sourcemod =
  sm_access :: "handle \<Rightarrow> bool"
  sm_new_handle :: handle
  sm_error :: int
  sm_destroyed :: "handle \<Rightarrow> bool"
  sm_function :: "int \<Rightarrow> bool"
  sm_new_forward :: "forward option"
  sm_function_count :: "forward \<Rightarrow> nat"
  sm_game_path :: "string \<Rightarrow> string"
  sm_path :: "string \<Rightarrow> string"
  sm_path_exists :: "string \<Rightarrow> bool"
  sm_getenv :: "string \<Rightarrow> string option"
  sm_utf8 :: "int \<Rightarrow> string \<Rightarrow> string"
  sm_moved_from :: "request_spec \<Rightarrow> request_spec"

section \<open>The state of the main thread\<close>

text \<open>
  \<open>m_jobs\<close> is an \<open>unordered_map\<close>, whose order is unspecified; here it is an association list with
  distinct keys, and so are the objects behind the live handles. \<open>x_thread\<close> is \<open>g_TransferThread\<close>; the
  queue \<open>g_MainQueue\<close> is part of its world.
\<close>

record rest_state =
  x_jobs :: "(int \<times> job_record) list"
  x_nextJobId :: int
  x_caBundlePath :: string
  x_verbose :: bool
  x_thread :: transfer_thread
  x_objects :: "(handle \<times> rest_object) list"
  x_types :: "handle_type list"
  x_hooked :: bool
  x_log :: "sm_effect list"

definition main_queue :: "rest_state \<Rightarrow> main_thread_queue" where
  "main_queue st = snd (tt_world (x_thread st))"

definition set_main_queue :: "main_thread_queue \<Rightarrow> rest_state \<Rightarrow> rest_state" where
  "set_main_queue q st =
     st\<lparr>x_thread := (x_thread st)\<lparr>tt_world := (fst (tt_world (x_thread st)), q)\<rparr>\<rparr>"

definition sm_log :: "sm_effect \<Rightarrow> rest_state \<Rightarrow> rest_state" where
  "sm_log fx st = st\<lparr>x_log := x_log st @ [fx]\<rparr>"

definition on_thread :: "(transfer_thread \<Rightarrow> transfer_thread) \<Rightarrow> rest_state \<Rightarrow> rest_state" where
  "on_thread f st = st\<lparr>x_thread := f (x_thread st)\<rparr>"

text \<open>The code a plugin runs when one of its functions is executed: it may do anything to the state.\<close>

type_synonym plugin_code = "plugin_call \<Rightarrow> rest_state \<Rightarrow> int \<times> rest_state"

definition execute :: "plugin_code \<Rightarrow> int \<Rightarrow> plugin_call \<Rightarrow> rest_state \<Rightarrow> int \<times> rest_state" where
  "execute plugin jobId call st = plugin call (sm_log (Fx_Call jobId call) st)"

section \<open>Helpers of extension.h\<close>

definition clamp_to_cell :: "int \<Rightarrow> int" where
  "clamp_to_cell v =
     (if v > 2147483647 then 2147483647
      else if v < - 2147483648 then to_i32 (- 2147483648)
      else to_i32 v)"

definition release_forward :: "forward option \<Rightarrow> rest_state \<Rightarrow> forward option \<times> rest_state" where
  "release_forward fwd st =
     (case fwd of None \<Rightarrow> (None, st) | Some f \<Rightarrow> (None, sm_log (Fx_Release f) st))"

lemma clamp_to_cell_eq: "clamp_to_cell v = max (- 2147483648) (min v 2147483647)"
  by (simp add: clamp_to_cell_def is_i32_def)

lemma clamp_to_cell_id: "is_i32 v \<Longrightarrow> clamp_to_cell v = v"
  by (simp add: clamp_to_cell_def is_i32_def)

lemma sm_log_select [simp]:
  "x_jobs (sm_log fx st) = x_jobs st" "x_nextJobId (sm_log fx st) = x_nextJobId st"
  "x_caBundlePath (sm_log fx st) = x_caBundlePath st" "x_verbose (sm_log fx st) = x_verbose st"
  "x_thread (sm_log fx st) = x_thread st" "x_objects (sm_log fx st) = x_objects st"
  "x_types (sm_log fx st) = x_types st" "x_hooked (sm_log fx st) = x_hooked st"
  "x_log (sm_log fx st) = x_log st @ [fx]"
  by (simp_all add: sm_log_def)

lemma on_thread_select [simp]:
  "x_jobs (on_thread f st) = x_jobs st" "x_nextJobId (on_thread f st) = x_nextJobId st"
  "x_caBundlePath (on_thread f st) = x_caBundlePath st" "x_verbose (on_thread f st) = x_verbose st"
  "x_thread (on_thread f st) = f (x_thread st)" "x_objects (on_thread f st) = x_objects st"
  "x_types (on_thread f st) = x_types st" "x_hooked (on_thread f st) = x_hooked st"
  "x_log (on_thread f st) = x_log st"
  by (simp_all add: on_thread_def)

lemma set_main_queue_select [simp]:
  "x_jobs (set_main_queue q st) = x_jobs st" "x_nextJobId (set_main_queue q st) = x_nextJobId st"
  "x_caBundlePath (set_main_queue q st) = x_caBundlePath st" "x_verbose (set_main_queue q st) = x_verbose st"
  "x_objects (set_main_queue q st) = x_objects st" "main_queue (set_main_queue q st) = q"
  "x_types (set_main_queue q st) = x_types st" "x_hooked (set_main_queue q st) = x_hooked st"
  "x_log (set_main_queue q st) = x_log st"
  "tt_consumeRequests (x_thread (set_main_queue q st)) = tt_consumeRequests (x_thread st)"
  "tt_cancelRequests (x_thread (set_main_queue q st)) = tt_cancelRequests (x_thread st)"
  "tt_incoming (x_thread (set_main_queue q st)) = tt_incoming (x_thread st)"
  by (simp_all add: set_main_queue_def main_queue_def)

end
