(* ===== verification/Rest_Extension.thy ===== *)
theory Rest_Extension
  imports Rest_Objects
begin

text \<open>
  \<open>class RestExtension\<close> of \<open>src/extension.cpp\<close>: loading and unloading, the table of jobs, who may cancel
  or drop them, and the dispatch of the events of the transfer thread to plugin callbacks. Everything
  here runs on the main thread. \<open>ReleaseRecord\<close> and \<open>ReleaseForward\<close> take references; they return
  what they leave in them.
\<close>

section \<open>Job records\<close>

definition release_record :: "job_record \<Rightarrow> rest_state \<Rightarrow> job_record \<times> rest_state" where
  "release_record record st =
     (let (completed, st1) = release_forward (jr_completed record) st;
          (headers, st2) = release_forward (jr_headers record) st1;
          (data, st3) = release_forward (jr_data record) st2;
          (progress, st4) = release_forward (jr_progress record) st3
      in (record\<lparr>jr_completed := completed, jr_headers := headers, jr_data := data,
            jr_progress := progress\<rparr>, st4))"

text \<open>A change through a reference or an iterator into \<open>m_jobs\<close>, and \<open>erase\<close>.\<close>

definition update_record :: "int \<Rightarrow> (job_record \<Rightarrow> job_record) \<Rightarrow> rest_state \<Rightarrow> rest_state" where
  "update_record jobId f st =
     (case map_of (x_jobs st) jobId of
        None \<Rightarrow> st
      | Some record \<Rightarrow> st\<lparr>x_jobs := AList.update jobId (f record) (x_jobs st)\<rparr>)"

definition erase_record :: "int \<Rightarrow> rest_state \<Rightarrow> rest_state" where
  "erase_record jobId st = st\<lparr>x_jobs := AList.delete jobId (x_jobs st)\<rparr>"

definition drop_job :: "int \<Rightarrow> rest_state \<Rightarrow> rest_state" where
  "drop_job jobId st =
     (let st1 = on_thread (tt_cancel jobId) st
      in case map_of (x_jobs st1) jobId of
           None \<Rightarrow> st1
         | Some record \<Rightarrow>
             if jr_dispatching record then update_record jobId (\<lambda>r. r\<lparr>jr_dropped := True\<rparr>) st1
             else erase_record jobId (snd (release_record record st1)))"

text \<open>The two loops over the table: they drop the entries that match.\<close>

definition drop_matching :: "(job_record \<Rightarrow> bool) \<Rightarrow> rest_state \<Rightarrow> rest_state" where
  "drop_matching P st =
     fold (\<lambda>(jobId, record) st. if \<not> P record then st else drop_job jobId st) (x_jobs st) st"

definition on_plugin_unloaded :: "identity \<Rightarrow> rest_state \<Rightarrow> rest_state" where
  "on_plugin_unloaded who st = drop_matching (\<lambda>record. jr_owner record = who) st"

definition drop_jobs_for_client :: "handle \<Rightarrow> rest_state \<Rightarrow> rest_state" where
  "drop_jobs_for_client clientHandle st =
     drop_matching (\<lambda>record. jr_clientHandle record = clientHandle) st"

section \<open>What the natives call\<close>

definition submit_job :: "request_spec \<Rightarrow> job_record \<Rightarrow> rest_state \<Rightarrow> int \<times> rest_state" where
  "submit_job spec record st =
     (let jobId = x_nextJobId st;
          st1 = st\<lparr>x_nextJobId := to_i32 (jobId + 1)\<rparr>;
          spec1 = spec\<lparr>spec_id := jobId, spec_caBundle := x_caBundlePath st1, spec_verbose := x_verbose st1\<rparr>;
          record1 = record\<lparr>jr_id := jobId\<rparr>;
          st2 = st1\<lparr>x_jobs := AList.update jobId record1 (x_jobs st1)\<rparr>
      in (jobId, on_thread (enqueue (new_job spec1)) st2))"

definition cancel_job :: "int \<Rightarrow> identity \<Rightarrow> rest_state \<Rightarrow> bool \<times> rest_state" where
  "cancel_job jobId requester st =
     (case map_of (x_jobs st) jobId of
        None \<Rightarrow> (False, st)
      | Some record \<Rightarrow>
          if jr_owner record \<noteq> requester then (False, st)
          else (True, on_thread (tt_cancel jobId) st))"

definition cancel_jobs_for_client :: "handle \<Rightarrow> identity \<Rightarrow> rest_state \<Rightarrow> int \<times> rest_state" where
  "cancel_jobs_for_client clientHandle requester st =
     fold (\<lambda>(jobId, record) (cancelled, st).
        if jr_clientHandle record \<noteq> clientHandle \<or> jr_owner record \<noteq> requester then (cancelled, st)
        else (cancelled + 1, on_thread (tt_cancel jobId) st))
       (x_jobs st) (0, st)"

section \<open>Handles\<close>

text \<open>What the handle system calls when it destroys an object.\<close>

fun on_handle_destroy :: "rest_object \<Rightarrow> rest_state \<Rightarrow> rest_state" where
  "on_handle_destroy (ObjClient client) st = drop_jobs_for_client (co_handle client) st"
| "on_handle_destroy (ObjRequest request) st =
     (let (_, st1) = release_forward (ro_headers request) st;
          (_, st2) = release_forward (ro_data request) st1;
          (_, st3) = release_forward (ro_progress request) st2
      in st3)"
| "on_handle_destroy (ObjResponse response) st = st"

text \<open>
  \<open>CreateHandle\<close> stores the object under the new handle; \<open>FreeHandle\<close> destroys it when this was the
  last reference to it (\<open>sm_destroyed\<close>).
\<close>

definition create_handle :: "sourcemod \<Rightarrow> rest_object \<Rightarrow> rest_state \<Rightarrow> handle \<times> rest_state" where
  "create_handle sm object st =
     (if sm_new_handle sm = BAD_HANDLE then (BAD_HANDLE, st)
      else (sm_new_handle sm, st\<lparr>x_objects := AList.update (sm_new_handle sm) object (x_objects st)\<rparr>))"

definition destroy_object :: "handle \<Rightarrow> rest_state \<Rightarrow> rest_state" where
  "destroy_object h st =
     (case map_of (x_objects st) h of
        None \<Rightarrow> st
      | Some object \<Rightarrow> on_handle_destroy object (st\<lparr>x_objects := AList.delete h (x_objects st)\<rparr>))"

definition free_handle :: "sourcemod \<Rightarrow> handle \<Rightarrow> rest_state \<Rightarrow> rest_state" where
  "free_handle sm h st = (if sm_destroyed sm h then destroy_object h st else st)"

definition free_owned_handle :: "sourcemod \<Rightarrow> handle \<Rightarrow> rest_state \<Rightarrow> rest_state" where
  "free_owned_handle sm h st = (if h = BAD_HANDLE then st else free_handle sm h st)"

definition response_of :: "transfer_event \<Rightarrow> response_object" where
  "response_of event =
     \<lparr>rs_status = ev_status event, rs_httpStatus = ev_httpStatus event,
      rs_contentLength = ev_contentLength event, rs_bodyLength = ev_bodyLength event,
      rs_elapsedMs = ev_elapsedMs event, rs_error = ev_error event, rs_url = ev_url event,
      rs_headers = ev_headers event, rs_body = ev_body event\<rparr>"

definition create_response_handle ::
  "sourcemod \<Rightarrow> transfer_event \<Rightarrow> rest_state \<Rightarrow> handle \<times> rest_state" where
  "create_response_handle sm event st =
     (let (h, st1) = create_handle sm (ObjResponse (response_of event)) st
      in if h = BAD_HANDLE
         then (h, sm_log (Fx_LogError
                (''Could not create RESTResponse handle (error '' @ to_dec (sm_error sm) @ '')'')) st1)
         else (h, st1))"

section \<open>Dispatch of events\<close>

definition dispatch_progress ::
  "sourcemod \<Rightarrow> plugin_code \<Rightarrow> job_record \<Rightarrow> transfer_event \<Rightarrow> rest_state \<Rightarrow> rest_state" where
  "dispatch_progress sm plugin record event st =
     (case jr_progress record of
        None \<Rightarrow> st
      | Some f \<Rightarrow>
          if sm_function_count sm f = 0 then st
          else snd (execute plugin (jr_id record)
                 (CallProgress f (jr_clientHandle record) (clamp_to_cell (ev_downloaded event))
                    (clamp_to_cell (ev_downloadTotal event)) (clamp_to_cell (ev_uploaded event))
                    (clamp_to_cell (ev_uploadTotal event)) (jr_context record)) st))"

definition dispatch_headers ::
  "sourcemod \<Rightarrow> plugin_code \<Rightarrow> job_record \<Rightarrow> transfer_event \<Rightarrow> rest_state \<Rightarrow> rest_state" where
  "dispatch_headers sm plugin record event st =
     (case jr_headers record of
        None \<Rightarrow> st
      | Some f \<Rightarrow>
          if sm_function_count sm f = 0 then st
          else let (responseHandle, st1) = create_response_handle sm event st
               in if responseHandle = BAD_HANDLE then st1
                  else let (result, st2) = execute plugin (jr_id record)
                             (CallHeaders f (jr_clientHandle record) responseHandle (jr_context record)) st1;
                           st3 = free_owned_handle sm responseHandle st2
                       in if result \<ge> Pl_Handled then on_thread (tt_cancel (jr_id record)) st3 else st3)"

definition dispatch_data ::
  "sourcemod \<Rightarrow> plugin_code \<Rightarrow> job_record \<Rightarrow> transfer_event \<Rightarrow> rest_state \<Rightarrow> rest_state" where
  "dispatch_data sm plugin record event st =
     (let len = int (length (ev_body event));
          st1 = (case jr_data record of
                   None \<Rightarrow> st
                 | Some f \<Rightarrow>
                     if sm_function_count sm f > 0
                     then snd (execute plugin (jr_id record)
                            (CallData f (jr_clientHandle record) (ev_body event @ [CHR 0x00])
                               (clamp_to_cell len) (jr_context record)) st)
                     else st)
      in on_thread (tt_consume (jr_id record) len) st1)"

definition dispatch_complete ::
  "sourcemod \<Rightarrow> plugin_code \<Rightarrow> job_record \<Rightarrow> transfer_event \<Rightarrow> rest_state \<Rightarrow> rest_state" where
  "dispatch_complete sm plugin record event st =
     (case jr_completed record of
        None \<Rightarrow> st
      | Some f \<Rightarrow>
          if sm_function_count sm f = 0 then st
          else let (responseHandle, st1) = create_response_handle sm event st
               in if responseHandle = BAD_HANDLE then st1
                  else free_owned_handle sm responseHandle
                         (snd (execute plugin (jr_id record)
                            (CallComplete f (jr_clientHandle record) responseHandle (jr_context record)) st1)))"

fun dispatch_kind ::
  "event_kind \<Rightarrow> sourcemod \<Rightarrow> plugin_code \<Rightarrow> job_record \<Rightarrow> transfer_event \<Rightarrow> rest_state \<Rightarrow> rest_state" where
  "dispatch_kind Kind_Progress sm plugin record event st = dispatch_progress sm plugin record event st"
| "dispatch_kind Kind_Headers sm plugin record event st = dispatch_headers sm plugin record event st"
| "dispatch_kind Kind_Data sm plugin record event st = dispatch_data sm plugin record event st"
| "dispatch_kind Kind_Complete sm plugin record event st = st"

text \<open>
  \<open>record\<close> is a reference into \<open>m_jobs\<close>: it is read again after the callback. That the entry is still
  there is a theorem (\<open>Rest_Session\<close>), the code relies on the flag \<open>dispatching\<close> for it.
\<close>

definition handle_intermediate ::
  "sourcemod \<Rightarrow> plugin_code \<Rightarrow> job_record \<Rightarrow> transfer_event \<Rightarrow> rest_state \<Rightarrow> rest_state" where
  "handle_intermediate sm plugin record event st =
     (let st1 = update_record (ev_jobId event) (\<lambda>r. r\<lparr>jr_dispatching := True\<rparr>) st;
          st2 = dispatch_kind (ev_kind event) sm plugin (record\<lparr>jr_dispatching := True\<rparr>) event st1;
          st3 = update_record (ev_jobId event) (\<lambda>r. r\<lparr>jr_dispatching := False\<rparr>) st2
      in case map_of (x_jobs st3) (ev_jobId event) of
           None \<Rightarrow> st3
         | Some r \<Rightarrow>
             if \<not> jr_dropped r then st3
             else erase_record (ev_jobId event) (snd (release_record r st3)))"

definition handle_event :: "sourcemod \<Rightarrow> plugin_code \<Rightarrow> transfer_event \<Rightarrow> rest_state \<Rightarrow> rest_state" where
  "handle_event sm plugin event st =
     (case map_of (x_jobs st) (ev_jobId event) of
        None \<Rightarrow> st
      | Some record \<Rightarrow>
          if ev_kind event \<noteq> Kind_Complete then handle_intermediate sm plugin record event st
          else let st1 = erase_record (ev_jobId event) st;
                   st2 = dispatch_complete sm plugin record event st1
               in snd (release_record record st2))"

text \<open>The loop of a frame; event number \<open>i\<close> gets the answers \<open>sms i\<close>.\<close>

fun handle_events ::
  "nat \<Rightarrow> (nat \<Rightarrow> sourcemod) \<Rightarrow> plugin_code \<Rightarrow> transfer_event list \<Rightarrow> rest_state \<Rightarrow> rest_state" where
  "handle_events i sms plugin [] st = st"
| "handle_events i sms plugin (event # events) st =
     handle_events (i + 1) sms plugin events (handle_event (sms i) plugin event st)"

definition on_game_frame :: "(nat \<Rightarrow> sourcemod) \<Rightarrow> plugin_code \<Rightarrow> rest_state \<Rightarrow> rest_state" where
  "on_game_frame sms plugin st =
     (if \<not> mq_hasEvents (main_queue st) then st
      else let (events, q) = queue_drain (main_queue st)
           in handle_events 0 sms plugin events (set_main_queue q st))"

section \<open>Loading and unloading\<close>

record load_answers =
  la_curl_init :: bool
  la_create_type :: "handle_type \<Rightarrow> bool"
  la_multi_init :: bool

text \<open>\<open>ke::SafeStrcpy\<close> and \<open>SafeSprintf\<close> into a buffer of \<open>maxlength\<close> bytes.\<close>

definition safe_str :: "nat \<Rightarrow> string \<Rightarrow> string" where
  "safe_str maxlength s = take (maxlength - 1) s"

fun create_handle_types ::
  "load_answers \<Rightarrow> sourcemod \<Rightarrow> nat \<Rightarrow> handle_type list \<Rightarrow> rest_state \<Rightarrow> string option \<times> rest_state" where
  "create_handle_types la sm maxlength [] st = (None, st)"
| "create_handle_types la sm maxlength (ty # types) st =
     (if \<not> la_create_type la ty
      then (Some (safe_str maxlength (''Could not create '' @ type_name ty @ '' handle type (error '' @
              to_dec (sm_error sm) @ '')'')), st)
      else create_handle_types la sm maxlength types (st\<lparr>x_types := x_types st @ [ty]\<rparr>))"

definition kSystemCaBundle :: string where
  "kSystemCaBundle = ''/etc/ssl/certs/ca-certificates.crt''"

definition detect_ca_bundle :: "sourcemod \<Rightarrow> rest_state \<Rightarrow> rest_state" where
  "detect_ca_bundle sm st =
     (let path = sm_path sm ''configs/rest/ca-bundle.crt''
      in if sm_path_exists sm path then st\<lparr>x_caBundlePath := path\<rparr>
         else if sm_path_exists sm kSystemCaBundle then st\<lparr>x_caBundlePath := kSystemCaBundle\<rparr>
         else sm_log (Fx_LogError (''No CA bundle found at '' @ path @ '' or '' @ kSystemCaBundle @
                ''; HTTPS requests will fail'')) st)"

definition detect_verbose :: "sourcemod \<Rightarrow> bool" where
  "detect_verbose sm =
     (case sm_getenv sm ''SM_REST_VERBOSE'' of None \<Rightarrow> False | Some v \<Rightarrow> v \<noteq> [] \<and> hd v = CHR ''1'')"

text \<open>The error text of a failed load, or None.\<close>

definition sdk_on_load ::
  "load_answers \<Rightarrow> sourcemod \<Rightarrow> nat \<Rightarrow> rest_state \<Rightarrow> string option \<times> rest_state" where
  "sdk_on_load la sm maxlength st =
     (if \<not> la_curl_init la then (Some (safe_str maxlength ''curl_global_init failed''), st)
      else case create_handle_types la sm maxlength [ClientType, RequestType, ResponseType] st of
        (Some error, st1) \<Rightarrow> (Some error, st1)
      | (None, st1) \<Rightarrow>
          let st2 = detect_ca_bundle sm st1;
              st3 = st2\<lparr>x_verbose := detect_verbose sm\<rparr>;
              (started, thread) = tt_start (la_multi_init la) (x_thread st3);
              st4 = st3\<lparr>x_thread := thread\<rparr>
          in if \<not> started then (Some (safe_str maxlength ''Could not start the transfer thread''), st4)
             else (None, st4\<lparr>x_hooked := True\<rparr>))"

text \<open>
  \<open>RemoveType\<close> destroys handles of the type: which ones, in which order, is the answer \<open>removed\<close> of the
  handle system (its interface documents: all that are left).
\<close>

definition remove_type :: "(handle_type \<Rightarrow> handle list) \<Rightarrow> handle_type \<Rightarrow> rest_state \<Rightarrow> rest_state" where
  "remove_type removed ty st = fold destroy_object (removed ty) (st\<lparr>x_types := removeAll ty (x_types st)\<rparr>)"

definition sdk_on_unload :: "(handle_type \<Rightarrow> handle list) \<Rightarrow> rest_state \<Rightarrow> rest_state" where
  "sdk_on_unload removed st =
     (let st1 = st\<lparr>x_hooked := False\<rparr>;
          st2 = set_main_queue (queue_set_enabled False (main_queue st1)) st1;
          st3 = on_thread tt_stop st2;
          st4 = set_main_queue (snd (queue_drain (main_queue st3))) st3;
          st5 = fold (\<lambda>(jobId, record) st. snd (release_record record st)) (x_jobs st4) st4;
          st6 = st5\<lparr>x_jobs := []\<rparr>
      in remove_type removed ClientType (remove_type removed RequestType (remove_type removed ResponseType st6)))"

end
