(* ===== verification/Rest_Uri.thy ===== *)
theory Rest_Uri
  imports Rest_Text "HOL-Library.Word"
begin

text \<open>
  \<open>src/uri.cpp\<close>: percent encoding, the test for an absolute URL, joining a base URL with a path
  and appending a query string. Bytes are \<open>8 word\<close> where the code shifts and masks them.
\<close>

unbundle bit_operations_syntax

section \<open>The operations\<close>

definition is_unreserved :: "char \<Rightarrow> bool" where
  "is_unreserved c =
     (let n = (of_char c :: nat)
      in if 65 \<le> n \<and> n \<le> 90 then True
         else if 97 \<le> n \<and> n \<le> 122 then True
         else if 48 \<le> n \<and> n \<le> 57 then True
         else c = CHR ''-'' \<or> c = CHR ''_'' \<or> c = CHR ''.'' \<or> c = CHR ''~'')"

definition hex_digits :: string where
  "hex_digits = ''0123456789ABCDEF''"

definition byte_of :: "char \<Rightarrow> 8 word" where
  "byte_of c = word_of_nat (of_char c)"

fun uri_encode :: "string \<Rightarrow> string" where
  "uri_encode [] = []"
| "uri_encode (c # input) =
     (if is_unreserved c then c # uri_encode input
      else CHR ''%'' # hex_digits ! unat (drop_bit 4 (byte_of c))
             # hex_digits ! unat (byte_of c AND 0x0F) # uri_encode input)"

text \<open>\<open>std::string::find\<close> of a substring, from the left.\<close>

fun str_find :: "string \<Rightarrow> string \<Rightarrow> nat option" where
  "str_find pat [] = (if pat = [] then Some 0 else None)"
| "str_find pat (c # s) =
     (if take (length pat) (c # s) = pat then Some 0 else map_option Suc (str_find pat s))"

definition is_absolute_url :: "string \<Rightarrow> bool" where
  "is_absolute_url value \<longleftrightarrow> str_find ''://'' value \<noteq> None"

text \<open>The loop that pops the trailing slashes of the base URL.\<close>

function pop_slashes :: "string \<Rightarrow> string" where
  "pop_slashes base =
     (if base \<noteq> [] \<and> last base = CHR ''/'' then pop_slashes (butlast base) else base)"
  by pat_completeness auto
termination
  by (relation "measure length") auto

declare pop_slashes.simps [simp del]

definition join_url :: "string \<Rightarrow> string \<Rightarrow> string" where
  "join_url baseUrl path =
     (if is_absolute_url path \<or> baseUrl = [] then path
      else let base = pop_slashes baseUrl
           in if path = [] then base
              else if hd path = CHR ''/'' then base @ path
              else base @ ''/'' @ path)"

definition append_query :: "string \<Rightarrow> string \<Rightarrow> string" where
  "append_query url query =
     (if query = [] then url
      else let hasQuery = (str_find ''?'' url \<noteq> None);
               separator = (if hasQuery then CHR ''&'' else CHR ''?'')
           in url @ [separator] @ query)"

section \<open>Percent decoding, the inverse that a server applies\<close>

definition hex_value :: "char \<Rightarrow> nat option" where
  "hex_value c = find_index (\<lambda>d. d = c) hex_digits"

fun uri_decode :: "string \<Rightarrow> string option" where
  "uri_decode [] = Some []"
| "uri_decode (c # s) =
     (if c = CHR ''%'' then
        (case s of
           h # l # rest \<Rightarrow>
             (case (hex_value h, hex_value l) of
                (Some a, Some b) \<Rightarrow> map_option (Cons (char_of (16 * a + b))) (uri_decode rest)
              | _ \<Rightarrow> None)
         | _ \<Rightarrow> None)
      else map_option (Cons c) (uri_decode s))"

lemma unat_byte_of: "unat (byte_of c) = of_char c"
proof -
  have "(of_char c :: nat) < 256" by simp
  then show ?thesis by (simp add: byte_of_def unsigned_of_nat take_bit_eq_mod)
qed

lemma high_nibble: "unat (drop_bit 4 (byte_of c)) = of_char c div 16"
proof -
  have "unat (drop_bit 4 (byte_of c)) = drop_bit 4 (unat (byte_of c))" by (rule unat_drop_bit_eq)
  then show ?thesis by (simp only: unat_byte_of drop_bit_eq_div) simp
qed

lemma low_nibble: "unat (byte_of c AND 0x0F) = of_char c mod 16"
proof -
  have "byte_of c AND 0x0F = take_bit 4 (byte_of c)"
    by (simp add: take_bit_eq_mask mask_eq_exp_minus_1)
  moreover have "unat (take_bit 4 (byte_of c)) = take_bit 4 (unat (byte_of c))"
    by (rule unsigned_take_bit_eq)
  ultimately show ?thesis by (simp only: unat_byte_of take_bit_eq_mod) simp
qed

lemma hex_digits_cases:
  "n < 16 \<Longrightarrow> n \<in> {0, 1, 2, 3, 4, 5, 6, 7, 8, 9, 10, 11, 12, 13, 14, 15 :: nat}"
  by (simp only: insert_iff empty_iff) arith

lemma hex_value_digit: "n < 16 \<Longrightarrow> hex_value (hex_digits ! n) = Some n"
  by (drule hex_digits_cases) (auto simp: hex_value_def hex_digits_def)

lemma hex_digit_unreserved: "n < 16 \<Longrightarrow> is_unreserved (hex_digits ! n)"
  by (drule hex_digits_cases) (auto simp: is_unreserved_def hex_digits_def)

lemma unreserved_not_percent: "is_unreserved c \<Longrightarrow> c \<noteq> CHR ''%''"
  by (auto simp: is_unreserved_def)

lemma byte_lt_256: "(of_char (c :: char) :: nat) < 256"
  by simp

lemma uri_decode_encode: "uri_decode (uri_encode s) = Some s"
proof (induction s)
  case Nil
  show ?case by simp
next
  case (Cons c s)
  show ?case
  proof (cases "is_unreserved c")
    case True
    then show ?thesis using Cons.IH unreserved_not_percent by simp
  next
    case False
    have "(of_char c :: nat) div 16 < 16" using byte_lt_256 [of c] by linarith
    moreover have "16 * ((of_char c :: nat) div 16) + of_char c mod 16 = of_char c" by simp
    ultimately show ?thesis
      using False Cons.IH by (simp only: uri_encode.simps uri_decode.simps if_False if_True list.case
        high_nibble low_nibble hex_value_digit mod_less_divisor prod.case option.case
        option.map char_of_char zero_less_numeral refl)
  qed
qed

text \<open>What an encoded string is made of: unreserved characters and the percent sign.\<close>

lemma encode_alphabet: "c \<in> set (uri_encode s) \<Longrightarrow> is_unreserved c \<or> c = CHR ''%''"
proof (induction s)
  case Nil
  then show ?case by simp
next
  case (Cons d s)
  have "(of_char d :: nat) div 16 < 16" "(of_char d :: nat) mod 16 < 16"
    using byte_lt_256 [of d] by (linarith, simp)
  then have h: "is_unreserved (hex_digits ! unat (drop_bit 4 (byte_of d)))"
      "is_unreserved (hex_digits ! unat (byte_of d AND 0x0F))"
    by (simp_all only: high_nibble low_nibble hex_digit_unreserved)
  show ?case
  proof (cases "is_unreserved d")
    case True
    then show ?thesis using Cons by auto
  next
    case False
    then show ?thesis using Cons h by (simp only: uri_encode.simps if_False) auto
  qed
qed

lemma encode_length: "length s \<le> length (uri_encode s) \<and> length (uri_encode s) \<le> 3 * length s"
  by (induction s) auto

lemma encode_no_separator:
  "set (uri_encode s) \<inter> {CHR ''&'', CHR ''='', CHR ''?'', CHR ''/'', CHR ''#'', CHR '' '', CHR ''+''} = {}"
proof -
  define S where "S = {CHR ''&'', CHR ''='', CHR ''?'', CHR ''/'', CHR ''#'', CHR '' '', CHR ''+''}"
  have "\<not> (is_unreserved c \<or> c = CHR ''%'')" if "c \<in> S" for c
    using that unfolding S_def by (auto simp: is_unreserved_def)
  then have "set (uri_encode s) \<inter> S = {}" using encode_alphabet by blast
  then show ?thesis unfolding S_def .
qed

text \<open>
  C22: Percent encoding loses nothing and cannot be mistaken for structure. The decoding that a server
  applies to an encoded component succeeds and returns the bytes that were encoded, whatever they
  are, so different components have different encodings; no character that separates components of a
  URL or of a form body occurs in the encoding; and encoding at most triples the length.
\<close>

theorem decode_encode:
  "uri_decode (uri_encode s) = Some s \<and> (uri_encode s = uri_encode t \<longleftrightarrow> s = t) \<and>
   set (uri_encode s) \<inter> {CHR ''&'', CHR ''='', CHR ''?'', CHR ''/'', CHR ''#'', CHR '' '', CHR ''+''} = {} \<and>
   length s \<le> length (uri_encode s) \<and> length (uri_encode s) \<le> 3 * length s"
proof -
  have "uri_encode s = uri_encode t \<longleftrightarrow> s = t" by (metis option.inject uri_decode_encode)
  then show ?thesis by (intro conjI uri_decode_encode encode_no_separator encode_length [THEN conjunct1]
        encode_length [THEN conjunct2])
qed

lemma encode_append: "uri_encode (s @ t) = uri_encode s @ uri_encode t"
  by (induction s) auto

section \<open>Joining\<close>

lemma str_find_Nil [simp]: "str_find [] s = Some 0"
  by (cases s) auto

lemma str_find_iff: "str_find pat s \<noteq> None \<longleftrightarrow> (\<exists>l r. s = l @ pat @ r)"
proof (induction s)
  case Nil
  show ?case by auto
next
  case (Cons c s)
  show ?case
  proof (cases "take (length pat) (c # s) = pat")
    case True
    then have "c # s = [] @ pat @ drop (length pat) (c # s)"
      by (metis append_Nil append_take_drop_id)
    then have "\<exists>l r. c # s = l @ pat @ r" by blast
    with True show ?thesis by simp
  next
    case False
    have "(\<exists>l r. c # s = l @ pat @ r) \<longleftrightarrow> (\<exists>l r. s = l @ pat @ r)"
    proof
      assume "\<exists>l r. c # s = l @ pat @ r"
      then obtain l r where lr: "c # s = l @ pat @ r" by blast
      with False have "l \<noteq> []" by auto
      with lr show "\<exists>l r. s = l @ pat @ r" by (cases l) auto
    next
      assume "\<exists>l r. s = l @ pat @ r"
      then obtain l r where "s = l @ pat @ r" by blast
      then have "c # s = (c # l) @ pat @ r" by simp
      then show "\<exists>l r. c # s = l @ pat @ r" by blast
    qed
    with False Cons.IH show ?thesis by simp
  qed
qed

lemma absolute_iff: "is_absolute_url v \<longleftrightarrow> (\<exists>l r. v = l @ ''://'' @ r)"
  by (simp only: is_absolute_url_def str_find_iff)

lemma absolute_append: "is_absolute_url v \<Longrightarrow> is_absolute_url (v @ w)"
  by (force simp: absolute_iff)

lemma pop_slashes_decomp:
  "\<exists>n. base = pop_slashes base @ replicate n (CHR ''/'')"
proof (induction base rule: pop_slashes.induct)
  case (1 base)
  show ?case
  proof (cases "base \<noteq> [] \<and> last base = CHR ''/''")
    case True
    with 1 obtain n where n: "butlast base = pop_slashes (butlast base) @ replicate n (CHR ''/'')"
      by blast
    have "base = butlast base @ [CHR ''/'']" using True by (metis append_butlast_last_id)
    then have "base = pop_slashes (butlast base) @ replicate (Suc n) (CHR ''/'')"
      using n by (metis append.assoc replicate_append_same replicate_Suc)
    moreover have "pop_slashes base = pop_slashes (butlast base)"
      using True by (simp add: pop_slashes.simps [of base])
    ultimately show ?thesis by metis
  next
    case False
    then have "pop_slashes base = base" by (subst pop_slashes.simps) auto
    then have "base = pop_slashes base @ replicate 0 (CHR ''/'')" by simp
    then show ?thesis by blast
  qed
qed

lemma pop_slashes_last: "pop_slashes base \<noteq> [] \<Longrightarrow> last (pop_slashes base) \<noteq> CHR ''/''"
proof (induction base rule: pop_slashes.induct)
  case (1 base)
  then show ?case by (cases "base \<noteq> [] \<and> last base = CHR ''/''") (auto simp: pop_slashes.simps [of base])
qed

lemma pop_slashes_snoc [simp]: "pop_slashes (base @ ''/'') = pop_slashes base"
  by (subst pop_slashes.simps) simp

lemma pop_slashes_id: "base \<noteq> [] \<Longrightarrow> last base \<noteq> CHR ''/'' \<Longrightarrow> pop_slashes base = base"
  by (subst pop_slashes.simps) simp

lemma pop_slashes_prefix: "\<exists>t. base = pop_slashes base @ t"
  using pop_slashes_decomp by blast

lemma pop_slashes_idem: "pop_slashes (pop_slashes base) = pop_slashes base"
proof (cases "pop_slashes base = []")
  case True
  then show ?thesis by (subst pop_slashes.simps) simp
next
  case False
  then show ?thesis using pop_slashes_last pop_slashes_id by blast
qed

text \<open>
  Joining a base URL and a path. An absolute path stands for itself; otherwise the result is
  the base without its trailing slashes, one slash, and the path without its leading one: however
  many slashes the base ends with, the result is the same, it has exactly one at the joint, and it
  is an absolute URL when the base is one.
\<close>

theorem join_url_one_slash:
  assumes "base \<noteq> []" and "\<not> is_absolute_url path"
  shows "join_url (base @ replicate n (CHR ''/'')) path = join_url base path \<and>
    (path \<noteq> [] \<longrightarrow> join_url base path =
       pop_slashes base @ CHR ''/'' # (if hd path = CHR ''/'' then tl path else path)) \<and>
    (pop_slashes base = [] \<or> last (pop_slashes base) \<noteq> CHR ''/'') \<and>
    (is_absolute_url (pop_slashes base) \<longrightarrow> is_absolute_url (join_url base path))"
proof -
  have pop: "pop_slashes (b @ replicate n (CHR ''/'')) = pop_slashes b" for b
  proof (induction n arbitrary: b)
    case (Suc n)
    have "b @ replicate (Suc n) (CHR ''/'') = (b @ ''/'') @ replicate n (CHR ''/'')" by simp
    then show ?case using Suc [of "b @ ''/''"] by (simp only: pop_slashes_snoc)
  qed simp
  have j: "join_url b path = pop_slashes b @ (if path = [] then [] else if hd path = CHR ''/'' then path else CHR ''/'' # path)"
    if "b \<noteq> []" for b using that assms(2) by (simp add: join_url_def Let_def)
  have "is_absolute_url (pop_slashes base) \<longrightarrow> is_absolute_url (join_url base path)"
    using absolute_append by (simp add: j assms(1))
  moreover have "path \<noteq> [] \<Longrightarrow> join_url base path =
       pop_slashes base @ CHR ''/'' # (if hd path = CHR ''/'' then tl path else path)"
    using j [OF assms(1)] by (cases path) simp_all
  ultimately show ?thesis using pop_slashes_last assms(1) by (auto simp: j pop)
qed

lemma join_url_one_slash_witness:
  "join_url (''http://h'' @ replicate 2 (CHR ''/'')) ''a'' = join_url ''http://h'' ''a''"
  by (rule join_url_one_slash [THEN conjunct1]) code_simp+

text \<open>
  C23: Queries accumulate. A URL without a query gets one, from which the URL and the query can be
  read back; appending twice is appending the two joined by an ampersand; and an empty query
  changes nothing.
\<close>

theorem append_query_parses:
  assumes "CHR ''?'' \<notin> set url" and "q \<noteq> []"
  shows "takeWhile (\<lambda>c. c \<noteq> CHR ''?'') (append_query url q) = url \<and>
    tl (dropWhile (\<lambda>c. c \<noteq> CHR ''?'') (append_query url q)) = q \<and>
    (r \<noteq> [] \<longrightarrow> append_query (append_query url q) r = append_query url (q @ ''&'' @ r)) \<and>
    append_query url [] = url"
proof -
  have n: "str_find ''?'' url = None" using str_find_iff [of "''?''" url] assms(1) by force
  then have a: "append_query url x = url @ CHR ''?'' # x" if "x \<noteq> []" for x
    using that by (simp add: append_query_def)
  have "str_find ''?'' (url @ CHR ''?'' # q) \<noteq> None" using str_find_iff [of "''?''"] by force
  then have "r \<noteq> [] \<Longrightarrow> append_query (url @ CHR ''?'' # q) r = url @ CHR ''?'' # q @ ''&'' @ r"
    by (auto simp: append_query_def)
  moreover have "\<forall>c \<in> set url. c \<noteq> CHR ''?''" using assms(1) by auto
  ultimately show ?thesis using assms(2)
    by (simp add: a takeWhile_append2 dropWhile_append2) (simp add: append_query_def)
qed

lemma append_query_parses_witness:
  "tl (dropWhile (\<lambda>c. c \<noteq> CHR ''?'') (append_query ''h/a'' ''b=c'')) = ''b=c''"
  using append_query_parses [of "''h/a''" "''b=c''"] by simp

end
