(* ===== verification/Rest_Natives.thy ===== *)
theory Rest_Natives
  imports Rest_Extension Rest_Uri
begin

text \<open>
  \<open>src/natives.cpp\<close>: the functions a plugin calls. A native gets the context of the plugin and its
  parameters; \<open>p i\<close> is \<open>params[i]\<close>. It returns a cell and the strings it stores in the plugin's
  memory, or it throws: after \<open>ThrowNativeError\<close> the virtual machine unwinds the plugin and ignores
  the returned cell, so an error carries none.
\<close>

section \<open>Contexts, results and objects\<close>

datatype native_error =
    InvalidHandle string handle int
  | HeaderNameEmpty
  | CouldNotCreateHandle string int
  | InvalidMethod int
  | InvalidCallback
  | UrlNotAbsolute string
  | IndexOutOfBounds int int
  | NegativeRange

text \<open>\<open>px_memory\<close> gives the bytes from a local address on.\<close>

record plugin_context =
  px_identity :: identity
  px_memory :: "int \<Rightarrow> string"

type_synonym native_result = "native_error + (int \<times> (int \<times> string) list)"
type_synonym native_fun =
  "sourcemod \<Rightarrow> plugin_context \<Rightarrow> (nat \<Rightarrow> int) \<Rightarrow> rest_state \<Rightarrow> native_result \<times> rest_state"

abbreviation returns :: "int \<Rightarrow> rest_state \<Rightarrow> native_result \<times> rest_state" where
  "returns v st \<equiv> (Inr (v, []), st)"

abbreviation throws :: "native_error \<Rightarrow> rest_state \<Rightarrow> native_result \<times> rest_state" where
  "throws e st \<equiv> (Inl e, st)"

fun as_client :: "rest_object \<Rightarrow> client_object option" where
  "as_client (ObjClient client) = Some client"
| "as_client _ = None"

fun as_request :: "rest_object \<Rightarrow> request_object option" where
  "as_request (ObjRequest request) = Some request"
| "as_request _ = None"

fun as_response :: "rest_object \<Rightarrow> response_object option" where
  "as_response (ObjResponse response) = Some response"
| "as_response _ = None"

text \<open>\<open>ReadHandle\<close> gives the object of a live handle of the right type whose security check passes.\<close>

definition read_object ::
  "(rest_object \<Rightarrow> 'a option) \<Rightarrow> handle_type \<Rightarrow> sourcemod \<Rightarrow> handle \<Rightarrow> rest_state \<Rightarrow> native_error + 'a" where
  "read_object as_type ty sm h st =
     (case (if sm_access sm h then Option.bind (map_of (x_objects st) h) as_type else None) of
        None \<Rightarrow> Inl (InvalidHandle (type_name ty) h (sm_error sm))
      | Some object \<Rightarrow> Inr object)"

definition read_client :: "sourcemod \<Rightarrow> handle \<Rightarrow> rest_state \<Rightarrow> native_error + client_object" where
  "read_client sm h st = read_object as_client ClientType sm h st"

definition read_request :: "sourcemod \<Rightarrow> handle \<Rightarrow> rest_state \<Rightarrow> native_error + request_object" where
  "read_request sm h st = read_object as_request RequestType sm h st"

definition read_response :: "sourcemod \<Rightarrow> handle \<Rightarrow> rest_state \<Rightarrow> native_error + response_object" where
  "read_response sm h st = read_object as_response ResponseType sm h st"

definition read_config :: "handle_type \<Rightarrow> sourcemod \<Rightarrow> handle \<Rightarrow> rest_state \<Rightarrow> native_error + client_config" where
  "read_config ty sm h st =
     (if ty = ClientType then map_sum id co_config (read_client sm h st)
      else map_sum id (spec_config \<circ> ro_spec) (read_request sm h st))"

text \<open>Writing through the pointer that was read.\<close>

definition write_object :: "handle \<Rightarrow> rest_object \<Rightarrow> rest_state \<Rightarrow> rest_state" where
  "write_object h object st = st\<lparr>x_objects := AList.update h object (x_objects st)\<rparr>"

fun put_config :: "client_config \<Rightarrow> rest_object \<Rightarrow> rest_object" where
  "put_config config (ObjClient client) = ObjClient (client\<lparr>co_config := config\<rparr>)"
| "put_config config (ObjRequest request) =
     ObjRequest (request\<lparr>ro_spec := (ro_spec request)\<lparr>spec_config := config\<rparr>\<rparr>)"
| "put_config config (ObjResponse response) = ObjResponse response"

definition write_config :: "handle \<Rightarrow> client_config \<Rightarrow> rest_state \<Rightarrow> rest_state" where
  "write_config h config st =
     (case map_of (x_objects st) h of
        None \<Rightarrow> st
      | Some object \<Rightarrow> write_object h (put_config config object) st)"

definition read_string :: "plugin_context \<Rightarrow> int \<Rightarrow> string" where
  "read_string px param = c_str (px_memory px param)"

definition resolve_game_path :: "sourcemod \<Rightarrow> string \<Rightarrow> string" where
  "resolve_game_path sm relative = c_str (sm_game_path sm (c_str relative))"

section \<open>Callbacks\<close>

definition create_callback_forward ::
  "signature \<Rightarrow> sourcemod \<Rightarrow> int \<Rightarrow> rest_state \<Rightarrow> forward option \<times> rest_state" where
  "create_callback_forward sig sm func st =
     (if \<not> sm_function sm func then (None, st)
      else case sm_new_forward sm of
             None \<Rightarrow> (None, st)
           | Some f \<Rightarrow> (Some f, sm_log (Fx_Create f sig) st))"

definition create_completed_forward :: "sourcemod \<Rightarrow> int \<Rightarrow> rest_state \<Rightarrow> forward option \<times> rest_state" where
  "create_completed_forward = create_callback_forward (ET_Ignore, [Param_Cell, Param_Cell, Param_Cell])"

definition create_headers_forward :: "sourcemod \<Rightarrow> int \<Rightarrow> rest_state \<Rightarrow> forward option \<times> rest_state" where
  "create_headers_forward = create_callback_forward (ET_Single, [Param_Cell, Param_Cell, Param_Cell])"

definition create_data_forward :: "sourcemod \<Rightarrow> int \<Rightarrow> rest_state \<Rightarrow> forward option \<times> rest_state" where
  "create_data_forward =
     create_callback_forward (ET_Ignore, [Param_Cell, Param_String, Param_Cell, Param_Cell])"

definition create_progress_forward :: "sourcemod \<Rightarrow> int \<Rightarrow> rest_state \<Rightarrow> forward option \<times> rest_state" where
  "create_progress_forward =
     create_callback_forward
       (ET_Ignore, [Param_Cell, Param_Cell, Param_Cell, Param_Cell, Param_Cell, Param_Cell])"

section \<open>Natives of clients and requests: the configuration\<close>

text \<open>The members the templates \<open>Native_ConfigGet\<close> and \<open>Native_ConfigSet\<close> are instantiated with.\<close>

datatype config_field =
    Field_connectTimeout
  | Field_timeout
  | Field_absoluteTimeout
  | Field_maxRetries
  | Field_maxRedirects
  | Field_maxSendSpeed
  | Field_maxRecvSpeed
  | Field_maxBodySize
  | Field_chunkSize
  | Field_progressInterval
  | Field_followRedirects
  | Field_verifyCertificate

fun get_field :: "config_field \<Rightarrow> client_config \<Rightarrow> int" where
  "get_field Field_connectTimeout config = cfg_connectTimeout config"
| "get_field Field_timeout config = cfg_timeout config"
| "get_field Field_absoluteTimeout config = cfg_absoluteTimeout config"
| "get_field Field_maxRetries config = cfg_maxRetries config"
| "get_field Field_maxRedirects config = cfg_maxRedirects config"
| "get_field Field_maxSendSpeed config = cfg_maxSendSpeed config"
| "get_field Field_maxRecvSpeed config = cfg_maxRecvSpeed config"
| "get_field Field_maxBodySize config = cfg_maxBodySize config"
| "get_field Field_chunkSize config = cfg_chunkSize config"
| "get_field Field_progressInterval config = cfg_progressInterval config"
| "get_field Field_followRedirects config = of_bool (cfg_followRedirects config)"
| "get_field Field_verifyCertificate config = of_bool (cfg_verifyCertificate config)"

fun set_field :: "config_field \<Rightarrow> int \<Rightarrow> client_config \<Rightarrow> client_config" where
  "set_field Field_connectTimeout v config = config\<lparr>cfg_connectTimeout := to_i32 v\<rparr>"
| "set_field Field_timeout v config = config\<lparr>cfg_timeout := to_i32 v\<rparr>"
| "set_field Field_absoluteTimeout v config = config\<lparr>cfg_absoluteTimeout := to_i32 v\<rparr>"
| "set_field Field_maxRetries v config = config\<lparr>cfg_maxRetries := to_i32 v\<rparr>"
| "set_field Field_maxRedirects v config = config\<lparr>cfg_maxRedirects := to_i32 v\<rparr>"
| "set_field Field_maxSendSpeed v config = config\<lparr>cfg_maxSendSpeed := to_i32 v\<rparr>"
| "set_field Field_maxRecvSpeed v config = config\<lparr>cfg_maxRecvSpeed := to_i32 v\<rparr>"
| "set_field Field_maxBodySize v config = config\<lparr>cfg_maxBodySize := to_i64 v\<rparr>"
| "set_field Field_chunkSize v config = config\<lparr>cfg_chunkSize := to_i32 v\<rparr>"
| "set_field Field_progressInterval v config = config\<lparr>cfg_progressInterval := to_i32 v\<rparr>"
| "set_field Field_followRedirects v config = config\<lparr>cfg_followRedirects := (v \<noteq> 0)\<rparr>"
| "set_field Field_verifyCertificate v config = config\<lparr>cfg_verifyCertificate := (v \<noteq> 0)\<rparr>"

definition native_config_get :: "handle_type \<Rightarrow> config_field \<Rightarrow> native_fun" where
  "native_config_get ty field sm px p st =
     (case read_config ty sm (p 1) st of
        Inl e \<Rightarrow> throws e st
      | Inr config \<Rightarrow> returns (clamp_to_cell (to_i64 (get_field field config))) st)"

definition native_config_set :: "handle_type \<Rightarrow> config_field \<Rightarrow> native_fun" where
  "native_config_set ty field sm px p st =
     (case read_config ty sm (p 1) st of
        Inl e \<Rightarrow> throws e st
      | Inr config \<Rightarrow> returns 1 (write_config (p 1) (set_field field (p 2) config) st))"

definition native_set_header :: "handle_type \<Rightarrow> native_fun" where
  "native_set_header ty sm px p st =
     (case read_config ty sm (p 1) st of
        Inl e \<Rightarrow> throws e st
      | Inr config \<Rightarrow>
          let name = trim (read_string px (p 2))
          in if name = [] then throws HeaderNameEmpty st
             else let v = read_string px (p 3)
                  in returns 1 (write_config (p 1)
                       (config\<lparr>cfg_headers := set_header (cfg_headers config) name v\<rparr>) st))"

definition native_remove_header :: "handle_type \<Rightarrow> native_fun" where
  "native_remove_header ty sm px p st =
     (case read_config ty sm (p 1) st of
        Inl e \<Rightarrow> throws e st
      | Inr config \<Rightarrow>
          let name = read_string px (p 2)
          in returns 1 (write_config (p 1)
               (config\<lparr>cfg_headers := remove_header (cfg_headers config) name\<rparr>) st))"

definition native_set_basic_auth :: "handle_type \<Rightarrow> native_fun" where
  "native_set_basic_auth ty sm px p st =
     (case read_config ty sm (p 1) st of
        Inl e \<Rightarrow> throws e st
      | Inr config \<Rightarrow>
          returns 1 (write_config (p 1)
            (config\<lparr>cfg_basicUser := read_string px (p 2), cfg_basicPassword := read_string px (p 3),
               cfg_bearerToken := []\<rparr>) st))"

definition native_set_bearer_token :: "handle_type \<Rightarrow> native_fun" where
  "native_set_bearer_token ty sm px p st =
     (case read_config ty sm (p 1) st of
        Inl e \<Rightarrow> throws e st
      | Inr config \<Rightarrow>
          returns 1 (write_config (p 1)
            (config\<lparr>cfg_bearerToken := read_string px (p 2), cfg_basicUser := [],
               cfg_basicPassword := []\<rparr>) st))"

definition native_set_user_agent :: "handle_type \<Rightarrow> native_fun" where
  "native_set_user_agent ty sm px p st =
     (case read_config ty sm (p 1) st of
        Inl e \<Rightarrow> throws e st
      | Inr config \<Rightarrow>
          returns 1 (write_config (p 1) (config\<lparr>cfg_userAgent := read_string px (p 2)\<rparr>) st))"

section \<open>Natives of clients\<close>

text \<open>\<open>client->handle\<close> is set after \<open>CreateHandle\<close> has stored the object.\<close>

definition native_client_create :: native_fun where
  "native_client_create sm px p st =
     (let client = client_object_default
            \<lparr>co_config := (co_config client_object_default)\<lparr>cfg_baseUrl := read_string px (p 1)\<rparr>\<rparr>;
          (h, st1) = create_handle sm (ObjClient client) st
      in if h = BAD_HANDLE then throws (CouldNotCreateHandle ''RESTClient'' (sm_error sm)) st1
         else returns h (write_object h (ObjClient (client\<lparr>co_handle := h\<rparr>)) st1))"

definition native_client_set_base_url :: native_fun where
  "native_client_set_base_url sm px p st =
     (case read_client sm (p 1) st of
        Inl e \<Rightarrow> throws e st
      | Inr client \<Rightarrow>
          returns 1 (write_object (p 1) (ObjClient
            (client\<lparr>co_config := (co_config client)\<lparr>cfg_baseUrl := read_string px (p 2)\<rparr>\<rparr>)) st))"

text \<open>\<open>static_cast<RestMethod>\<close> of a code in range.\<close>

definition method_of_code :: "int \<Rightarrow> rest_method" where
  "method_of_code n =
     (if n = 0 then RestMethod_Get else if n = 1 then RestMethod_Head else if n = 2 then RestMethod_Post
      else if n = 3 then RestMethod_Put else if n = 4 then RestMethod_Patch
      else if n = 5 then RestMethod_Delete else RestMethod_Options)"

definition native_client_request :: native_fun where
  "native_client_request sm px p st =
     (case read_client sm (p 1) st of
        Inl e \<Rightarrow> throws e st
      | Inr client \<Rightarrow>
          let code = p 2
          in if code < 0 \<or> code > method_code RestMethod_Options then throws (InvalidMethod code) st
             else let request = request_object_default
                        \<lparr>ro_clientHandle := co_handle client,
                         ro_spec := (ro_spec request_object_default)
                           \<lparr>spec_method := method_of_code code, spec_path := read_string px (p 3),
                            spec_config := co_config client\<rparr>\<rparr>;
                      (h, st1) = create_handle sm (ObjRequest request) st
                  in if h = BAD_HANDLE then throws (CouldNotCreateHandle ''RESTRequest'' (sm_error sm)) st1
                     else returns h st1)"

definition native_client_cancel :: native_fun where
  "native_client_cancel sm px p st =
     (case read_client sm (p 1) st of
        Inl e \<Rightarrow> throws e st
      | Inr client \<Rightarrow>
          let (cancelled, st1) = cancel_job (p 2) (px_identity px) st
          in returns (if cancelled then 1 else 0) st1)"

definition native_client_cancel_all :: native_fun where
  "native_client_cancel_all sm px p st =
     (case read_client sm (p 1) st of
        Inl e \<Rightarrow> throws e st
      | Inr client \<Rightarrow>
          let (cancelled, st1) = cancel_jobs_for_client (co_handle client) (px_identity px) st
          in returns cancelled st1)"

end
