(* ===== verification/Rest_Native_Table.thy ===== *)
theory Rest_Native_Table
  imports Rest_Natives
begin

text \<open>
  The rest of \<open>src/natives.cpp\<close>: the natives of requests and responses, and the table \<open>g_Natives\<close>
  that binds the names of the scripting interface to the functions. \<open>Native_Request_Send\<close> turns a
  request into a job.
\<close>

section \<open>Natives of requests\<close>

abbreviation write_request :: "handle \<Rightarrow> request_object \<Rightarrow> rest_state \<Rightarrow> rest_state" where
  "write_request h request st \<equiv> write_object h (ObjRequest request) st"

definition native_request_set_query :: native_fun where
  "native_request_set_query sm px p st =
     (case read_request sm (p 1) st of
        Inl e \<Rightarrow> throws e st
      | Inr request \<Rightarrow>
          let name = uri_encode (read_string px (p 2));
              v = uri_encode (read_string px (p 3));
              query = spec_query (ro_spec request);
              query1 = (if query \<noteq> [] then query @ ''&'' else query);
              query2 = query1 @ name @ ''='' @ v
          in returns 1 (write_request (p 1)
               (request\<lparr>ro_spec := (ro_spec request)\<lparr>spec_query := query2\<rparr>\<rparr>) st))"

definition native_request_set_body :: native_fun where
  "native_request_set_body sm px p st =
     (case read_request sm (p 1) st of
        Inl e \<Rightarrow> throws e st
      | Inr request \<Rightarrow>
          let len = p 4;
              body = (if len < 0 then read_string px (p 2) else take (nat len) (px_memory px (p 2)))
          in returns 1 (write_request (p 1)
               (request\<lparr>ro_spec := (ro_spec request)
                  \<lparr>spec_body := body, spec_bodyKind := BodyKind_Memory,
                   spec_bodyContentType := read_string px (p 3), spec_bodyFilePath := [],
                   spec_formFields := []\<rparr>\<rparr>) st))"

definition native_request_set_body_file :: native_fun where
  "native_request_set_body_file sm px p st =
     (case read_request sm (p 1) st of
        Inl e \<Rightarrow> throws e st
      | Inr request \<Rightarrow>
          returns 1 (write_request (p 1)
            (request\<lparr>ro_spec := (ro_spec request)
               \<lparr>spec_bodyKind := BodyKind_File,
                spec_bodyFilePath := resolve_game_path sm (read_string px (p 2)),
                spec_bodyContentType := read_string px (p 3), spec_body := [],
                spec_formFields := []\<rparr>\<rparr>) st))"

definition set_form_kind :: "bool \<Rightarrow> request_spec \<Rightarrow> request_spec" where
  "set_form_kind multipart spec =
     (let alreadyMultipart = (spec_bodyKind spec = BodyKind_Multipart)
      in spec\<lparr>spec_bodyKind := (if multipart \<or> alreadyMultipart then BodyKind_Multipart else BodyKind_Form),
              spec_body := [], spec_bodyFilePath := []\<rparr>)"

definition native_request_add_form_field :: native_fun where
  "native_request_add_form_field sm px p st =
     (case read_request sm (p 1) st of
        Inl e \<Rightarrow> throws e st
      | Inr request \<Rightarrow>
          let field = form_field_default
                \<lparr>fld_name := read_string px (p 2), fld_value := read_string px (p 3)\<rparr>;
              spec = (ro_spec request)\<lparr>spec_formFields := spec_formFields (ro_spec request) @ [field]\<rparr>
          in returns 1 (write_request (p 1) (request\<lparr>ro_spec := set_form_kind False spec\<rparr>) st))"

definition native_request_add_form_file :: native_fun where
  "native_request_add_form_file sm px p st =
     (case read_request sm (p 1) st of
        Inl e \<Rightarrow> throws e st
      | Inr request \<Rightarrow>
          let field = form_field_default
                \<lparr>fld_name := read_string px (p 2),
                 fld_filePath := resolve_game_path sm (read_string px (p 3)),
                 fld_contentType := read_string px (p 4), fld_fileName := read_string px (p 5)\<rparr>;
              spec = (ro_spec request)\<lparr>spec_formFields := spec_formFields (ro_spec request) @ [field]\<rparr>
          in returns 1 (write_request (p 1) (request\<lparr>ro_spec := set_form_kind True spec\<rparr>) st))"

definition native_request_set_output_file :: native_fun where
  "native_request_set_output_file sm px p st =
     (case read_request sm (p 1) st of
        Inl e \<Rightarrow> throws e st
      | Inr request \<Rightarrow>
          returns 1 (write_request (p 1)
            (request\<lparr>ro_spec := (ro_spec request)
               \<lparr>spec_outputPath := resolve_game_path sm (read_string px (p 2)),
                spec_resume := (p 3 \<noteq> 0)\<rparr>\<rparr>) st))"

definition native_request_on_headers :: native_fun where
  "native_request_on_headers sm px p st =
     (case read_request sm (p 1) st of
        Inl e \<Rightarrow> throws e st
      | Inr request \<Rightarrow>
          (case create_headers_forward sm (p 2) st of
             (None, st1) \<Rightarrow> throws InvalidCallback st1
           | (Some forward, st1) \<Rightarrow>
               let (_, st2) = release_forward (ro_headers request) st1
               in returns 1 (write_request (p 1)
                    (request\<lparr>ro_headers := Some forward,
                       ro_spec := (ro_spec request)\<lparr>spec_wantHeaders := True\<rparr>\<rparr>) st2)))"

definition native_request_on_data :: native_fun where
  "native_request_on_data sm px p st =
     (case read_request sm (p 1) st of
        Inl e \<Rightarrow> throws e st
      | Inr request \<Rightarrow>
          (case create_data_forward sm (p 2) st of
             (None, st1) \<Rightarrow> throws InvalidCallback st1
           | (Some forward, st1) \<Rightarrow>
               let (_, st2) = release_forward (ro_data request) st1
               in returns 1 (write_request (p 1)
                    (request\<lparr>ro_data := Some forward,
                       ro_spec := (ro_spec request)\<lparr>spec_streamData := True\<rparr>\<rparr>) st2)))"

definition native_request_on_progress :: native_fun where
  "native_request_on_progress sm px p st =
     (case read_request sm (p 1) st of
        Inl e \<Rightarrow> throws e st
      | Inr request \<Rightarrow>
          (case create_progress_forward sm (p 2) st of
             (None, st1) \<Rightarrow> throws InvalidCallback st1
           | (Some forward, st1) \<Rightarrow>
               let (_, st2) = release_forward (ro_progress request) st1
               in returns 1 (write_request (p 1) (request\<lparr>ro_progress := Some forward\<rparr>) st2)))"

section \<open>Sending\<close>

text \<open>The loop of \<open>BuildFormBody\<close> from a body that has been built so far.\<close>

fun build_form_body_from :: "string \<Rightarrow> form_field list \<Rightarrow> string" where
  "build_form_body_from body [] = body"
| "build_form_body_from body (field # rest) =
     (let body1 = (if body \<noteq> [] then body @ ''&'' else body)
      in build_form_body_from (body1 @ uri_encode (fld_name field) @ ''='' @ uri_encode (fld_value field)) rest)"

definition build_form_body :: "form_field list \<Rightarrow> string" where
  "build_form_body formFields = build_form_body_from [] formFields"

text \<open>
  The spec is moved into the job; what the move leaves in the request is unspecified
  (\<open>sm_moved_from\<close>), and the handle is freed right after.
\<close>

definition native_request_send :: native_fun where
  "native_request_send sm px p st =
     (case read_request sm (p 1) st of
        Inl e \<Rightarrow> throws e st
      | Inr request \<Rightarrow>
          let spec = ro_spec request;
              url = join_url (cfg_baseUrl (spec_config spec)) (spec_path spec)
          in if \<not> is_absolute_url url then throws (UrlNotAbsolute (c_str url)) st
             else (case create_completed_forward sm (p 2) st of
                (None, st1) \<Rightarrow> throws InvalidCallback st1
              | (Some completed, st1) \<Rightarrow>
                  let spec1 = spec\<lparr>spec_url := append_query url (spec_query spec)\<rparr>;
                      spec2 = (if spec_bodyKind spec1 = BodyKind_Form
                               then spec1\<lparr>spec_body := build_form_body (spec_formFields spec1),
                                      spec_bodyContentType := ''application/x-www-form-urlencoded''\<rparr>
                               else spec1);
                      record = job_record_default
                        \<lparr>jr_clientHandle := ro_clientHandle request, jr_owner := px_identity px,
                         jr_completed := Some completed, jr_headers := ro_headers request,
                         jr_data := ro_data request, jr_progress := ro_progress request,
                         jr_context := p 3\<rparr>;
                      st2 = write_request (p 1)
                        (request\<lparr>ro_headers := None, ro_data := None, ro_progress := None,
                           ro_spec := sm_moved_from sm spec2\<rparr>) st1;
                      (jobId, st3) = submit_job spec2 record st2
                  in returns jobId (free_handle sm (p 1) st3)))"

section \<open>Natives of responses\<close>

fun status_code :: "rest_status \<Rightarrow> int" where
  "status_code RestStatus_Ok = 0"
| "status_code RestStatus_HttpError = 1"
| "status_code RestStatus_NetworkError = 2"
| "status_code RestStatus_Timeout = 3"
| "status_code RestStatus_IoError = 4"
| "status_code RestStatus_TooLarge = 5"
| "status_code RestStatus_Cancelled = 6"

text \<open>A getter that only reads the response.\<close>

definition native_response_get :: "(response_object \<Rightarrow> int) \<Rightarrow> native_fun" where
  "native_response_get f sm px p st =
     (case read_response sm (p 1) st of Inl e \<Rightarrow> throws e st | Inr response \<Rightarrow> returns (f response) st)"

definition native_response_get_status :: native_fun where
  "native_response_get_status = native_response_get (\<lambda>response. status_code (rs_status response))"

definition native_response_get_http_status :: native_fun where
  "native_response_get_http_status = native_response_get (\<lambda>response. to_i32 (rs_httpStatus response))"

definition native_response_get_content_length :: native_fun where
  "native_response_get_content_length =
     native_response_get (\<lambda>response. clamp_to_cell (rs_contentLength response))"

definition native_response_get_body_length :: native_fun where
  "native_response_get_body_length =
     native_response_get (\<lambda>response. clamp_to_cell (rs_bodyLength response))"

definition native_response_get_elapsed_ms :: native_fun where
  "native_response_get_elapsed_ms =
     native_response_get (\<lambda>response. clamp_to_cell (rs_elapsedMs response))"

definition native_response_get_header_count :: native_fun where
  "native_response_get_header_count =
     native_response_get (\<lambda>response. to_i32 (int (length (rs_headers response))))"

text \<open>\<open>StringToLocalUTF8(address, maxlength, text.c_str())\<close> as the store it makes.\<close>

definition to_local :: "sourcemod \<Rightarrow> int \<Rightarrow> int \<Rightarrow> string \<Rightarrow> int \<times> string" where
  "to_local sm address maxlength text = (address, sm_utf8 sm maxlength (c_str text))"

definition native_response_get_error :: native_fun where
  "native_response_get_error sm px p st =
     (case read_response sm (p 1) st of
        Inl e \<Rightarrow> throws e st
      | Inr response \<Rightarrow> (Inr (1, [to_local sm (p 2) (p 3) (rs_error response)]), st))"

definition native_response_get_url :: native_fun where
  "native_response_get_url sm px p st =
     (case read_response sm (p 1) st of
        Inl e \<Rightarrow> throws e st
      | Inr response \<Rightarrow> (Inr (1, [to_local sm (p 2) (p 3) (rs_url response)]), st))"

definition native_response_get_header :: native_fun where
  "native_response_get_header sm px p st =
     (case read_response sm (p 1) st of
        Inl e \<Rightarrow> throws e st
      | Inr response \<Rightarrow>
          let name = read_string px (p 2)
          in case find_header (rs_headers response) name of
               None \<Rightarrow> returns 0 st
             | Some v \<Rightarrow> (Inr (1, [to_local sm (p 3) (p 4) v]), st))"

definition native_response_get_header_at :: native_fun where
  "native_response_get_header_at sm px p st =
     (case read_response sm (p 1) st of
        Inl e \<Rightarrow> throws e st
      | Inr response \<Rightarrow>
          let index = p 2
          in if index < 0 \<or> nat index \<ge> length (rs_headers response)
             then throws (IndexOutOfBounds index (to_i32 (int (length (rs_headers response))))) st
             else let entry = rs_headers response ! nat index
                  in (Inr (1, [to_local sm (p 3) (p 4) (fst entry), to_local sm (p 5) (p 6) (snd entry)]), st))"

definition native_response_get_body :: native_fun where
  "native_response_get_body sm px p st =
     (case read_response sm (p 1) st of
        Inl e \<Rightarrow> throws e st
      | Inr response \<Rightarrow> (Inr (1, [to_local sm (p 2) (p 3) (rs_body response)]), st))"

definition native_response_read_body :: native_fun where
  "native_response_read_body sm px p st =
     (case read_response sm (p 1) st of
        Inl e \<Rightarrow> throws e st
      | Inr response \<Rightarrow>
          let offset = p 2;
              maxlength = p 4
          in if offset < 0 \<or> maxlength < 0 then throws NegativeRange st
             else let size = length (rs_body response);
                      start = min (nat offset) size;
                      count = min (nat maxlength) (size - start)
                  in (Inr (to_i32 (int count), [(p 3, take count (drop start (rs_body response)))]), st))"

section \<open>The table\<close>

definition g_natives :: "(string \<times> native_fun) list" where
  "g_natives =
    [(''RESTClient.RESTClient'', native_client_create),
     (''RESTClient.SetBaseUrl'', native_client_set_base_url),
     (''RESTClient.SetHeader'', native_set_header ClientType),
     (''RESTClient.RemoveHeader'', native_remove_header ClientType),
     (''RESTClient.SetBasicAuth'', native_set_basic_auth ClientType),
     (''RESTClient.SetBearerToken'', native_set_bearer_token ClientType),
     (''RESTClient.SetUserAgent'', native_set_user_agent ClientType),
     (''RESTClient.ConnectTimeout.get'', native_config_get ClientType Field_connectTimeout),
     (''RESTClient.ConnectTimeout.set'', native_config_set ClientType Field_connectTimeout),
     (''RESTClient.Timeout.get'', native_config_get ClientType Field_timeout),
     (''RESTClient.Timeout.set'', native_config_set ClientType Field_timeout),
     (''RESTClient.AbsoluteTimeout.get'', native_config_get ClientType Field_absoluteTimeout),
     (''RESTClient.AbsoluteTimeout.set'', native_config_set ClientType Field_absoluteTimeout),
     (''RESTClient.MaxRetries.get'', native_config_get ClientType Field_maxRetries),
     (''RESTClient.MaxRetries.set'', native_config_set ClientType Field_maxRetries),
     (''RESTClient.MaxRedirects.get'', native_config_get ClientType Field_maxRedirects),
     (''RESTClient.MaxRedirects.set'', native_config_set ClientType Field_maxRedirects),
     (''RESTClient.MaxSendSpeed.get'', native_config_get ClientType Field_maxSendSpeed),
     (''RESTClient.MaxSendSpeed.set'', native_config_set ClientType Field_maxSendSpeed),
     (''RESTClient.MaxRecvSpeed.get'', native_config_get ClientType Field_maxRecvSpeed),
     (''RESTClient.MaxRecvSpeed.set'', native_config_set ClientType Field_maxRecvSpeed),
     (''RESTClient.MaxBodySize.get'', native_config_get ClientType Field_maxBodySize),
     (''RESTClient.MaxBodySize.set'', native_config_set ClientType Field_maxBodySize),
     (''RESTClient.ChunkSize.get'', native_config_get ClientType Field_chunkSize),
     (''RESTClient.ChunkSize.set'', native_config_set ClientType Field_chunkSize),
     (''RESTClient.ProgressInterval.get'', native_config_get ClientType Field_progressInterval),
     (''RESTClient.ProgressInterval.set'', native_config_set ClientType Field_progressInterval),
     (''RESTClient.FollowRedirects.get'', native_config_get ClientType Field_followRedirects),
     (''RESTClient.FollowRedirects.set'', native_config_set ClientType Field_followRedirects),
     (''RESTClient.VerifyCertificate.get'', native_config_get ClientType Field_verifyCertificate),
     (''RESTClient.VerifyCertificate.set'', native_config_set ClientType Field_verifyCertificate),
     (''RESTClient.Request'', native_client_request),
     (''RESTClient.Cancel'', native_client_cancel),
     (''RESTClient.CancelAll'', native_client_cancel_all),
     (''RESTRequest.SetHeader'', native_set_header RequestType),
     (''RESTRequest.RemoveHeader'', native_remove_header RequestType),
     (''RESTRequest.SetBasicAuth'', native_set_basic_auth RequestType),
     (''RESTRequest.SetBearerToken'', native_set_bearer_token RequestType),
     (''RESTRequest.SetUserAgent'', native_set_user_agent RequestType),
     (''RESTRequest.ConnectTimeout.get'', native_config_get RequestType Field_connectTimeout),
     (''RESTRequest.ConnectTimeout.set'', native_config_set RequestType Field_connectTimeout),
     (''RESTRequest.Timeout.get'', native_config_get RequestType Field_timeout),
     (''RESTRequest.Timeout.set'', native_config_set RequestType Field_timeout),
     (''RESTRequest.AbsoluteTimeout.get'', native_config_get RequestType Field_absoluteTimeout),
     (''RESTRequest.AbsoluteTimeout.set'', native_config_set RequestType Field_absoluteTimeout),
     (''RESTRequest.MaxRetries.get'', native_config_get RequestType Field_maxRetries),
     (''RESTRequest.MaxRetries.set'', native_config_set RequestType Field_maxRetries),
     (''RESTRequest.MaxRedirects.get'', native_config_get RequestType Field_maxRedirects),
     (''RESTRequest.MaxRedirects.set'', native_config_set RequestType Field_maxRedirects),
     (''RESTRequest.MaxSendSpeed.get'', native_config_get RequestType Field_maxSendSpeed),
     (''RESTRequest.MaxSendSpeed.set'', native_config_set RequestType Field_maxSendSpeed),
     (''RESTRequest.MaxRecvSpeed.get'', native_config_get RequestType Field_maxRecvSpeed),
     (''RESTRequest.MaxRecvSpeed.set'', native_config_set RequestType Field_maxRecvSpeed),
     (''RESTRequest.MaxBodySize.get'', native_config_get RequestType Field_maxBodySize),
     (''RESTRequest.MaxBodySize.set'', native_config_set RequestType Field_maxBodySize),
     (''RESTRequest.ChunkSize.get'', native_config_get RequestType Field_chunkSize),
     (''RESTRequest.ChunkSize.set'', native_config_set RequestType Field_chunkSize),
     (''RESTRequest.ProgressInterval.get'', native_config_get RequestType Field_progressInterval),
     (''RESTRequest.ProgressInterval.set'', native_config_set RequestType Field_progressInterval),
     (''RESTRequest.FollowRedirects.get'', native_config_get RequestType Field_followRedirects),
     (''RESTRequest.FollowRedirects.set'', native_config_set RequestType Field_followRedirects),
     (''RESTRequest.VerifyCertificate.get'', native_config_get RequestType Field_verifyCertificate),
     (''RESTRequest.VerifyCertificate.set'', native_config_set RequestType Field_verifyCertificate),
     (''RESTRequest.SetQuery'', native_request_set_query),
     (''RESTRequest.SetBody'', native_request_set_body),
     (''RESTRequest.SetBodyFile'', native_request_set_body_file),
     (''RESTRequest.AddFormField'', native_request_add_form_field),
     (''RESTRequest.AddFormFile'', native_request_add_form_file),
     (''RESTRequest.SetOutputFile'', native_request_set_output_file),
     (''RESTRequest.OnHeaders'', native_request_on_headers),
     (''RESTRequest.OnData'', native_request_on_data),
     (''RESTRequest.OnProgress'', native_request_on_progress),
     (''RESTRequest.Send'', native_request_send),
     (''RESTResponse.Status.get'', native_response_get_status),
     (''RESTResponse.HttpStatus.get'', native_response_get_http_status),
     (''RESTResponse.ContentLength.get'', native_response_get_content_length),
     (''RESTResponse.BodyLength.get'', native_response_get_body_length),
     (''RESTResponse.ElapsedMs.get'', native_response_get_elapsed_ms),
     (''RESTResponse.HeaderCount.get'', native_response_get_header_count),
     (''RESTResponse.GetError'', native_response_get_error),
     (''RESTResponse.GetUrl'', native_response_get_url),
     (''RESTResponse.GetHeader'', native_response_get_header),
     (''RESTResponse.GetHeaderAt'', native_response_get_header_at),
     (''RESTResponse.GetBody'', native_response_get_body),
     (''RESTResponse.ReadBody'', native_response_read_body)]"

end
