(* ===== verification/Rest_Ownership.thy ===== *)
theory Rest_Ownership
  imports Rest_Native_Table "HOL-Library.Multiset"
begin

text \<open>
  Who owns the callbacks. Every forward that is created has exactly one owner until it is released: a
  request, the record of a job, or the completion that is being dispatched. \<open>main_inv\<close> states this
  together with the discipline of the job table; each operation of the main thread preserves it. A
  record whose callback is running is pinned: it stays in the table, with at most \<open>dropped\<close> set.
\<close>

section \<open>The log of effects\<close>

definition created :: "sm_effect list \<Rightarrow> (forward \<times> signature) list" where
  "created log = concat (map (\<lambda>fx. case fx of Fx_Create f sig \<Rightarrow> [(f, sig)] | _ \<Rightarrow> []) log)"

definition live :: "sm_effect list \<Rightarrow> (forward \<times> signature) set" where
  "live log = {(f, sig) \<in> set (created log). Fx_Release f \<notin> set log}"

fun is_complete :: "plugin_call \<Rightarrow> bool" where
  "is_complete (CallComplete f client response context) = True"
| "is_complete _ = False"

definition completed_in :: "sm_effect list \<Rightarrow> int \<Rightarrow> bool" where
  "completed_in log jobId = list_ex (\<lambda>fx. case fx of Fx_Call i call \<Rightarrow> i = jobId \<and> is_complete call | _ \<Rightarrow> False) log"

text \<open>
  What may happen after what: a forward is created once, released once and after its creation, and
  executed only in between with the parameters it was declared with; no callback of a job runs
  after its completion callback.
\<close>

fun fits :: "sm_effect list \<Rightarrow> sm_effect \<Rightarrow> bool" where
  "fits past (Fx_Create f sig) \<longleftrightarrow> f \<notin> fst ` set (created past)"
| "fits past (Fx_Release f) \<longleftrightarrow> f \<in> fst ` live past"
| "fits past (Fx_Call jobId call) \<longleftrightarrow>
     (call_forward call, call_signature call) \<in> live past \<and> \<not> completed_in past jobId"
| "fits past (Fx_LogError text) \<longleftrightarrow> True"

definition log_ok :: "sm_effect list \<Rightarrow> bool" where
  "log_ok log \<longleftrightarrow> (\<forall>n \<in> {..<length log}. fits (take n log) (log ! n))"

lemma log_ok_snoc: "log_ok (log @ [fx]) \<longleftrightarrow> log_ok log \<and> fits log fx"
  by (auto simp: log_ok_def lessThan_Suc nth_append)

lemma log_ok_Nil [simp]: "log_ok []"
  by (simp add: log_ok_def)

lemma created_snoc:
  "created (log @ [fx]) = created log @ (case fx of Fx_Create f sig \<Rightarrow> [(f, sig)] | _ \<Rightarrow> [])"
  by (simp add: created_def)

lemma finite_live [simp]: "finite (live log)"
  by (rule finite_subset [of _ "set (created log)"]) (auto simp: live_def)

lemma log_ok_facts:
  "log_ok log \<Longrightarrow> distinct (map fst (created log)) \<and> (\<forall>f. Fx_Release f \<in> set log \<longrightarrow> f \<in> fst ` set (created log))"
proof (induction log rule: rev_induct)
  case (snoc fx log)
  then show ?case by (cases fx) (auto simp: log_ok_snoc created_snoc live_def)
qed (simp add: created_def)

lemma live_create:
  assumes "log_ok log" and "f \<notin> fst ` set (created log)"
  shows "live (log @ [Fx_Create f sig]) = insert (f, sig) (live log) \<and> (f, sig) \<notin> live log"
  using log_ok_facts [OF assms(1)] assms(2) by (force simp: live_def created_snoc)

lemma live_release:
  assumes "log_ok log" and "(f, sig) \<in> live log"
  shows "live (log @ [Fx_Release f]) = live log - {(f, sig)}"
proof -
  have "s = sig" if "(f, s) \<in> set (created log)" for s
    using log_ok_facts [OF assms(1)] assms(2) that by (auto simp: live_def dest: eq_key_imp_eq_value)
  then show ?thesis by (auto simp: live_def created_snoc)
qed

lemma live_other:
  "(case fx of Fx_Create f sig \<Rightarrow> False | Fx_Release f \<Rightarrow> False | _ \<Rightarrow> True) \<Longrightarrow> live (log @ [fx]) = live log"
  by (cases fx) (auto simp: live_def created_snoc)

lemma completed_in_snoc:
  "completed_in (log @ [fx]) jobId \<longleftrightarrow>
     completed_in log jobId \<or> (case fx of Fx_Call i call \<Rightarrow> i = jobId \<and> is_complete call | _ \<Rightarrow> False)"
  by (simp add: completed_in_def)

section \<open>Sums over association lists\<close>

lemma sum_update_None:
  "map_of xs k = None \<Longrightarrow>
     sum_list (map (g \<circ> snd) (AList.update k v xs)) = sum_list (map (g \<circ> snd) xs) + (g v :: 'm multiset)"
  by (induction xs) (auto simp: ac_simps split: if_splits)

lemma sum_update_Some:
  "map_of xs k = Some old \<Longrightarrow>
     sum_list (map (g \<circ> snd) (AList.update k v xs)) + g old =
       sum_list (map (g \<circ> snd) xs) + (g v :: 'm multiset)"
  by (induction xs) (auto simp: ac_simps split: if_splits)

lemma delete_absent: "map_of xs k = None \<Longrightarrow> AList.delete k xs = xs"
  by (induction xs) (auto simp: AList.delete_eq split: if_splits)

lemma sum_delete:
  "distinct (map fst xs) \<Longrightarrow> map_of xs k = Some old \<Longrightarrow>
     sum_list (map (g \<circ> snd) (AList.delete k xs)) + g old = (sum_list (map (g \<circ> snd) xs) :: 'm multiset)"
proof (induction xs)
  case (Cons x xs)
  obtain a b where x: "x = (a, b)" by (cases x)
  show ?case
  proof (cases "a = k")
    case True
    then have "map_of xs k = None" using Cons.prems x by (auto simp: map_of_eq_None_iff)
    then show ?thesis using Cons.prems x True by (simp add: delete_absent ac_simps)
  next
    case False
    then show ?thesis using Cons.IH Cons.prems x by (auto simp: ac_simps)
  qed
qed simp

lemma member_sum: "map_of xs k = Some v \<Longrightarrow> g v \<subseteq># sum_list (map (g \<circ> snd) xs)"
proof (induction xs)
  case (Cons x xs)
  then show ?case
    by (cases x) (auto split: if_splits intro: subset_mset.order_trans [OF _ mset_subset_eq_add_right])
qed simp

section \<open>Owners\<close>

abbreviation sig_completed :: signature where "sig_completed \<equiv> (ET_Ignore, [Param_Cell, Param_Cell, Param_Cell])"
abbreviation sig_headers :: signature where "sig_headers \<equiv> (ET_Single, [Param_Cell, Param_Cell, Param_Cell])"
abbreviation sig_data :: signature where
  "sig_data \<equiv> (ET_Ignore, [Param_Cell, Param_String, Param_Cell, Param_Cell])"
abbreviation sig_progress :: signature where
  "sig_progress \<equiv> (ET_Ignore, [Param_Cell, Param_Cell, Param_Cell, Param_Cell, Param_Cell, Param_Cell])"

fun slot :: "forward option \<Rightarrow> signature \<Rightarrow> (forward \<times> signature) multiset" where
  "slot None sig = {#}"
| "slot (Some f) sig = {#(f, sig)#}"

definition record_owns :: "job_record \<Rightarrow> (forward \<times> signature) multiset" where
  "record_owns r = slot (jr_completed r) sig_completed + slot (jr_headers r) sig_headers +
     slot (jr_data r) sig_data + slot (jr_progress r) sig_progress"

fun object_owns :: "rest_object \<Rightarrow> (forward \<times> signature) multiset" where
  "object_owns (ObjRequest r) =
     slot (ro_headers r) sig_headers + slot (ro_data r) sig_data + slot (ro_progress r) sig_progress"
| "object_owns _ = {#}"

definition held :: "rest_state \<Rightarrow> (forward \<times> signature) multiset" where
  "held st = sum_list (map (record_owns \<circ> snd) (x_jobs st)) + sum_list (map (object_owns \<circ> snd) (x_objects st))"

section \<open>The invariant of the main thread\<close>

text \<open>
  \<open>extra\<close> are the forwards of a completion in progress, \<open>pin\<close> the record whose intermediate callback
  is running.
\<close>

definition jobs_ok :: "job_record option \<Rightarrow> rest_state \<Rightarrow> bool" where
  "jobs_ok pin st \<longleftrightarrow> distinct (map fst (x_jobs st)) \<and>
     (\<forall>(i, r) \<in> set (x_jobs st). jr_id r = i \<and> 0 < i \<and> i < x_nextJobId st \<and> (jr_dropped r \<longrightarrow> jr_dispatching r) \<and>
        (jr_dispatching r \<longleftrightarrow> pin \<noteq> None \<and> jr_id (the pin) = i) \<and> \<not> completed_in (x_log st) i)"

definition pin_ok :: "job_record option \<Rightarrow> rest_state \<Rightarrow> bool" where
  "pin_ok pin st \<longleftrightarrow>
     (case pin of None \<Rightarrow> True
      | Some q \<Rightarrow> \<exists>d. map_of (x_jobs st) (jr_id q) = Some (q\<lparr>jr_dropped := d\<rparr>))"

definition ids_ok :: "rest_state \<Rightarrow> bool" where
  "ids_ok st \<longleftrightarrow> 0 < x_nextJobId st \<and> is_i32 (x_nextJobId st) \<and>
     (\<forall>i call. Fx_Call i call \<in> set (x_log st) \<longrightarrow> i < x_nextJobId st)"

definition objects_ok :: "rest_state \<Rightarrow> bool" where
  "objects_ok st \<longleftrightarrow> distinct (map fst (x_objects st)) \<and>
     (\<forall>(h, obj) \<in> set (x_objects st). h \<noteq> BAD_HANDLE \<and> (\<forall>client. obj = ObjClient client \<longrightarrow> co_handle client = h))"

definition main_inv :: "(forward \<times> signature) multiset \<Rightarrow> job_record option \<Rightarrow> rest_state \<Rightarrow> bool" where
  "main_inv extra pin st \<longleftrightarrow> held st + extra = mset_set (live (x_log st)) \<and> log_ok (x_log st) \<and>
     jobs_ok pin st \<and> pin_ok pin st \<and> ids_ok st \<and> objects_ok st"

lemma jobs_okD:
  assumes "jobs_ok pin st" and "map_of (x_jobs st) i = Some r"
  shows "jr_id r = i" "0 < i" "i < x_nextJobId st" "jr_dropped r \<Longrightarrow> jr_dispatching r"
    "jr_dispatching r \<longleftrightarrow> pin \<noteq> None \<and> jr_id (the pin) = i" "\<not> completed_in (x_log st) i"
  using assms(1) map_of_SomeD [OF assms(2)] by (auto simp: jobs_ok_def)

lemma main_inv_distinct:
  "main_inv extra pin st \<Longrightarrow> distinct (map fst (x_jobs st)) \<and> distinct (map fst (x_objects st))"
  by (simp add: main_inv_def jobs_ok_def objects_ok_def)

lemma main_inv_pin: "main_inv extra (Some q) st \<Longrightarrow> \<exists>d. map_of (x_jobs st) (jr_id q) = Some (q\<lparr>jr_dropped := d\<rparr>)"
  by (simp add: main_inv_def pin_ok_def)

lemma main_inv_live: "main_inv extra pin st \<Longrightarrow> x \<in># held st + extra \<Longrightarrow> x \<in> live (x_log st)"
  by (simp add: main_inv_def)

lemma main_inv_log_ok: "main_inv extra pin st \<Longrightarrow> log_ok (x_log st)"
  by (simp add: main_inv_def)

text \<open>The fields each part looks at.\<close>

lemma held_cong: "x_jobs u = x_jobs st \<Longrightarrow> x_objects u = x_objects st \<Longrightarrow> held u = held st"
  by (simp add: held_def)

lemma jobs_ok_cong:
  "x_jobs u = x_jobs st \<Longrightarrow> x_nextJobId u = x_nextJobId st \<Longrightarrow>
     (\<And>i. i \<in> fst ` set (x_jobs st) \<Longrightarrow> completed_in (x_log u) i \<longleftrightarrow> completed_in (x_log st) i) \<Longrightarrow>
     jobs_ok pin u \<longleftrightarrow> jobs_ok pin st"
  by (simp add: jobs_ok_def split_beta)

lemma pin_ok_cong: "x_jobs u = x_jobs st \<Longrightarrow> pin_ok pin u \<longleftrightarrow> pin_ok pin st"
  unfolding pin_ok_def by (cases pin) simp_all

lemma ids_ok_cong: "x_nextJobId u = x_nextJobId st \<Longrightarrow> x_log u = x_log st \<Longrightarrow> ids_ok u \<longleftrightarrow> ids_ok st"
  by (simp add: ids_ok_def)

lemma objects_ok_cong: "x_objects u = x_objects st \<Longrightarrow> objects_ok u \<longleftrightarrow> objects_ok st"
  by (simp add: objects_ok_def)

lemma ids_ok_log: "ids_ok (sm_log fx st) \<longleftrightarrow>
    ids_ok st \<and> (case fx of Fx_Call i call \<Rightarrow> i < x_nextJobId st | _ \<Rightarrow> True)"
  by (cases fx) (auto simp: ids_ok_def)

lemma main_inv_frame:
  "x_jobs u = x_jobs st \<Longrightarrow> x_nextJobId u = x_nextJobId st \<Longrightarrow> x_objects u = x_objects st \<Longrightarrow>
     x_log u = x_log st \<Longrightarrow> main_inv extra pin st \<Longrightarrow> main_inv extra pin u"
  by (simp add: main_inv_def held_cong [of u st] jobs_ok_cong [of u st] pin_ok_cong [of u st]
      ids_ok_cong [of u st] objects_ok_cong [of u st])

text \<open>An effect that is logged.\<close>

lemma main_inv_log:
  assumes "main_inv extra pin st" and "fits (x_log st) fx"
    and "held st + extra' = mset_set (live (x_log st @ [fx]))"
    and "case fx of Fx_Call i call \<Rightarrow> i < x_nextJobId st \<and> (is_complete call \<longrightarrow> map_of (x_jobs st) i = None)
         | _ \<Rightarrow> True"
  shows "main_inv extra' pin (sm_log fx st)"
proof -
  have "completed_in (x_log (sm_log fx st)) i \<longleftrightarrow> completed_in (x_log st) i" if "i \<in> fst ` set (x_jobs st)" for i
    using that assms(4) by (cases fx) (auto simp: completed_in_snoc map_of_eq_None_iff)
  then have "jobs_ok pin (sm_log fx st)"
    using assms(1) jobs_ok_cong [of "sm_log fx st" st pin] by (simp add: main_inv_def)
  moreover have "ids_ok (sm_log fx st)" using assms(1,4) by (cases fx) (auto simp: ids_ok_log main_inv_def)
  ultimately show ?thesis using assms(1-3)
    by (simp add: main_inv_def log_ok_snoc held_cong [of "sm_log fx st" st] pin_ok_cong [of "sm_log fx st" st]
        objects_ok_cong [of "sm_log fx st" st])
qed

lemma main_inv_on_thread [intro]: "main_inv extra pin st \<Longrightarrow> main_inv extra pin (on_thread f st)"
  by (rule main_inv_frame) simp_all

lemma main_inv_set_queue [intro]: "main_inv extra pin st \<Longrightarrow> main_inv extra pin (set_main_queue q st)"
  by (rule main_inv_frame) simp_all

subsection \<open>Effects\<close>

lemma main_inv_LogError [intro]: "main_inv extra pin st \<Longrightarrow> main_inv extra pin (sm_log (Fx_LogError text) st)"
  using main_inv_log [of extra pin st "Fx_LogError text" extra] by (simp add: live_other main_inv_def)

lemma main_inv_Create:
  assumes "main_inv extra pin st" and "f \<notin> fst ` set (created (x_log st))"
  shows "main_inv (extra + {#(f, sig)#}) pin (sm_log (Fx_Create f sig) st)"
  using assms live_create [OF main_inv_log_ok [OF assms(1)] assms(2), of sig]
  by (intro main_inv_log [OF assms(1)]) (simp_all add: main_inv_def)

lemma main_inv_Release:
  assumes "main_inv (extra + {#(f, sig)#}) pin st"
  shows "main_inv extra pin (sm_log (Fx_Release f) st)"
proof -
  have l: "(f, sig) \<in> live (x_log st)" using main_inv_live [OF assms] by simp
  then have "mset_set (live (x_log st)) = mset_set (live (x_log st) - {(f, sig)}) + {#(f, sig)#}"
    by (simp add: mset_set.remove)
  then have "held st + extra = mset_set (live (x_log st @ [Fx_Release f]))"
    using assms live_release [OF main_inv_log_ok [OF assms] l] by (simp add: main_inv_def)
  with l show ?thesis by (intro main_inv_log [OF assms]) (simp_all add: image_iff rev_bexI)
qed

lemma main_inv_release_forward:
  "main_inv (extra + slot f sig) pin st \<Longrightarrow> main_inv extra pin (snd (release_forward f st))"
  by (cases f) (auto simp: release_forward_def intro: main_inv_Release)

lemma main_inv_release_record:
  "main_inv (extra + record_owns r) pin st \<Longrightarrow> main_inv extra pin (snd (release_record r st))"
  unfolding release_record_def record_owns_def Let_def split_beta snd_conv
  by (rule main_inv_release_forward [where sig = sig_progress], rule main_inv_release_forward [where sig = sig_data],
      rule main_inv_release_forward [where sig = sig_headers], rule main_inv_release_forward [where sig = sig_completed])
    (simp add: ac_simps)

lemma main_inv_Call:
  assumes "main_inv extra pin st" and "(call_forward call, call_signature call) \<in># held st + extra"
    and "i < x_nextJobId st" and "\<not> completed_in (x_log st) i"
    and "is_complete call \<Longrightarrow> map_of (x_jobs st) i = None"
  shows "main_inv extra pin (sm_log (Fx_Call i call) st)"
  using main_inv_live [OF assms(1,2)] assms
  by (intro main_inv_log [OF assms(1)]) (simp_all add: live_other main_inv_def)

subsection \<open>The job table\<close>

lemma jobs_ok_iff:
  "jobs_ok pin st \<longleftrightarrow> distinct (map fst (x_jobs st)) \<and>
     (\<forall>i r. map_of (x_jobs st) i = Some r \<longrightarrow>
        jr_id r = i \<and> 0 < i \<and> i < x_nextJobId st \<and> (jr_dropped r \<longrightarrow> jr_dispatching r) \<and>
        (jr_dispatching r \<longleftrightarrow> pin \<noteq> None \<and> jr_id (the pin) = i) \<and> \<not> completed_in (x_log st) i)"
  unfolding jobs_ok_def by (auto simp del: not_None_eq dest: map_of_SomeD)

lemma erase_record_select [simp]:
  "x_jobs (erase_record i st) = AList.delete i (x_jobs st)" "x_nextJobId (erase_record i st) = x_nextJobId st"
  "x_objects (erase_record i st) = x_objects st" "x_log (erase_record i st) = x_log st"
  "x_thread (erase_record i st) = x_thread st"
  by (simp_all add: erase_record_def)

lemma main_inv_erase:
  assumes inv: "main_inv extra pin st" and r: "map_of (x_jobs st) i = Some r" and "\<not> jr_dispatching r"
  shows "main_inv (extra + record_owns r) pin (erase_record i st)"
proof -
  have j: "jobs_ok pin st" using inv by (simp add: main_inv_def)
  have i: "pin \<noteq> None \<Longrightarrow> jr_id (the pin) \<noteq> i" using jobs_okD(5) [OF j r] assms(3) by blast
  have d: "distinct (map fst (x_jobs st))" using j by (simp add: jobs_ok_def)
  have "held (erase_record i st) + record_owns r = held st"
    unfolding held_def sum_delete [where g = record_owns, OF d r, symmetric] by (simp add: ac_simps)
  moreover have "jobs_ok pin (erase_record i st)"
    using j by (auto simp: jobs_ok_iff delete_conv' distinct_delete split: if_splits)
  moreover have "pin_ok pin (erase_record i st)"
    using inv i by (cases pin) (auto simp: main_inv_def pin_ok_def delete_conv')
  ultimately show ?thesis using inv
    by (simp add: main_inv_def ids_ok_cong [of "erase_record i st" st] objects_ok_cong [of "erase_record i st" st]
        ac_simps)
qed

lemma update_record_some:
  "map_of (x_jobs st) i = Some r \<Longrightarrow> update_record i f st = st\<lparr>x_jobs := AList.update i (f r) (x_jobs st)\<rparr>"
  by (simp add: update_record_def)

lemma update_record_select [simp]:
  "x_nextJobId (update_record i f st) = x_nextJobId st" "x_objects (update_record i f st) = x_objects st"
  "x_log (update_record i f st) = x_log st" "x_thread (update_record i f st) = x_thread st"
  "map_of (x_jobs (update_record i f st)) j = (if j = i then map_option f (map_of (x_jobs st) i) else map_of (x_jobs st) j)"
  by (simp_all add: update_record_def update_conv' split: option.split)

lemma main_inv_update:
  assumes inv: "main_inv extra pin st" and r: "map_of (x_jobs st) i = Some r"
    and owns: "record_owns (f r) = record_owns r" and id: "jr_id (f r) = jr_id r"
    and flags: "jr_dropped (f r) \<Longrightarrow> jr_dispatching (f r)" "jr_dispatching (f r) \<longleftrightarrow> pin' \<noteq> None \<and> jr_id (the pin') = i"
    and others: "\<And>j. j \<noteq> i \<Longrightarrow> (pin \<noteq> None \<and> jr_id (the pin) = j) = (pin' \<noteq> None \<and> jr_id (the pin') = j)"
    and pin: "pin_ok pin' (update_record i f st)"
  shows "main_inv extra pin' (update_record i f st)"
proof -
  let ?u = "update_record i f st"
  note u = update_record_some [OF r, of f]
  have j: "jobs_ok pin st" using inv by (simp add: main_inv_def)
  have "held ?u = held st"
    using sum_update_Some [where g = record_owns, OF r, of "f r"] by (simp add: u held_def owns)
  moreover have "jobs_ok pin' ?u"
    using j r id flags others by (auto simp: u jobs_ok_iff update_conv' distinct_update simp del: not_None_eq split: if_splits)
  ultimately show ?thesis using inv pin
    by (simp add: main_inv_def ids_ok_cong [of ?u st] objects_ok_cong [of ?u st])
qed

lemma release_forward_select [simp]:
  "x_jobs (snd (release_forward f st)) = x_jobs st" "x_nextJobId (snd (release_forward f st)) = x_nextJobId st"
  "x_objects (snd (release_forward f st)) = x_objects st" "x_thread (snd (release_forward f st)) = x_thread st"
  by (cases f; simp add: release_forward_def)+

lemma release_record_select [simp]:
  "x_jobs (snd (release_record r st)) = x_jobs st" "x_nextJobId (snd (release_record r st)) = x_nextJobId st"
  "x_objects (snd (release_record r st)) = x_objects st" "x_thread (snd (release_record r st)) = x_thread st"
  by (simp_all add: release_record_def split_beta)

text \<open>Releasing works on the log and erasing on the table, so they commute.\<close>

lemma release_forward_erase: "erase_record i (snd (release_forward f st)) = snd (release_forward f (erase_record i st))"
  by (cases f) (simp_all add: release_forward_def erase_record_def sm_log_def)

lemma release_record_erase: "erase_record i (snd (release_record r st)) = snd (release_record r (erase_record i st))"
  by (simp add: release_record_def split_beta release_forward_erase)

lemma main_inv_drop_job: "main_inv extra pin st \<Longrightarrow> main_inv extra pin (drop_job i st)"
proof -
  assume "main_inv extra pin st"
  then have inv: "main_inv extra pin (on_thread (tt_cancel i) st)" by blast
  then have j: "jobs_ok pin (on_thread (tt_cancel i) st)" by (simp add: main_inv_def)
  show ?thesis
  proof (cases "map_of (x_jobs st) i")
    case None
    with inv show ?thesis by (simp add: drop_job_def)
  next
    case (Some r)
    then have r: "map_of (x_jobs (on_thread (tt_cancel i) st)) i = Some r" by simp
    note p = jobs_okD [OF j r]
    show ?thesis
    proof (cases "jr_dispatching r")
      case True
      with p obtain q where q: "pin = Some q" "jr_id q = i" by auto
      have "pin_ok pin (update_record i (\<lambda>r. r\<lparr>jr_dropped := True\<rparr>) (on_thread (tt_cancel i) st))"
        using main_inv_pin [of extra q st] \<open>main_inv extra pin st\<close> q Some by (auto simp: pin_ok_def)
      then have "main_inv extra pin (update_record i (\<lambda>r. r\<lparr>jr_dropped := True\<rparr>) (on_thread (tt_cancel i) st))"
        using True p q by (intro main_inv_update [OF inv r]) (auto simp: record_owns_def)
      with Some True show ?thesis by (simp add: drop_job_def)
    next
      case False
      have "main_inv extra pin (snd (release_record r (erase_record i (on_thread (tt_cancel i) st))))"
        by (rule main_inv_release_record [OF main_inv_erase [OF inv r False]])
      with Some False show ?thesis by (simp add: drop_job_def release_record_erase)
    qed
  qed
qed

lemma main_inv_drop_matching: "main_inv extra pin st \<Longrightarrow> main_inv extra pin (drop_matching P st)"
proof -
  have "main_inv extra pin st \<Longrightarrow>
      main_inv extra pin (fold (\<lambda>(i, record) st. if \<not> P record then st else drop_job i st) js st)" for js
    by (induction js arbitrary: st) (simp_all add: main_inv_drop_job split_beta)
  then show "main_inv extra pin st \<Longrightarrow> main_inv extra pin (drop_matching P st)" by (simp add: drop_matching_def)
qed

subsection \<open>Objects\<close>

abbreviation set_objects :: "(handle \<times> rest_object) list \<Rightarrow> rest_state \<Rightarrow> rest_state" where
  "set_objects objs st \<equiv> st\<lparr>x_objects := objs\<rparr>"

lemma main_inv_objects:
  assumes "main_inv extra pin st"
    and "sum_list (map (object_owns \<circ> snd) objs) + extra' = sum_list (map (object_owns \<circ> snd) (x_objects st)) + extra"
    and "objects_ok (set_objects objs st)"
  shows "main_inv extra' pin (set_objects objs st)"
proof -
  let ?u = "set_objects objs st"
  have "held ?u + extra' = held st + extra" using assms(2) by (simp add: held_def add.assoc)
  with assms(1,3) show ?thesis
    by (simp add: main_inv_def jobs_ok_cong [of ?u st] pin_ok_cong [of ?u st] ids_ok_cong [of ?u st])
qed

lemma objects_ok_iff:
  "objects_ok st \<longleftrightarrow> distinct (map fst (x_objects st)) \<and>
     (\<forall>h obj. map_of (x_objects st) h = Some obj \<longrightarrow>
        h \<noteq> BAD_HANDLE \<and> (\<forall>client. obj = ObjClient client \<longrightarrow> co_handle client = h))"
  unfolding objects_ok_def by (cases "distinct (map fst (x_objects st))") (fastforce dest: map_of_SomeD)+

lemma main_inv_write:
  assumes "main_inv (extra + object_owns obj) pin st" and "map_of (x_objects st) h = Some old"
    and "\<And>client. obj = ObjClient client \<Longrightarrow> co_handle client = h"
  shows "main_inv (extra + object_owns old) pin (write_object h obj st)"
  unfolding write_object_def
proof (rule main_inv_objects [OF assms(1)])
  show "sum_list (map (object_owns \<circ> snd) (AList.update h obj (x_objects st))) + (extra + object_owns old) =
      sum_list (map (object_owns \<circ> snd) (x_objects st)) + (extra + object_owns obj)"
    using sum_update_Some [where g = object_owns, OF assms(2), of obj] by (simp add: ac_simps)
  show "objects_ok (set_objects (AList.update h obj (x_objects st)) st)"
    using assms by (auto simp: main_inv_def objects_ok_iff distinct_update update_conv' split: if_splits)
qed

lemma main_inv_write_same:
  assumes "main_inv extra pin st" and "map_of (x_objects st) h = Some old"
    and "object_owns obj = object_owns old" and "\<And>client. obj = ObjClient client \<Longrightarrow> co_handle client = h"
  shows "main_inv extra pin (write_object h obj st)"
  unfolding write_object_def
proof (rule main_inv_objects [OF assms(1)])
  show "sum_list (map (object_owns \<circ> snd) (AList.update h obj (x_objects st))) + extra =
      sum_list (map (object_owns \<circ> snd) (x_objects st)) + extra"
    using sum_update_Some [where g = object_owns, OF assms(2), of obj] assms(3) by simp
  show "objects_ok (set_objects (AList.update h obj (x_objects st)) st)"
    using assms by (auto simp: main_inv_def objects_ok_iff distinct_update update_conv' split: if_splits)
qed

lemma main_inv_new_object:
  assumes "main_inv extra pin st" and "map_of (x_objects st) h = None" and "h \<noteq> BAD_HANDLE"
    and "object_owns obj = {#}" and "\<And>client. obj = ObjClient client \<Longrightarrow> co_handle client = h"
  shows "main_inv extra pin (set_objects (AList.update h obj (x_objects st)) st)"
proof (rule main_inv_objects [OF assms(1)])
  show "sum_list (map (object_owns \<circ> snd) (AList.update h obj (x_objects st))) + extra =
      sum_list (map (object_owns \<circ> snd) (x_objects st)) + extra"
    using sum_update_None [where g = object_owns, OF assms(2), of obj] assms(4) by simp
  show "objects_ok (set_objects (AList.update h obj (x_objects st)) st)"
    using assms by (auto simp: main_inv_def objects_ok_iff distinct_update update_conv' split: if_splits)
qed

lemma main_inv_delete_object:
  assumes "main_inv extra pin st" and "map_of (x_objects st) h = Some old"
  shows "main_inv (extra + object_owns old) pin (set_objects (AList.delete h (x_objects st)) st)"
proof (rule main_inv_objects [OF assms(1)])
  have d: "distinct (map fst (x_objects st))" using main_inv_distinct [OF assms(1)] by simp
  show "sum_list (map (object_owns \<circ> snd) (AList.delete h (x_objects st))) + (extra + object_owns old) =
      sum_list (map (object_owns \<circ> snd) (x_objects st)) + extra"
    using sum_delete [where g = object_owns, OF d assms(2)] by (metis add.assoc add.commute)
  show "objects_ok (set_objects (AList.delete h (x_objects st)) st)"
    using assms by (auto simp: main_inv_def objects_ok_iff distinct_delete delete_conv' split: if_splits)
qed

lemma main_inv_on_handle_destroy:
  "main_inv (extra + object_owns obj) pin st \<Longrightarrow> main_inv extra pin (on_handle_destroy obj st)"
proof (cases obj)
  case (ObjRequest r)
  assume "main_inv (extra + object_owns obj) pin st"
  then show ?thesis
    unfolding ObjRequest on_handle_destroy.simps Let_def split_beta
    by (intro main_inv_release_forward [where sig = sig_progress] main_inv_release_forward [where sig = sig_data]
        main_inv_release_forward [where sig = sig_headers]) (simp add: ac_simps)
qed (auto simp: drop_jobs_for_client_def intro: main_inv_drop_matching)

lemma main_inv_destroy_object: "main_inv extra pin st \<Longrightarrow> main_inv extra pin (destroy_object h st)"
  by (auto simp: destroy_object_def split: option.split
      intro: main_inv_on_handle_destroy main_inv_delete_object)

lemma main_inv_free_handle: "main_inv extra pin st \<Longrightarrow> main_inv extra pin (free_handle sm h st)"
  by (simp add: free_handle_def main_inv_destroy_object)

lemma main_inv_free_owned: "main_inv extra pin st \<Longrightarrow> main_inv extra pin (free_owned_handle sm h st)"
  by (simp add: free_owned_handle_def main_inv_free_handle)

end
