(* ===== verification/Rest_Session.thy ===== *)
theory Rest_Session
  imports Rest_Ownership
begin

text \<open>
  A session of the main thread: plugins call natives, close handles and are unloaded, game frames
  dispatch events to their callbacks, and callbacks do all of this again. A plugin is a parameter, a
  script that answers each callback with a list of actions; \<open>run_action\<close> performs one, calling
  natives through the table. Each theory of a handler is proved once, in the locale \<open>plugin_host\<close>,
  for any plugin code that keeps the contract.
\<close>

section \<open>Natives keep the invariant\<close>

text \<open>
  What is assumed of SourceMod: a new handle is not in use, a new forward was never seen before; and
  job ids are not exhausted.
\<close>

definition answers_ok :: "sourcemod \<Rightarrow> rest_state \<Rightarrow> bool" where
  "answers_ok sm st \<longleftrightarrow> map_of (x_objects st) (sm_new_handle sm) = None \<and>
     (case sm_new_forward sm of None \<Rightarrow> True | Some f \<Rightarrow> f \<notin> fst ` set (created (x_log st))) \<and>
     x_nextJobId st < 2147483647"

lemma read_clientD: "read_client sm h st = Inr client \<Longrightarrow> map_of (x_objects st) h = Some (ObjClient client)"
  by (auto simp: read_client_def read_object_def split: option.splits if_splits bind_splits elim!: as_client.elims)

lemma read_requestD: "read_request sm h st = Inr request \<Longrightarrow> map_of (x_objects st) h = Some (ObjRequest request)"
  by (auto simp: read_request_def read_object_def split: option.splits if_splits bind_splits elim!: as_request.elims)

lemma read_responseD: "read_response sm h st = Inr response \<Longrightarrow> map_of (x_objects st) h = Some (ObjResponse response)"
  by (auto simp: read_response_def read_object_def split: option.splits if_splits bind_splits elim!: as_response.elims)

lemma object_owns_put_config [simp]: "object_owns (put_config config obj) = object_owns obj"
  by (cases obj) simp_all

lemma put_config_client: "put_config config obj = ObjClient c \<Longrightarrow> \<exists>c'. obj = ObjClient c' \<and> co_handle c = co_handle c'"
  by (cases obj) auto

lemma main_inv_client_handle:
  "main_inv extra pin st \<Longrightarrow> map_of (x_objects st) h = Some (ObjClient c) \<Longrightarrow> co_handle c = h \<and> h \<noteq> BAD_HANDLE"
  by (auto simp: main_inv_def objects_ok_iff)

lemma main_inv_write_config: "main_inv extra pin st \<Longrightarrow> main_inv extra pin (write_config h config st)"
proof (cases "map_of (x_objects st) h")
  case (Some obj)
  assume inv: "main_inv extra pin st"
  have "main_inv extra pin (write_object h (put_config config obj) st)"
    using main_inv_client_handle [OF inv, of h] Some
    by (intro main_inv_write_same [OF inv Some]) (auto dest!: put_config_client)
  with Some show ?thesis by (simp add: write_config_def)
qed (simp add: write_config_def)

lemma main_inv_write_request:
  assumes "main_inv extra pin st" and "read_request sm h st = Inr r"
    and "ro_headers r' = ro_headers r" and "ro_data r' = ro_data r" and "ro_progress r' = ro_progress r"
  shows "main_inv extra pin (write_object h (ObjRequest r') st)"
  by (rule main_inv_write_same [OF assms(1) read_requestD [OF assms(2)]]) (simp_all add: assms(3-5))

lemma main_inv_create_handle:
  assumes "main_inv extra pin st" and "map_of (x_objects st) (sm_new_handle sm) = None"
    and "object_owns obj = {#}" and "\<And>client. obj = ObjClient client \<Longrightarrow> co_handle client = sm_new_handle sm"
  shows "main_inv extra pin (snd (create_handle sm obj st))"
  using assms by (simp add: create_handle_def main_inv_new_object)

lemma main_inv_cancel_job: "main_inv extra pin st \<Longrightarrow> main_inv extra pin (snd (cancel_job i who st))"
  by (auto simp: cancel_job_def split: option.split)

lemma main_inv_cancel_jobs: "main_inv extra pin st \<Longrightarrow> main_inv extra pin (snd (cancel_jobs_for_client h who st))"
proof -
  have "main_inv extra pin st \<Longrightarrow> main_inv extra pin (snd (fold (\<lambda>(jobId, record) (cancelled, st).
        if jr_clientHandle record \<noteq> h \<or> jr_owner record \<noteq> who then (cancelled, st)
        else (cancelled + 1, on_thread (tt_cancel jobId) st)) js (n, st)))" for js and n :: int
    by (induction js arbitrary: st n) (simp_all add: split_beta main_inv_on_thread)
  then show "main_inv extra pin st \<Longrightarrow> main_inv extra pin (snd (cancel_jobs_for_client h who st))"
    by (simp add: cancel_jobs_for_client_def)
qed

lemma create_callback_cases:
  obtains (none) "create_callback_forward sig sm func st = (None, st)"
  | (some) f where "create_callback_forward sig sm func st = (Some f, sm_log (Fx_Create f sig) st)"
      "sm_new_forward sm = Some f"
  by (cases "sm_new_forward sm"; cases "sm_function sm func") (simp_all add: create_callback_forward_def)

lemma exchange:
  fixes e :: "'m multiset"
  assumes "a' + n = a + n'" and "n' + s = n + f"
  shows "a' + (e + s) = a + (e + f)"
proof -
  have "(a' + s) + n = (a' + n) + s" by (simp add: ac_simps)
  also have "\<dots> = a + (n' + s)" by (simp add: assms(1) add.assoc)
  also have "\<dots> = (a + f) + n" by (simp add: assms(2) ac_simps)
  finally have "a' + s = a + f" by simp
  then show ?thesis by (simp add: add.left_commute)
qed

lemma sm_log_write: "sm_log fx (write_object h obj st) = write_object h obj (sm_log fx st)"
  by (cases st) (simp add: write_object_def sm_log_def)

text \<open>Replacing one of the callbacks of a request: the new one is created before the old one is released.\<close>

lemma main_inv_replace_callback:
  assumes "main_inv extra pin st" and "read_request sm h st = Inr r" and "f \<notin> fst ` set (created (x_log st))"
    and "object_owns (ObjRequest r') + slot old sig = object_owns (ObjRequest r) + {#(f, sig)#}"
  shows "main_inv extra pin (write_object h (ObjRequest r') (snd (release_forward old (sm_log (Fx_Create f sig) st))))"
proof -
  let ?c = "sm_log (Fx_Create f sig) st"
  have c: "main_inv (extra + {#(f, sig)#}) pin ?c" by (rule main_inv_Create [OF assms(1,3)])
  have o: "map_of (x_objects ?c) h = Some (ObjRequest r)" using read_requestD [OF assms(2)] by simp
  have "main_inv (extra + slot old sig) pin (write_object h (ObjRequest r') ?c)"
    unfolding write_object_def
  proof (rule main_inv_objects [OF c])
    show "sum_list (map (object_owns \<circ> snd) (AList.update h (ObjRequest r') (x_objects ?c))) + (extra + slot old sig) =
        sum_list (map (object_owns \<circ> snd) (x_objects ?c)) + (extra + {#(f, sig)#})"
      by (rule exchange [OF sum_update_Some [where g = object_owns, OF o] assms(4)])
    show "objects_ok (set_objects (AList.update h (ObjRequest r') (x_objects ?c)) ?c)"
      using c o by (auto simp: main_inv_def objects_ok_iff distinct_update update_conv' split: if_splits)
  qed
  then have "main_inv extra pin (snd (release_forward old (write_object h (ObjRequest r') ?c)))"
    by (rule main_inv_release_forward)
  then show ?thesis by (cases old) (simp_all add: release_forward_def sm_log_write)
qed

text \<open>A job that is submitted takes the callbacks of its record.\<close>

lemma main_inv_submit_job:
  assumes inv: "main_inv (extra + record_owns r) pin st" and ids: "x_nextJobId st < 2147483647"
    and flags: "\<not> jr_dispatching r" "\<not> jr_dropped r"
  shows "main_inv extra pin (snd (submit_job spec r st))"
proof -
  let ?n = "x_nextJobId st" and ?r = "r\<lparr>jr_id := x_nextJobId st\<rparr>"
  let ?u = "st\<lparr>x_nextJobId := ?n + 1, x_jobs := AList.update ?n ?r (x_jobs st)\<rparr>"
  have i: "0 < ?n" "is_i32 (?n + 1)" and j: "jobs_ok pin st"
    using inv ids by (auto simp: main_inv_def ids_ok_def is_i32_def)
  have new: "map_of (x_jobs st) ?n = None" using jobs_okD(3) [OF j] by (metis less_irrefl not_None_eq)
  have fresh: "\<not> completed_in (x_log st) ?n"
    using inv by (auto simp: main_inv_def ids_ok_def completed_in_def list_ex_iff split: sm_effect.splits)
  have pin: "pin = None \<or> jr_id (the pin) \<noteq> ?n"
    using inv new by (cases pin) (auto simp: main_inv_def pin_ok_def)
  have "record_owns ?r = record_owns r" by (simp add: record_owns_def)
  then have "held ?u + extra = held st + (extra + record_owns r)"
    using sum_update_None [where g = record_owns, OF new, of ?r] by (simp add: held_def ac_simps)
  also have "\<dots> = mset_set (live (x_log st))" using inv by (simp add: main_inv_def)
  finally have "held ?u + extra = mset_set (live (x_log st))" .
  moreover have "jobs_ok pin ?u"
    using j i(1) fresh pin flags
    by (auto simp: jobs_ok_iff update_conv' distinct_update simp del: not_None_eq split: if_splits)
      (meson less_imp_le)+
  moreover have "pin_ok pin ?u"
    using inv pin by (cases pin) (auto simp: main_inv_def pin_ok_def update_conv')
  moreover have "ids_ok ?u" using inv i by (auto simp: main_inv_def ids_ok_def)
  moreover have "objects_ok ?u" using inv by (simp add: main_inv_def objects_ok_def)
  ultimately have "main_inv extra pin ?u"
    using inv unfolding main_inv_def by simp
  moreover have "snd (submit_job spec r st) = on_thread (enqueue (new_job (spec\<lparr>spec_id := ?n,
      spec_caBundle := x_caBundlePath st, spec_verbose := x_verbose st\<rparr>))) ?u"
    using i by (simp add: submit_job_def Let_def)
  ultimately show ?thesis by (simp add: main_inv_on_thread)
qed

lemma main_inv_eqI: "main_inv extra pin st \<Longrightarrow> extra' = extra \<Longrightarrow> main_inv extra' pin st"
  by simp

text \<open>The parts of \<open>Native_Request_Send\<close>: what is sent, for whom, and what is left of the request.\<close>

definition request_url :: "request_object \<Rightarrow> string" where
  "request_url r = join_url (cfg_baseUrl (spec_config (ro_spec r))) (spec_path (ro_spec r))"

definition sent_spec :: "request_object \<Rightarrow> request_spec" where
  "sent_spec r =
     (let spec = (ro_spec r)\<lparr>spec_url := append_query (request_url r) (spec_query (ro_spec r))\<rparr>
      in if spec_bodyKind spec = BodyKind_Form
         then spec\<lparr>spec_body := build_form_body (spec_formFields spec),
                spec_bodyContentType := ''application/x-www-form-urlencoded''\<rparr>
         else spec)"

definition sent_record :: "identity \<Rightarrow> int \<Rightarrow> forward \<Rightarrow> request_object \<Rightarrow> job_record" where
  "sent_record who context completed r =
     job_record_default\<lparr>jr_clientHandle := ro_clientHandle r, jr_owner := who, jr_completed := Some completed,
       jr_headers := ro_headers r, jr_data := ro_data r, jr_progress := ro_progress r, jr_context := context\<rparr>"

definition emptied :: "sourcemod \<Rightarrow> request_object \<Rightarrow> request_object" where
  "emptied sm r = r\<lparr>ro_headers := None, ro_data := None, ro_progress := None,
     ro_spec := sm_moved_from sm (sent_spec r)\<rparr>"

lemma native_request_send_eq:
  "native_request_send sm px p st =
     (case read_request sm (p 1) st of
        Inl e \<Rightarrow> throws e st
      | Inr r \<Rightarrow>
          if \<not> is_absolute_url (request_url r) then throws (UrlNotAbsolute (c_str (request_url r))) st
          else (case create_completed_forward sm (p 2) st of
             (None, st1) \<Rightarrow> throws InvalidCallback st1
           | (Some f, st1) \<Rightarrow>
               let (jobId, st3) = submit_job (sent_spec r) (sent_record (px_identity px) (p 3) f r)
                     (write_object (p 1) (ObjRequest (emptied sm r)) st1)
               in returns jobId (free_handle sm (p 1) st3)))"
  unfolding native_request_send_def request_url_def sent_spec_def sent_record_def emptied_def Let_def ..

lemma main_inv_send:
  assumes inv: "main_inv extra pin st" and ans: "answers_ok sm st"
  shows "main_inv extra pin (snd (native_request_send sm px p st))"
proof (cases "read_request sm (p 1) st")
  case (Inl e)
  with inv show ?thesis by (simp add: native_request_send_eq)
next
  case (Inr r)
  show ?thesis
  proof (cases rule: create_callback_cases [of sig_completed sm "p 2" st])
    case none
    with inv Inr show ?thesis by (simp add: native_request_send_eq create_completed_forward_def)
  next
    case (some f)
    let ?c = "sm_log (Fx_Create f sig_completed) st"
    let ?w = "write_object (p 1) (ObjRequest (emptied sm r)) ?c"
    have "main_inv (extra + {#(f, sig_completed)#}) pin ?c"
      using ans some(2) by (intro main_inv_Create [OF inv]) (simp add: answers_ok_def)
    then have "main_inv (extra + {#(f, sig_completed)#} + object_owns (ObjRequest r)) pin ?w"
      using read_requestD [OF Inr] by (intro main_inv_write) (simp_all add: emptied_def)
    then have "main_inv (extra + record_owns (sent_record (px_identity px) (p 3) f r)) pin ?w"
      by (rule main_inv_eqI) (simp add: sent_record_def record_owns_def ac_simps)
    moreover have "x_nextJobId ?w < 2147483647"
      using ans by (simp add: answers_ok_def write_object_def)
    ultimately have "main_inv extra pin (snd (submit_job (sent_spec r) (sent_record (px_identity px) (p 3) f r) ?w))"
      by (rule main_inv_submit_job) (simp_all add: sent_record_def job_record_default_def)
    then show ?thesis
      using inv Inr some(1)
      by (simp add: native_request_send_eq create_completed_forward_def split_beta main_inv_free_handle)
  qed
qed

section \<open>All natives\<close>

lemma main_inv_client_create:
  assumes inv: "main_inv extra pin st" and ans: "answers_ok sm st"
  shows "main_inv extra pin (snd (native_client_create sm px p st))"
proof (cases "sm_new_handle sm = BAD_HANDLE")
  case True
  with inv show ?thesis by (simp add: native_client_create_def create_handle_def Let_def)
next
  case False
  have u: "AList.update k v (AList.update k w xs) = AList.update k v xs" for k :: handle and v w :: rest_object and xs
    by (induction xs) auto
  from False ans show ?thesis
    by (simp add: native_client_create_def create_handle_def Let_def write_object_def u)
      (rule main_inv_new_object [OF inv], auto simp: answers_ok_def)
qed

lemma main_inv_client_request:
  assumes inv: "main_inv extra pin st" and ans: "answers_ok sm st"
  shows "main_inv extra pin (snd (native_client_request sm px p st))"
proof -
  have "main_inv extra pin (snd (create_handle sm (ObjRequest (request_object_default
      \<lparr>ro_clientHandle := h, ro_spec := spec\<rparr>)) st))" for h spec
    using ans by (intro main_inv_create_handle [OF inv]) (simp_all add: answers_ok_def request_object_default_def)
  with inv show ?thesis
    by (auto simp: native_client_request_def Let_def split_beta split: sum.split)
qed

lemmas config_natives = native_config_get_def native_config_set_def native_set_header_def native_remove_header_def
  native_set_basic_auth_def native_set_bearer_token_def native_set_user_agent_def

lemma main_inv_config_natives:
  assumes "main_inv extra pin st"
  shows "main_inv extra pin (snd (native_config_get ty fld sm px p st))"
    "main_inv extra pin (snd (native_config_set ty fld sm px p st))"
    "main_inv extra pin (snd (native_set_header ty sm px p st))"
    "main_inv extra pin (snd (native_remove_header ty sm px p st))"
    "main_inv extra pin (snd (native_set_basic_auth ty sm px p st))"
    "main_inv extra pin (snd (native_set_bearer_token ty sm px p st))"
    "main_inv extra pin (snd (native_set_user_agent ty sm px p st))"
  using assms by (simp_all add: config_natives Let_def main_inv_write_config split: sum.split)

lemma main_inv_client_natives:
  assumes inv: "main_inv extra pin st"
  shows "main_inv extra pin (snd (native_client_set_base_url sm px p st))"
    "main_inv extra pin (snd (native_client_cancel sm px p st))"
    "main_inv extra pin (snd (native_client_cancel_all sm px p st))"
proof -
  show "main_inv extra pin (snd (native_client_set_base_url sm px p st))"
  proof (cases "read_client sm (p 1) st")
    case (Inr client)
    note o = read_clientD [OF Inr]
    show ?thesis
      unfolding native_client_set_base_url_def Inr sum.case snd_conv
      by (rule main_inv_write_same [OF inv o]) (use main_inv_client_handle [OF inv o] in auto)
  qed (simp add: native_client_set_base_url_def inv)
qed (simp_all add: native_client_cancel_def native_client_cancel_all_def Let_def split_beta inv
       main_inv_cancel_job main_inv_cancel_jobs split: sum.split)

lemmas request_natives = native_request_set_query_def native_request_set_body_def native_request_set_body_file_def
  native_request_add_form_field_def native_request_add_form_file_def native_request_set_output_file_def

lemma main_inv_request_natives:
  assumes "main_inv extra pin st"
  shows "main_inv extra pin (snd (native_request_set_query sm px p st))"
    "main_inv extra pin (snd (native_request_set_body sm px p st))"
    "main_inv extra pin (snd (native_request_set_body_file sm px p st))"
    "main_inv extra pin (snd (native_request_add_form_field sm px p st))"
    "main_inv extra pin (snd (native_request_add_form_file sm px p st))"
    "main_inv extra pin (snd (native_request_set_output_file sm px p st))"
  using assms by (auto simp: request_natives Let_def split: sum.split intro: main_inv_write_request)

lemma main_inv_callback_natives:
  assumes inv: "main_inv extra pin st" and ans: "answers_ok sm st"
  shows "main_inv extra pin (snd (native_request_on_headers sm px p st))" (is ?h)
    and "main_inv extra pin (snd (native_request_on_data sm px p st))" (is ?d)
    and "main_inv extra pin (snd (native_request_on_progress sm px p st))" (is ?p)
proof -
  have f: "f \<notin> fst ` set (created (x_log st))" if "sm_new_forward sm = Some f" for f
    using ans that by (simp add: answers_ok_def)
  show ?h
    by (cases rule: create_callback_cases [of sig_headers sm "p 2" st])
      (auto simp: native_request_on_headers_def create_headers_forward_def inv split_beta Let_def
        split: sum.split intro!: main_inv_replace_callback f ac_simps)
  show ?d
    by (cases rule: create_callback_cases [of sig_data sm "p 2" st])
      (auto simp: native_request_on_data_def create_data_forward_def inv split_beta Let_def
        split: sum.split intro!: main_inv_replace_callback f ac_simps)
  show ?p
    by (cases rule: create_callback_cases [of sig_progress sm "p 2" st])
      (auto simp: native_request_on_progress_def create_progress_forward_def inv split_beta Let_def
        split: sum.split intro!: main_inv_replace_callback f ac_simps)
qed

lemmas response_natives = native_response_get_def native_response_get_status_def native_response_get_http_status_def
  native_response_get_content_length_def native_response_get_body_length_def native_response_get_elapsed_ms_def
  native_response_get_header_count_def native_response_get_error_def native_response_get_url_def
  native_response_get_header_def native_response_get_header_at_def native_response_get_body_def
  native_response_read_body_def

text \<open>The natives of responses change nothing.\<close>

lemma response_natives_pure:
  "snd (native_response_get g sm px p st) = st" "snd (native_response_get_error sm px p st) = st"
  "snd (native_response_get_url sm px p st) = st" "snd (native_response_get_header sm px p st) = st"
  "snd (native_response_get_header_at sm px p st) = st" "snd (native_response_get_body sm px p st) = st"
  "snd (native_response_read_body sm px p st) = st"
  by (simp_all add: response_natives Let_def split: sum.split option.split)

theorem main_inv_natives:
  assumes "main_inv extra pin st" and "answers_ok sm st" and "(name, native) \<in> set g_natives"
  shows "main_inv extra pin (snd (native sm px p st))"
proof -
  have "list_all (\<lambda>(n, f). main_inv extra pin (snd (f sm px p st))) g_natives"
    unfolding g_natives_def
    by (simp add: main_inv_config_natives [OF assms(1)] main_inv_client_natives [OF assms(1)]
        main_inv_request_natives [OF assms(1)] main_inv_callback_natives [OF assms(1,2)]
        main_inv_send [OF assms(1,2)] main_inv_client_create [OF assms(1,2)] main_inv_client_request [OF assms(1,2)]
        response_natives_pure assms(1) native_response_get_status_def native_response_get_http_status_def
        native_response_get_content_length_def native_response_get_body_length_def
        native_response_get_elapsed_ms_def native_response_get_header_count_def)
  then show ?thesis using assms(3) by (auto simp: list_all_iff)
qed

section \<open>Natives run no callback\<close>

definition calls :: "sm_effect list \<Rightarrow> (int \<times> plugin_call) list" where
  "calls log = concat (map (\<lambda>fx. case fx of Fx_Call i call \<Rightarrow> [(i, call)] | _ \<Rightarrow> []) log)"

lemma calls_append [simp]: "calls (xs @ ys) = calls xs @ calls ys"
  by (simp add: calls_def)

lemma calls_one [simp]:
  "calls [Fx_Create f sig] = []" "calls [Fx_Release f] = []" "calls [Fx_LogError text] = []"
  "calls [Fx_Call i call] = [(i, call)]"
  by (simp_all add: calls_def)

text \<open>
  What no operation of a plugin does: execute a callback, give credit to a stream, or bring a job back
  that has left the table.
\<close>

definition quiet :: "rest_state \<Rightarrow> rest_state \<Rightarrow> bool" where
  "quiet st u \<longleftrightarrow> calls (x_log u) = calls (x_log st) \<and>
     tt_consumeRequests (x_thread u) = tt_consumeRequests (x_thread st) \<and>
     x_nextJobId st \<le> x_nextJobId u \<and>
     (\<forall>i. i < x_nextJobId st \<longrightarrow> map_of (x_jobs st) i = None \<longrightarrow> map_of (x_jobs u) i = None)"

named_theorems quiet_rules \<open>operations after which a quiet run is still quiet\<close>

lemma quiet_refl [quiet_rules]: "quiet st st"
  by (simp add: quiet_def)

lemma quiet_trans: "quiet st u \<Longrightarrow> quiet u v \<Longrightarrow> quiet st v"
  by (auto simp: quiet_def intro: order.trans less_le_trans)

lemma quiet_frame:
  "quiet st u \<Longrightarrow> calls (x_log v) = calls (x_log u) \<Longrightarrow>
     tt_consumeRequests (x_thread v) = tt_consumeRequests (x_thread u) \<Longrightarrow> x_nextJobId v = x_nextJobId u \<Longrightarrow>
     (\<And>i. map_of (x_jobs u) i = None \<Longrightarrow> map_of (x_jobs v) i = None) \<Longrightarrow> quiet st v"
  by (simp add: quiet_def)

lemma quiet_effects [quiet_rules]:
  assumes "quiet st u"
  shows "quiet st (write_object h obj u)" "quiet st (write_config h config u)"
    "quiet st (snd (release_forward f u))" "quiet st (snd (release_record r u))"
    "quiet st (sm_log (Fx_Create g sig) u)" "quiet st (sm_log (Fx_LogError text) u)"
    "quiet st (on_thread (tt_cancel i) u)" "quiet st (erase_record i u)" "quiet st (update_record i k u)"
    "quiet st (snd (create_handle sm obj u))" "quiet st (set_objects objs u)"
proof -
  have w: "quiet st (write_object h obj u)" for obj
    by (rule quiet_frame [OF assms]) (simp_all add: write_object_def)
  then show "quiet st (write_object h obj u)" "quiet st (write_config h config u)"
    using assms by (simp_all add: write_config_def split: option.split)
  have r: "quiet st v \<Longrightarrow> quiet st (snd (release_forward f v))" for f v
    by (cases f; erule quiet_frame; simp add: release_forward_def)
  then show "quiet st (snd (release_forward f u))" "quiet st (snd (release_record r u))"
    using assms by (simp_all add: release_record_def split_beta)
  show "quiet st (sm_log (Fx_Create g sig) u)" "quiet st (sm_log (Fx_LogError text) u)"
    "quiet st (on_thread (tt_cancel i) u)" "quiet st (set_objects objs u)"
    by (rule quiet_frame [OF assms]; simp add: tt_cancel_def)+
  show "quiet st (erase_record i u)" "quiet st (update_record i k u)"
    by (rule quiet_frame [OF assms]; auto simp: delete_conv')+
  show "quiet st (snd (create_handle sm obj u))"
    by (rule quiet_frame [OF assms]; simp add: create_handle_def)
qed

lemma quiet_drop_job [quiet_rules]: "quiet st u \<Longrightarrow> quiet st (drop_job i u)"
  by (auto simp: drop_job_def Let_def intro!: quiet_rules split: option.split)

lemma quiet_drop_matching [quiet_rules]: "quiet st u \<Longrightarrow> quiet st (drop_matching P u)"
proof -
  have "quiet st v \<Longrightarrow> quiet st (fold (\<lambda>(i, record) st. if \<not> P record then st else drop_job i st) js v)" for js v
    by (induction js arbitrary: v) (simp_all add: quiet_drop_job split_beta)
  then show "quiet st u \<Longrightarrow> quiet st (drop_matching P u)" by (simp add: drop_matching_def)
qed

lemma quiet_destroy_object [quiet_rules]: "quiet st u \<Longrightarrow> quiet st (destroy_object h u)"
proof -
  have "quiet st v \<Longrightarrow> quiet st (on_handle_destroy obj v)" for obj v
    by (cases obj) (auto simp: drop_jobs_for_client_def Let_def split_beta intro!: quiet_rules)
  then show "quiet st u \<Longrightarrow> quiet st (destroy_object h u)"
    by (auto simp: destroy_object_def intro: quiet_rules split: option.split)
qed

lemma quiet_free_handle [quiet_rules]: "quiet st u \<Longrightarrow> quiet st (free_handle sm h u)"
  by (simp add: free_handle_def quiet_destroy_object)

lemma quiet_free_owned [quiet_rules]: "quiet st u \<Longrightarrow> quiet st (free_owned_handle sm h u)"
  by (simp add: free_owned_handle_def quiet_free_handle)

lemma quiet_cancel_job [quiet_rules]: "quiet st u \<Longrightarrow> quiet st (snd (cancel_job i who u))"
  by (auto simp: cancel_job_def intro: quiet_rules split: option.split)

lemma quiet_cancel_jobs [quiet_rules]: "quiet st u \<Longrightarrow> quiet st (snd (cancel_jobs_for_client h who u))"
proof -
  have "quiet st v \<Longrightarrow> quiet st (snd (fold (\<lambda>(jobId, record) (cancelled, st).
        if jr_clientHandle record \<noteq> h \<or> jr_owner record \<noteq> who then (cancelled, st)
        else (cancelled + 1, on_thread (tt_cancel jobId) st)) js (n, v)))" for js v and n :: int
    by (induction js arbitrary: v n) (simp_all add: split_beta quiet_effects)
  then show "quiet st u \<Longrightarrow> quiet st (snd (cancel_jobs_for_client h who u))"
    by (simp add: cancel_jobs_for_client_def)
qed

lemma quiet_submit_job:
  assumes "quiet st u" and "0 < x_nextJobId u" and "x_nextJobId u < 2147483647"
  shows "quiet st (snd (submit_job spec r u))"
proof -
  have "to_i32 (x_nextJobId u + 1) = x_nextJobId u + 1" using assms(2,3) by (simp add: is_i32_def)
  then show ?thesis using assms
    by (auto simp: submit_job_def Let_def quiet_def enqueue_def update_conv')
qed

lemma quiet_create_callback [quiet_rules]:
  "quiet st u \<Longrightarrow> quiet st (snd (create_callback_forward sig sm func u))"
  by (auto simp: create_callback_forward_def intro: quiet_rules split: option.split)

lemmas create_forward_defs = create_completed_forward_def create_headers_forward_def create_data_forward_def
  create_progress_forward_def

lemma quiet_natives:
  assumes "0 < x_nextJobId st" and "answers_ok sm st" and "(name, native) \<in> set g_natives"
  shows "quiet st (snd (native sm px p st))"
proof -
  note q = quiet_refl [of st]
  have send: "quiet st (snd (native_request_send sm px p st))"
    using assms(1,2)
    by (cases rule: create_callback_cases [of sig_completed sm "p 2" st])
      (auto simp: native_request_send_eq create_forward_defs answers_ok_def write_object_def split_beta Let_def
        split: sum.split intro!: quiet_free_handle quiet_submit_job
        intro: quiet_rules quiet_effects(1) [unfolded write_object_def])
  have cb: "quiet st (snd (native_request_on_headers sm px p st))" "quiet st (snd (native_request_on_data sm px p st))"
    "quiet st (snd (native_request_on_progress sm px p st))"
    using create_callback_cases [of _ sm "p 2" st]
    by (auto simp: native_request_on_headers_def native_request_on_data_def native_request_on_progress_def
        create_forward_defs create_callback_forward_def split_beta Let_def split: sum.split option.split
        intro!: quiet_rules)
  have "list_all (\<lambda>(n, f). quiet st (snd (f sm px p st))) g_natives"
    unfolding g_natives_def
    by (simp add: send cb config_natives request_natives native_client_create_def native_client_request_def
        native_client_set_base_url_def native_client_cancel_def native_client_cancel_all_def Let_def split_beta
        quiet_rules response_natives_pure native_response_get_status_def native_response_get_http_status_def
        native_response_get_content_length_def native_response_get_body_length_def
        native_response_get_elapsed_ms_def native_response_get_header_count_def split: sum.split)
  then show ?thesis using assms(3) by (auto simp: list_all_iff)
qed

end
