(* ===== verification/Rest_Dispatch.thy ===== *)
theory Rest_Dispatch
  imports Rest_Session
begin

text \<open>
  The dispatch of events under re-entrancy. While a callback runs, its plugin may call any native,
  close any handle (also the client of the job, or the response it was given) and even be unloaded.
  The locale \<open>plugin_host\<close> states what the extension relies on, its lemmas are about the handlers,
  and its interpretation covers every plugin that acts through the interface.
\<close>

section \<open>Plugins\<close>

datatype plugin_action =
    ActNative string sourcemod plugin_context "nat \<Rightarrow> int"
  | ActClose handle
  | ActUnloaded identity

text \<open>A native is looked up by its name; one whose answers from SourceMod are impossible does not happen.\<close>

fun run_action :: "plugin_action \<Rightarrow> rest_state \<Rightarrow> rest_state" where
  "run_action (ActNative name sm px p) st =
     (case map_of g_natives name of
        None \<Rightarrow> st
      | Some native \<Rightarrow> if answers_ok sm st then snd (native sm px p st) else st)"
| "run_action (ActClose h) st = destroy_object h st"
| "run_action (ActUnloaded who) st = on_plugin_unloaded who st"

definition plugin_of :: "(plugin_call \<Rightarrow> rest_state \<Rightarrow> plugin_action list \<times> int) \<Rightarrow> plugin_code" where
  "plugin_of script call st = (let (actions, result) = script call st in (result, fold run_action actions st))"

lemma main_inv_run_action: "main_inv extra pin st \<Longrightarrow> main_inv extra pin (run_action act st)"
  by (cases act) (auto simp: on_plugin_unloaded_def main_inv_destroy_object main_inv_drop_matching
      intro: main_inv_natives dest: map_of_SomeD split: option.split)

lemma quiet_run_action: "0 < x_nextJobId st \<Longrightarrow> quiet st (run_action act st)"
  by (cases act) (auto simp: on_plugin_unloaded_def quiet_rules intro: quiet_natives dest: map_of_SomeD split: option.split)

lemma main_inv_next: "main_inv extra pin st \<Longrightarrow> 0 < x_nextJobId st"
  by (simp add: main_inv_def ids_ok_def)

lemma run_actions:
  "main_inv extra pin st \<Longrightarrow>
     main_inv extra pin (fold run_action actions st) \<and> quiet st (fold run_action actions st)"
proof (induction actions arbitrary: st)
  case Nil
  then show ?case by (simp add: quiet_refl)
next
  case (Cons act actions)
  have "quiet st (run_action act st)" by (rule quiet_run_action [OF main_inv_next [OF Cons.prems]])
  with Cons.IH [OF main_inv_run_action [OF Cons.prems]] show ?case by (auto intro: quiet_trans)
qed

section \<open>What the extension relies on\<close>

locale plugin_host =
  fixes plugin :: plugin_code
  assumes keeps: "main_inv extra pin st \<Longrightarrow> main_inv extra pin (snd (plugin call st))"
    and silent: "main_inv extra pin st \<Longrightarrow> quiet st (snd (plugin call st))"

text \<open>The answers needed when an event is handled: a new handle is not in use.\<close>

definition event_answers_ok :: "sourcemod \<Rightarrow> rest_state \<Rightarrow> bool" where
  "event_answers_ok sm st \<longleftrightarrow> map_of (x_objects st) (sm_new_handle sm) = None"

lemma main_inv_create_response:
  "main_inv extra pin st \<Longrightarrow> event_answers_ok sm st \<Longrightarrow> main_inv extra pin (snd (create_response_handle sm event st))"
  using main_inv_create_handle [of extra pin st sm "ObjResponse (response_of event)"]
  by (simp add: create_response_handle_def event_answers_ok_def split_beta Let_def main_inv_LogError)

lemma create_response_fst: "fst (create_response_handle sm event st) = sm_new_handle sm"
  by (simp add: create_response_handle_def create_handle_def Let_def split_beta)

lemma create_response_select [simp]:
  "x_jobs (snd (create_response_handle sm event st)) = x_jobs st"
  "x_nextJobId (snd (create_response_handle sm event st)) = x_nextJobId st"
  "x_thread (snd (create_response_handle sm event st)) = x_thread st"
  "calls (x_log (snd (create_response_handle sm event st))) = calls (x_log st)"
  by (simp_all add: create_response_handle_def create_handle_def Let_def split_beta)

lemma quiet_create_response: "quiet st (snd (create_response_handle sm event st))"
  by (rule quiet_frame [OF quiet_refl]) simp_all

lemma map_of_held: "map_of (x_jobs st) i = Some r \<Longrightarrow> record_owns r \<subseteq># held st"
  using member_sum [of "x_jobs st" i r record_owns] mset_subset_eq_add_left
  unfolding held_def by (rule subset_mset.order_trans)

lemma record_owns_dropped [simp]: "record_owns (r\<lparr>jr_dropped := d\<rparr>) = record_owns r"
  by (simp add: record_owns_def)

lemma record_owns_dispatching [simp]: "record_owns (r\<lparr>jr_dispatching := d\<rparr>) = record_owns r"
  by (simp add: record_owns_def)

lemma main_inv_call_pinned:
  assumes inv: "main_inv extra (Some q) st" and "(call_forward call, call_signature call) \<in># record_owns q"
    and "\<not> is_complete call"
  shows "main_inv extra (Some q) (sm_log (Fx_Call (jr_id q) call) st)"
proof -
  obtain d where d: "map_of (x_jobs st) (jr_id q) = Some (q\<lparr>jr_dropped := d\<rparr>)"
    using main_inv_pin [OF inv] by blast
  have j: "jobs_ok (Some q) st" using inv by (simp add: main_inv_def)
  have "(call_forward call, call_signature call) \<in># held st"
    using map_of_held [OF d] assms(2) by (auto dest: mset_subset_eqD)
  then show ?thesis using jobs_okD [OF j d] assms(3) by (intro main_inv_Call [OF inv]) auto
qed

text \<open>What handling an event adds: at most one call, for the job of the event, and credit.\<close>

definition adds :: "(int \<times> plugin_call) list \<Rightarrow> (int \<times> int) list \<Rightarrow> rest_state \<Rightarrow> rest_state \<Rightarrow> bool" where
  "adds cs credit st u \<longleftrightarrow> calls (x_log u) = calls (x_log st) @ cs \<and>
     tt_consumeRequests (x_thread u) = tt_consumeRequests (x_thread st) @ credit \<and>
     x_nextJobId st \<le> x_nextJobId u \<and>
     (\<forall>i. i < x_nextJobId st \<longrightarrow> map_of (x_jobs st) i = None \<longrightarrow> map_of (x_jobs u) i = None)"

lemma quiet_adds: "quiet st u \<longleftrightarrow> adds [] [] st u"
  by (simp add: quiet_def adds_def)

lemma adds_trans: "adds cs credit st u \<Longrightarrow> adds ds credit2 u v \<Longrightarrow> adds (cs @ ds) (credit @ credit2) st v"
  by (auto simp: adds_def intro: order.trans less_le_trans)

lemma adds_quiet: "adds cs credit st u \<Longrightarrow> quiet u v \<Longrightarrow> adds cs credit st v"
  using adds_trans [of cs credit st u "[]" "[]" v] by (simp add: quiet_adds)

lemma quiet_then: "quiet st u \<Longrightarrow> adds cs credit u v \<Longrightarrow> adds cs credit st v"
  using adds_trans [of "[]" "[]" st u cs credit v] by (simp add: quiet_adds)

section \<open>The handlers\<close>

context plugin_host begin

lemma execute_pinned:
  assumes "main_inv extra (Some q) st" and "(call_forward call, call_signature call) \<in># record_owns q"
    and "\<not> is_complete call"
  shows "main_inv extra (Some q) (snd (execute plugin (jr_id q) call st)) \<and>
    adds [(jr_id q, call)] [] st (snd (execute plugin (jr_id q) call st))"
proof -
  note c = main_inv_call_pinned [OF assms]
  have "adds [(jr_id q, call)] [] st (sm_log (Fx_Call (jr_id q) call) st)" by (simp add: adds_def)
  with silent [OF c] keeps [OF c] show ?thesis by (auto simp: execute_def intro: adds_quiet)
qed

end

lemma slot_member: "(f, sig) \<in># slot g sig \<longleftrightarrow> g = Some f"
  by (cases g) auto

text \<open>The calls an event makes on the record of its job.\<close>

definition expected_calls :: "sourcemod \<Rightarrow> job_record \<Rightarrow> transfer_event \<Rightarrow> (int \<times> plugin_call) list" where
  "expected_calls sm r event =
     (let to_plugin = (\<lambda>slot call. case slot of None \<Rightarrow> []
            | Some f \<Rightarrow> if sm_function_count sm f = 0 then [] else [(jr_id r, call f)]);
          with_response = (\<lambda>cs. if sm_new_handle sm = BAD_HANDLE then [] else cs)
      in case ev_kind event of
        Kind_Progress \<Rightarrow> to_plugin (jr_progress r)
          (\<lambda>f. CallProgress f (jr_clientHandle r) (clamp_to_cell (ev_downloaded event))
             (clamp_to_cell (ev_downloadTotal event)) (clamp_to_cell (ev_uploaded event))
             (clamp_to_cell (ev_uploadTotal event)) (jr_context r))
      | Kind_Headers \<Rightarrow> with_response (to_plugin (jr_headers r)
          (\<lambda>f. CallHeaders f (jr_clientHandle r) (sm_new_handle sm) (jr_context r)))
      | Kind_Data \<Rightarrow> to_plugin (jr_data r)
          (\<lambda>f. CallData f (jr_clientHandle r) (ev_body event @ [CHR 0x00])
             (clamp_to_cell (int (length (ev_body event)))) (jr_context r))
      | Kind_Complete \<Rightarrow> with_response (to_plugin (jr_completed r)
          (\<lambda>f. CallComplete f (jr_clientHandle r) (sm_new_handle sm) (jr_context r))))"

definition expected_credit :: "transfer_event \<Rightarrow> (int \<times> int) list" where
  "expected_credit event =
     (if ev_kind event = Kind_Data then [(ev_jobId event, int (length (ev_body event)))] else [])"

context plugin_host begin

lemma dispatch_progress_ok:
  assumes "main_inv {#} (Some q) st"
  shows "main_inv {#} (Some q) (dispatch_progress sm plugin q event st) \<and>
    (ev_kind event = Kind_Progress \<longrightarrow>
       adds (expected_calls sm q event) [] st (dispatch_progress sm plugin q event st))"
proof (cases "jr_progress q")
  case None
  with assms show ?thesis using quiet_refl by (simp add: dispatch_progress_def expected_calls_def quiet_adds)
next
  case (Some f)
  have "(f, sig_progress) \<in># record_owns q" by (simp add: record_owns_def slot_member Some)
  with execute_pinned [OF assms] Some assms show ?thesis
    using quiet_refl by (simp add: dispatch_progress_def expected_calls_def quiet_adds)
qed

lemma dispatch_headers_ok:
  assumes inv: "main_inv {#} (Some q) st" and ans: "event_answers_ok sm st"
  shows "main_inv {#} (Some q) (dispatch_headers sm plugin q event st) \<and>
    (ev_kind event = Kind_Headers \<longrightarrow>
       adds (expected_calls sm q event) [] st (dispatch_headers sm plugin q event st))"
proof (cases "jr_headers q")
  case None
  with inv show ?thesis using quiet_refl by (simp add: dispatch_headers_def expected_calls_def quiet_adds)
next
  case (Some f)
  let ?c = "snd (create_response_handle sm event st)"
  let ?call = "CallHeaders f (jr_clientHandle q) (sm_new_handle sm) (jr_context q)"
  let ?e = "execute plugin (jr_id q) ?call ?c"
  have "(f, sig_headers) \<in># record_owns q" by (simp add: record_owns_def slot_member Some)
  then have e: "main_inv {#} (Some q) (snd ?e)" "adds [(jr_id q, ?call)] [] ?c (snd ?e)"
    using execute_pinned [OF main_inv_create_response [OF inv ans, of event], of ?call] by simp_all
  have a: "adds [(jr_id q, ?call)] [] st (snd ?e)" by (rule quiet_then [OF quiet_create_response e(2)])
  have eq: "dispatch_headers sm plugin q event st =
      (if sm_function_count sm f = 0 then st else if sm_new_handle sm = BAD_HANDLE then ?c
       else if fst ?e \<ge> Pl_Handled then on_thread (tt_cancel (jr_id q)) (free_owned_handle sm (sm_new_handle sm) (snd ?e))
       else free_owned_handle sm (sm_new_handle sm) (snd ?e))"
    by (simp add: dispatch_headers_def Some Let_def split_beta create_response_fst)
  let ?f = "free_owned_handle sm (sm_new_handle sm) (snd ?e)"
  have f: "main_inv {#} (Some q) ?f" "quiet (snd ?e) ?f" "quiet (snd ?e) (on_thread (tt_cancel (jr_id q)) ?f)"
    using e(1) quiet_refl by (auto intro: main_inv_free_owned quiet_rules)
  then have "main_inv {#} (Some q) (on_thread (tt_cancel (jr_id q)) ?f)" by blast
  with f inv main_inv_create_response [OF inv ans, of event] show ?thesis
    unfolding eq using adds_quiet [OF a f(2)] adds_quiet [OF a f(3)] quiet_refl [of st]
      quiet_create_response [of st sm event]
    by (simp add: expected_calls_def Some quiet_adds)
qed

lemma dispatch_data_ok:
  assumes inv: "main_inv {#} (Some q) st"
  shows "main_inv {#} (Some q) (dispatch_data sm plugin q event st) \<and>
    (ev_kind event = Kind_Data \<longrightarrow> ev_jobId event = jr_id q \<longrightarrow>
       adds (expected_calls sm q event) (expected_credit event) st (dispatch_data sm plugin q event st))"
proof -
  let ?n = "int (length (ev_body event))"
  have credit: "adds [] [(jr_id q, ?n)] u (on_thread (tt_consume (jr_id q) ?n) u)" for u
    by (simp add: adds_def tt_consume_def)
  show ?thesis
  proof (cases "jr_data q")
    case None
    with inv show ?thesis using credit
      by (auto simp: dispatch_data_def expected_calls_def expected_credit_def)
  next
    case (Some f)
    let ?call = "CallData f (jr_clientHandle q) (ev_body event @ [CHR 0x00]) (clamp_to_cell ?n) (jr_context q)"
    have "(f, sig_data) \<in># record_owns q" by (simp add: record_owns_def slot_member Some)
    then have e: "main_inv {#} (Some q) (snd (execute plugin (jr_id q) ?call st))"
        "adds [(jr_id q, ?call)] [] st (snd (execute plugin (jr_id q) ?call st))"
      using execute_pinned [OF inv, of ?call] by simp_all
    show ?thesis using Some inv e(1) credit adds_trans [OF e(2) credit]
      by (auto simp: dispatch_data_def expected_calls_def expected_credit_def Let_def)
  qed
qed

lemma dispatch_complete_ok:
  assumes inv: "main_inv (record_owns r) None st" and ans: "event_answers_ok sm st"
    and i: "jr_id r < x_nextJobId st" "\<not> completed_in (x_log st) (jr_id r)" "map_of (x_jobs st) (jr_id r) = None"
  shows "main_inv (record_owns r) None (dispatch_complete sm plugin r event st) \<and>
    (ev_kind event = Kind_Complete \<longrightarrow>
       adds (expected_calls sm r event) [] st (dispatch_complete sm plugin r event st))"
proof (cases "jr_completed r")
  case None
  with inv show ?thesis using quiet_refl by (simp add: dispatch_complete_def expected_calls_def quiet_adds)
next
  case (Some f)
  let ?c = "snd (create_response_handle sm event st)"
  let ?call = "CallComplete f (jr_clientHandle r) (sm_new_handle sm) (jr_context r)"
  let ?l = "sm_log (Fx_Call (jr_id r) ?call) ?c"
  let ?u = "snd (execute plugin (jr_id r) ?call ?c)"
  let ?f = "free_owned_handle sm (sm_new_handle sm) ?u"
  have c: "main_inv (record_owns r) None ?c" by (rule main_inv_create_response [OF inv ans])
  have "\<not> completed_in (x_log ?c) (jr_id r)"
    using i(2) by (auto simp: create_response_handle_def create_handle_def Let_def split_beta completed_in_snoc)
  then have l: "main_inv (record_owns r) None ?l"
    using i by (intro main_inv_Call [OF c]) (simp_all add: record_owns_def slot_member Some)
  have u: "main_inv (record_owns r) None ?u" using keeps [OF l] by (simp add: execute_def)
  have "adds [(jr_id r, ?call)] [] st ?l"
    by (rule quiet_then [OF quiet_create_response]) (simp add: adds_def)
  then have a: "adds [(jr_id r, ?call)] [] st ?u" using silent [OF l] by (simp add: execute_def adds_quiet)
  have eq: "dispatch_complete sm plugin r event st =
      (if sm_function_count sm f = 0 then st else if sm_new_handle sm = BAD_HANDLE then ?c else ?f)"
    by (simp add: dispatch_complete_def Some Let_def split_beta create_response_fst)
  show ?thesis
    unfolding eq using inv c main_inv_free_owned [OF u] adds_quiet [OF a quiet_free_owned [OF quiet_refl]]
      quiet_refl [of st] quiet_create_response [of st sm event]
    by (simp add: expected_calls_def Some quiet_adds)
qed

lemma dispatch_kind_ok:
  assumes "main_inv {#} (Some q) st" and "event_answers_ok sm st" and "ev_kind event \<noteq> Kind_Complete"
    and "ev_jobId event = jr_id q"
  shows "main_inv {#} (Some q) (dispatch_kind (ev_kind event) sm plugin q event st) \<and>
    adds (expected_calls sm q event) (expected_credit event) st
      (dispatch_kind (ev_kind event) sm plugin q event st)"
  using dispatch_progress_ok [OF assms(1), of sm event] dispatch_headers_ok [OF assms(1,2), of event]
    dispatch_data_ok [OF assms(1), of sm event] assms(3,4)
  by (cases "ev_kind event") (auto simp: expected_credit_def)

end

section \<open>Handling an event\<close>

lemma main_inv_erase_pinned:
  assumes inv: "main_inv extra (Some q) st" and r: "map_of (x_jobs st) (jr_id q) = Some r"
  shows "main_inv (extra + record_owns r) None (erase_record (jr_id q) st)"
proof -
  have j: "jobs_ok (Some q) st" using inv by (simp add: main_inv_def)
  have d: "distinct (map fst (x_jobs st))" using j by (simp add: jobs_ok_def)
  have "held (erase_record (jr_id q) st) + record_owns r = held st"
    unfolding held_def sum_delete [where g = record_owns, OF d r, symmetric] by (simp add: ac_simps)
  moreover have "jobs_ok None (erase_record (jr_id q) st)"
    using j by (auto simp: jobs_ok_iff delete_conv' distinct_delete split: if_splits)
  ultimately show ?thesis using inv
    by (simp add: main_inv_def ids_ok_cong [of "erase_record (jr_id q) st" st] pin_ok_def
        objects_ok_cong [of "erase_record (jr_id q) st" st] ac_simps)
qed

lemma delete_update: "AList.delete k (AList.update k v xs) = AList.delete k xs"
  by (induction xs) auto

lemma erase_update: "erase_record i (update_record i f st) = erase_record i st"
  by (simp add: erase_record_def update_record_def delete_update split: option.split)

lemma main_inv_start:
  assumes inv: "main_inv {#} None st" and r: "map_of (x_jobs st) i = Some r"
  shows "main_inv {#} (Some (r\<lparr>jr_dispatching := True\<rparr>)) (update_record i (\<lambda>r. r\<lparr>jr_dispatching := True\<rparr>) st)"
proof -
  have j: "jobs_ok None st" using inv by (simp add: main_inv_def)
  note f = jobs_okD [OF j r]
  have "(r\<lparr>jr_dispatching := True\<rparr>)\<lparr>jr_dropped := False\<rparr> = r\<lparr>jr_dispatching := True\<rparr>"
    using f(4,5) by (cases r) auto
  then have "pin_ok (Some (r\<lparr>jr_dispatching := True\<rparr>)) (update_record i (\<lambda>r. r\<lparr>jr_dispatching := True\<rparr>) st)"
    using f(1) r by (auto simp: pin_ok_def intro!: exI [of _ False])
  then show ?thesis using f by (intro main_inv_update [OF inv r]) auto
qed

lemma main_inv_end:
  assumes inv: "main_inv {#} (Some q) st" and r: "map_of (x_jobs st) (jr_id q) = Some r"
  shows "main_inv {#} None
    (let st1 = update_record (jr_id q) (\<lambda>r. r\<lparr>jr_dispatching := False\<rparr>) st
     in if \<not> jr_dropped r then st1
        else erase_record (jr_id q) (snd (release_record (r\<lparr>jr_dispatching := False\<rparr>) st1)))"
proof (cases "jr_dropped r")
  case True
  have "main_inv ({#} + record_owns (r\<lparr>jr_dispatching := False\<rparr>)) None (erase_record (jr_id q) st)"
    using main_inv_erase_pinned [OF inv r] by simp
  from main_inv_release_record [OF this] True show ?thesis
    by (simp add: Let_def release_record_erase erase_update)
next
  case False
  have "jobs_ok (Some q) st" using inv by (simp add: main_inv_def)
  then have "main_inv {#} None (update_record (jr_id q) (\<lambda>r. r\<lparr>jr_dispatching := False\<rparr>) st)"
    using False jobs_okD(1) [OF _ r] by (intro main_inv_update [OF inv r]) (auto simp: pin_ok_def)
  with False show ?thesis by (simp add: Let_def)
qed

lemma expected_calls_flag [simp]: "expected_calls sm (r\<lparr>jr_dispatching := d\<rparr>) event = expected_calls sm r event"
  by (simp add: expected_calls_def Let_def cong: if_cong option.case_cong event_kind.case_cong)

definition event_adds :: "sourcemod \<Rightarrow> transfer_event \<Rightarrow> rest_state \<Rightarrow> rest_state \<Rightarrow> bool" where
  "event_adds sm event st u \<longleftrightarrow>
     (case map_of (x_jobs st) (ev_jobId event) of
        None \<Rightarrow> u = st
      | Some r \<Rightarrow> adds (expected_calls sm r event) (expected_credit event) st u)"

context plugin_host begin

lemma handle_intermediate_ok:
  assumes inv: "main_inv {#} None st" and r: "map_of (x_jobs st) (ev_jobId event) = Some r"
    and ans: "event_answers_ok sm st" and k: "ev_kind event \<noteq> Kind_Complete"
  shows "main_inv {#} None (handle_intermediate sm plugin r event st) \<and>
    adds (expected_calls sm r event) (expected_credit event) st (handle_intermediate sm plugin r event st)"
proof -
  let ?i = "ev_jobId event" and ?q = "r\<lparr>jr_dispatching := True\<rparr>"
  let ?st1 = "update_record ?i (\<lambda>r. r\<lparr>jr_dispatching := True\<rparr>) st"
  let ?st2 = "dispatch_kind (ev_kind event) sm plugin ?q event ?st1"
  have "jobs_ok None st" using inv by (simp add: main_inv_def)
  then have id: "jr_id ?q = ?i" using jobs_okD(1) [OF _ r] by simp
  have a1: "event_answers_ok sm ?st1" using ans by (simp add: event_answers_ok_def)
  have st2: "main_inv {#} (Some ?q) ?st2" "adds (expected_calls sm r event) (expected_credit event) ?st1 ?st2"
    using dispatch_kind_ok [OF main_inv_start [OF inv r] a1 k] id by simp_all
  obtain d where d: "map_of (x_jobs ?st2) (jr_id ?q) = Some (?q\<lparr>jr_dropped := d\<rparr>)"
    using main_inv_pin [OF st2(1)] by blast
  let ?u = "let st1 = update_record (jr_id ?q) (\<lambda>r. r\<lparr>jr_dispatching := False\<rparr>) ?st2
     in if \<not> d then st1
        else erase_record (jr_id ?q) (snd (release_record (?q\<lparr>jr_dropped := d, jr_dispatching := False\<rparr>) st1))"
  have eq: "handle_intermediate sm plugin r event st = ?u"
    using d id by (simp add: handle_intermediate_def Let_def)
  have "main_inv {#} None ?u" using main_inv_end [OF st2(1) d] by simp
  moreover have "quiet st ?st1" "quiet ?st2 ?u"
    using quiet_refl by (auto simp: Let_def intro!: quiet_rules)
  ultimately show ?thesis unfolding eq using quiet_then adds_quiet [OF st2(2)] by blast
qed

lemma handle_event_ok:
  assumes inv: "main_inv {#} None st" and ans: "event_answers_ok sm st"
  shows "main_inv {#} None (handle_event sm plugin event st) \<and>
    event_adds sm event st (handle_event sm plugin event st)"
proof (cases "map_of (x_jobs st) (ev_jobId event)")
  case None
  with inv show ?thesis by (simp add: handle_event_def event_adds_def)
next
  case (Some r)
  show ?thesis
  proof (cases "ev_kind event = Kind_Complete")
    case False
    with handle_intermediate_ok [OF inv Some ans] Some show ?thesis
      by (simp add: handle_event_def event_adds_def)
  next
    case True
    let ?e = "erase_record (ev_jobId event) st" and ?c = "dispatch_complete sm plugin r event"
    have j: "jobs_ok None st" using inv by (simp add: main_inv_def)
    note f = jobs_okD [OF j Some]
    have e: "main_inv (record_owns r) None ?e" using main_inv_erase [OF inv Some] f(5) by simp
    have c: "main_inv ({#} + record_owns r) None (?c ?e)" "adds (expected_calls sm r event) [] ?e (?c ?e)"
      using dispatch_complete_ok [OF e, of sm event] ans f True
      by (simp_all add: event_answers_ok_def delete_conv')
    have q: "quiet st ?e" "quiet (?c ?e) (snd (release_record r (?c ?e)))"
      using quiet_refl by (auto intro: quiet_rules)
    show ?thesis
      using main_inv_release_record [OF c(1)] adds_quiet [OF quiet_then [OF q(1) c(2)] q(2)] Some True
      by (simp add: handle_event_def event_adds_def expected_credit_def)
  qed
qed

end

section \<open>Every plugin that acts through the interface\<close>

interpretation ph: plugin_host "plugin_of script" for script
  by unfold_locales (simp_all add: plugin_of_def split_beta run_actions)

fun events_answers_ok ::
  "nat \<Rightarrow> (nat \<Rightarrow> sourcemod) \<Rightarrow> plugin_code \<Rightarrow> transfer_event list \<Rightarrow> rest_state \<Rightarrow> bool" where
  "events_answers_ok i sms plugin [] st \<longleftrightarrow> True"
| "events_answers_ok i sms plugin (event # events) st \<longleftrightarrow>
     event_answers_ok (sms i) st \<and>
     events_answers_ok (i + 1) sms plugin events (handle_event (sms i) plugin event st)"

lemma main_inv_handle_events:
  "main_inv {#} None st \<Longrightarrow> events_answers_ok i sms (plugin_of script) events st \<Longrightarrow>
     main_inv {#} None (handle_events i sms (plugin_of script) events st)"
  by (induction events arbitrary: i st) (simp_all add: ph.handle_event_ok)

definition frame_answers_ok :: "(nat \<Rightarrow> sourcemod) \<Rightarrow> plugin_code \<Rightarrow> rest_state \<Rightarrow> bool" where
  "frame_answers_ok sms plugin st \<longleftrightarrow>
     events_answers_ok 0 sms plugin (fst (queue_drain (main_queue st)))
       (set_main_queue (snd (queue_drain (main_queue st))) st)"

lemma main_inv_frame_step:
  "main_inv {#} None st \<Longrightarrow> frame_answers_ok sms (plugin_of script) st \<Longrightarrow>
     main_inv {#} None (on_game_frame sms (plugin_of script) st)"
  by (auto simp: on_game_frame_def frame_answers_ok_def split_beta intro: main_inv_handle_events)

section \<open>Loading and unloading\<close>

lemma create_handle_types_select [simp]:
  "x_jobs (snd (create_handle_types la sm n tys st)) = x_jobs st"
  "x_nextJobId (snd (create_handle_types la sm n tys st)) = x_nextJobId st"
  "x_objects (snd (create_handle_types la sm n tys st)) = x_objects st"
  "x_log (snd (create_handle_types la sm n tys st)) = x_log st"
  "x_thread (snd (create_handle_types la sm n tys st)) = x_thread st"
  by (induction tys arbitrary: st) simp_all

lemma main_inv_types: "main_inv extra pin st \<Longrightarrow> main_inv extra pin (snd (create_handle_types la sm n tys st))"
  by (rule main_inv_frame) simp_all

lemma main_inv_ca: "main_inv extra pin st \<Longrightarrow> main_inv extra pin (detect_ca_bundle sm st)"
  by (auto simp: detect_ca_bundle_def Let_def intro: main_inv_frame [rotated 4])

lemma main_inv_load: "main_inv extra pin st \<Longrightarrow> main_inv extra pin (snd (sdk_on_load la sm n st))"
proof -
  assume inv: "main_inv extra pin st"
  let ?t = "create_handle_types la sm n [ClientType, RequestType, ResponseType] st"
  have d: "main_inv extra pin (detect_ca_bundle sm (snd ?t))" by (intro main_inv_ca main_inv_types inv)
  have f: "main_inv extra pin (st\<lparr>x_verbose := v, x_thread := t, x_hooked := h\<rparr>)"
    "main_inv extra pin (st\<lparr>x_verbose := v, x_thread := t\<rparr>)" if "main_inv extra pin st" for st v t h
    by (rule main_inv_frame [OF _ _ _ _ that]; simp)+
  from inv main_inv_types [OF inv, of la sm n "[ClientType, RequestType, ResponseType]"] f [OF d] show ?thesis
    by (simp add: sdk_on_load_def Let_def split_beta del: create_handle_types.simps split: option.split)
qed

text \<open>Releasing every record of the table and clearing it.\<close>

definition clear_jobs :: "rest_state \<Rightarrow> rest_state" where
  "clear_jobs st = (fold (\<lambda>(jobId, record) st. snd (release_record record st)) (x_jobs st) st)\<lparr>x_jobs := []\<rparr>"

lemma release_record_clear: "(snd (release_record r st))\<lparr>x_jobs := []\<rparr> = snd (release_record r (st\<lparr>x_jobs := []\<rparr>))"
proof -
  have "(snd (release_forward f st))\<lparr>x_jobs := []\<rparr> = snd (release_forward f (st\<lparr>x_jobs := []\<rparr>))" for f st
    by (cases f) (simp_all add: release_forward_def sm_log_def)
  then show ?thesis by (simp add: release_record_def split_beta)
qed

lemma main_inv_clear_jobs:
  assumes inv: "main_inv {#} None st"
  shows "main_inv {#} None (clear_jobs st)"
proof -
  let ?rel = "\<lambda>(jobId, record) st. snd (release_record record st)"
  have commute: "(fold ?rel js u)\<lparr>x_jobs := []\<rparr> = fold ?rel js (u\<lparr>x_jobs := []\<rparr>)" for js u
    by (induction js arbitrary: u) (simp_all add: split_beta release_record_clear)
  have rel: "main_inv (sum_list (map (record_owns \<circ> snd) js)) None u \<Longrightarrow> main_inv {#} None (fold ?rel js u)" for js u
  proof (induction js arbitrary: u)
    case (Cons j js)
    from Cons.prems have "main_inv (sum_list (map (record_owns \<circ> snd) js) + record_owns (snd j)) None u"
      by (simp add: ac_simps comp_def)
    from Cons.IH [OF main_inv_release_record [OF this]] show ?case by (simp add: split_beta)
  qed simp
  let ?u = "st\<lparr>x_jobs := []\<rparr>"
  have "held ?u + sum_list (map (record_owns \<circ> snd) (x_jobs st)) = held st" by (simp add: held_def ac_simps)
  then have "main_inv (sum_list (map (record_owns \<circ> snd) (x_jobs st))) None ?u"
    using inv by (simp add: main_inv_def jobs_ok_def pin_ok_def ids_ok_def objects_ok_def)
  then show ?thesis unfolding clear_jobs_def commute by (rule rel)
qed

lemma main_inv_remove_type: "main_inv extra pin st \<Longrightarrow> main_inv extra pin (remove_type removed ty st)"
proof -
  have "main_inv extra pin u \<Longrightarrow> main_inv extra pin (fold destroy_object hs u)" for hs u
    by (induction hs arbitrary: u) (simp_all add: main_inv_destroy_object)
  moreover assume "main_inv extra pin st"
  then have "main_inv extra pin (st\<lparr>x_types := removeAll ty (x_types st)\<rparr>)" by (rule main_inv_frame [rotated 4]) simp_all
  ultimately show ?thesis by (simp add: remove_type_def)
qed

lemma sdk_on_unload_eq:
  "sdk_on_unload removed st =
     (let st2 = set_main_queue (queue_set_enabled False (main_queue st)) (st\<lparr>x_hooked := False\<rparr>);
          st3 = on_thread tt_stop st2;
          st4 = set_main_queue (snd (queue_drain (main_queue st3))) st3
      in remove_type removed ClientType
           (remove_type removed RequestType (remove_type removed ResponseType (clear_jobs st4))))"
  by (simp add: sdk_on_unload_def clear_jobs_def Let_def main_queue_def)

lemma main_inv_unload: "main_inv {#} None st \<Longrightarrow> main_inv {#} None (sdk_on_unload removed st)"
proof -
  assume "main_inv {#} None st"
  then have "main_inv {#} None (st\<lparr>x_hooked := False\<rparr>)" by (rule main_inv_frame [rotated 4]) simp_all
  then show ?thesis
    unfolding sdk_on_unload_eq Let_def
    by (intro main_inv_remove_type main_inv_clear_jobs main_inv_set_queue main_inv_on_thread)
qed

end
