(* ===== verification/Rest_Thread.thy ===== *)
theory Rest_Thread
  imports Rest_Transfer "HOL-Library.Sublist"
begin

text \<open>
  What the phases of a round of the transfer thread guarantee: every cancellation that was requested
  takes effect, every due retry starts, the thread never sleeps past a retry; and stopping cancels
  every job. What a whole round does to the jobs is in \<open>Rest_Rounds\<close>.
\<close>

text \<open>A thread with two active jobs, for the witnesses.\<close>

definition demo_thread :: transfer_thread where
  "demo_thread = \<lparr>tt_multi = True, tt_running = True, tt_incoming = [], tt_cancelRequests = [],
     tt_consumeRequests = [], tt_active = [new_job demo_stream, new_job demo_download],
     tt_world = (Map.empty, queue_default)\<rparr>"

lemma demo_thread_fields:
  "tt_running demo_thread" "map job_id (tt_active demo_thread) = [7, 8]"
  "\<not> m_waitingForRetry (new_job spec)" "tt_active demo_thread = [new_job demo_stream, new_job demo_download]"
  by (simp_all add: demo_thread_def job_id_def new_job_def demo_stream_def demo_download_def request_spec_default_def)

section \<open>Retries\<close>

text \<open>
  Every due retry starts. After \<open>StartDueRetries\<close> no job whose retry was due is still waiting,
  and the jobs are the same ones in the same order.
\<close>

theorem due_retries_start:
  "(\<forall>job \<in> set (tt_active (start_due_retries env now t)). \<not> is_retry_due job now) \<and>
   map job_id (tt_active (start_due_retries env now t)) = map job_id (tt_active t)"
proof -
  have "tt_active t = fst (jobs_world t)" by (simp add: jobs_world_def)
  then show ?thesis
    using mj.start_walk_none_due [where p = "jobs_world t" and now = now and e = env]
      mj.start_walk_idents [where p = "jobs_world t" and now = now and e = env]
    by (simp add: jobs_world_select(1) [of "start_due_retries env now t"] jobs_world_retries)
qed

lemma due_retries_start_witness:
  "map job_id (tt_active (start_due_retries (\<lambda>_. host_default) 5 demo_thread)) = [7, 8]"
  using due_retries_start [of "\<lambda>_. host_default" 5 demo_thread] by (simp only: demo_thread_fields(2))

section \<open>Cancellations\<close>

lemma find_active_SomeD:
  "find_active jobId t = Some i \<Longrightarrow>
     i < length (tt_active t) \<and> job_id (tt_active t ! i) = jobId \<and> \<not> m_finished (tt_active t ! i)"
  unfolding find_active_def by (drule find_index_SomeD) simp

lemma find_active_None:
  "find_active jobId t = None \<longleftrightarrow> (\<forall>job \<in> set (tt_active t). job_id job = jobId \<longrightarrow> m_finished job)"
  by (auto simp: find_active_def find_index_None_iff)

lemma active_on_active:
  "i < length (tt_active t) \<Longrightarrow> k < length (tt_active t) \<Longrightarrow>
     tt_active (on_active f i t) ! k =
       (if k = i then fst (call_job f (tt_active t ! i) (tt_world t)) else tt_active t ! k)"
  by (simp add: on_active_def call_at_def split_beta nth_list_update)

text \<open>One request: the jobs with that id are finished afterwards, the others as they were.\<close>

definition cancelled_by :: "int list \<Rightarrow> rest_job list \<Rightarrow> rest_job list \<Rightarrow> bool" where
  "cancelled_by ids js ks \<longleftrightarrow> length ks = length js \<and>
     (\<forall>k < length js. job_id (ks ! k) = job_id (js ! k) \<and>
        (if job_id (js ! k) \<in> set ids then m_finished (ks ! k) else ks ! k = js ! k))"

lemma apply_cancellation_one:
  assumes "distinct (map job_id (tt_active t))"
  shows "cancelled_by [jobId] (tt_active t) (tt_active (apply_cancellation jobId t))"
proof (cases "find_active jobId t")
  case None
  then have "apply_cancellation jobId t = t" by (simp add: apply_cancellation_def)
  with None show ?thesis by (auto simp: cancelled_by_def find_active_None)
next
  case (Some i)
  note i = find_active_SomeD [OF Some]
  let ?u = "on_active cancel i t"
  have eq: "apply_cancellation jobId t = ?u" using Some by (simp add: apply_cancellation_def)
  have "job_id (tt_active ?u ! k) = job_id (tt_active t ! k) \<and>
      (if job_id (tt_active t ! k) \<in> set [jobId] then m_finished (tt_active ?u ! k)
       else tt_active ?u ! k = tt_active t ! k)" if k: "k < length (tt_active t)" for k
  proof (cases "k = i")
    case True
    with i show ?thesis
      by (simp add: active_on_active call_job_fst cancel_done) (simp add: job_id_def cancel_keeps_spec)
  next
    case False
    then have "job_id (tt_active t ! k) \<noteq> jobId"
      using assms i k by (metis length_map nth_eq_iff_index_eq nth_map)
    with False i k show ?thesis by (simp add: active_on_active)
  qed
  then show ?thesis unfolding eq cancelled_by_def by simp
qed

lemma cancelled_by_trans:
  assumes "cancelled_by [x] js ks" and "cancelled_by xs ks ls"
  shows "cancelled_by (x # xs) js ls"
proof -
  have "job_id (ls ! k) = job_id (js ! k) \<and>
      (if job_id (js ! k) \<in> set (x # xs) then m_finished (ls ! k) else ls ! k = js ! k)"
    if "k < length js" for k
  proof -
    have a: "job_id (ks ! k) = job_id (js ! k)" "if job_id (js ! k) = x then m_finished (ks ! k) else ks ! k = js ! k"
      using assms(1) that by (simp_all add: cancelled_by_def)
    have b: "job_id (ls ! k) = job_id (ks ! k)" "if job_id (ks ! k) \<in> set xs then m_finished (ls ! k) else ls ! k = ks ! k"
      using assms that by (simp_all add: cancelled_by_def)
    show ?thesis using a b by (cases "job_id (js ! k) = x"; cases "job_id (js ! k) \<in> set xs") simp_all
  qed
  then show ?thesis using assms by (simp add: cancelled_by_def)
qed

lemma cancelled_by_Nil: "cancelled_by [] js js"
  by (simp add: cancelled_by_def)

lemma cancelled_by_ids: "cancelled_by ids js ks \<Longrightarrow> map job_id ks = map job_id js"
  by (auto simp: cancelled_by_def intro!: nth_equalityI)

text \<open>
  C27: Every cancellation takes effect, and on its job only. With distinct job ids, after the
  requests have been applied every active job whose id was requested is finished, and every other
  job is unchanged. A request that is older than its job's admission is not lost, because a round
  admits the incoming jobs before it applies the requests.
\<close>

theorem cancellations_take_effect:
  assumes "distinct (map job_id (tt_active t))"
  shows "cancelled_by ids (tt_active t) (tt_active (apply_cancellations ids t))"
  using assms
proof (induction ids arbitrary: t)
  case Nil
  show ?case by (simp add: apply_cancellations_def cancelled_by_Nil)
next
  case (Cons x ids)
  note one = apply_cancellation_one [OF Cons.prems, of x]
  have "distinct (map job_id (tt_active (apply_cancellation x t)))"
    using Cons.prems cancelled_by_ids [OF one] by simp
  from cancelled_by_trans [OF one Cons.IH [OF this]] show ?case by (simp add: apply_cancellations_def)
qed

lemma cancellations_take_effect_witness:
  "m_finished (tt_active (apply_cancellations [8] demo_thread) ! 1) \<and>
   tt_active (apply_cancellations [8] demo_thread) ! 0 = new_job demo_stream"
proof -
  have id: "job_id (new_job demo_stream) = 7" "job_id (new_job demo_download) = 8"
    using demo_thread_fields(2) by (simp_all add: demo_thread_fields(4))
  have d: "distinct (map job_id (tt_active demo_thread))" by (simp add: demo_thread_fields(2))
  have "cancelled_by [8] [new_job demo_stream, new_job demo_download] (tt_active (apply_cancellations [8] demo_thread))"
    using cancellations_take_effect [OF d, of "[8]"] by (simp only: demo_thread_fields(4))
  then show ?thesis unfolding cancelled_by_def by (auto simp: less_Suc_eq id)
qed

section \<open>Waiting\<close>

definition wait_of :: "int \<Rightarrow> rest_job \<Rightarrow> int" where
  "wait_of now job = max 0 (to_i32 ((m_retryAt job - now) sdiv 1000000))"

lemma fold_min:
  fixes f :: "'a \<Rightarrow> int"
  shows "fold (\<lambda>x w. if Q x then min w (f x) else w) xs a \<le> a \<and>
    (\<forall>x \<in> set xs. Q x \<longrightarrow> fold (\<lambda>x w. if Q x then min w (f x) else w) xs a \<le> f x) \<and>
    (fold (\<lambda>x w. if Q x then min w (f x) else w) xs a = a \<or>
     (\<exists>x \<in> set xs. Q x \<and> fold (\<lambda>x w. if Q x then min w (f x) else w) xs a = f x))"
proof (induction xs arbitrary: a)
  case (Cons x xs)
  show ?case
  proof (cases "Q x")
    case True
    then show ?thesis using Cons.IH [of "min a (f x)"] by (auto simp: min_def split: if_splits)
  next
    case False
    then show ?thesis using Cons.IH [of a] by auto
  qed
qed simp

lemma compute_wait_eq:
  "compute_wait_ms now t =
     fold (\<lambda>job w. if m_waitingForRetry job then min w (wait_of now job) else w) (tt_active t) kMaxWaitMs"
  unfolding compute_wait_ms_def wait_of_def Let_def
  by (rule fold_cong [OF refl refl]) (rule ext, simp)

lemma wait_of_late:
  assumes "- 2147483648 * 1000000 < m_retryAt job - now" and "m_retryAt job - now < 2147483648 * 1000000"
  shows "now + wait_of now job * 1000000 \<le> max now (m_retryAt job)"
proof (cases "m_retryAt job \<le> now")
  case True
  have "- 2147483648 < (m_retryAt job - now) sdiv 1000000 \<and> (m_retryAt job - now) sdiv 1000000 \<le> 0"
    using True assms(1) by (auto simp: signed_divide_int_def sgn_if)
  then show ?thesis using True by (simp add: wait_of_def is_i32_def)
next
  case False
  then have d: "(m_retryAt job - now) sdiv 1000000 = (m_retryAt job - now) div 1000000"
    by (simp add: signed_divide_int_def)
  have "(m_retryAt job - now) div 1000000 < 2147483648" "0 \<le> (m_retryAt job - now) div 1000000"
    using assms(2) False by linarith+
  then have "wait_of now job = (m_retryAt job - now) div 1000000" by (simp add: wait_of_def d is_i32_def)
  moreover have "(m_retryAt job - now) div 1000000 * 1000000 \<le> m_retryAt job - now" by simp
  ultimately show ?thesis using False by linarith
qed

text \<open>
  C28: The thread never oversleeps. A round may wait between nothing and one second, and not beyond
  the time of any retry that is waiting (for retries less than 24 days away, which every delay is);
  with nothing to wait for it waits the full second.
\<close>

theorem wait_is_never_too_long:
  "0 \<le> compute_wait_ms now t \<and> compute_wait_ms now t \<le> 1000 \<and>
   (\<forall>job \<in> set (tt_active t). m_waitingForRetry job \<and> \<bar>m_retryAt job - now\<bar> < 2147483648 * 1000000 \<longrightarrow>
      now + compute_wait_ms now t * 1000000 \<le> max now (m_retryAt job)) \<and>
   ((\<forall>job \<in> set (tt_active t). \<not> m_waitingForRetry job) \<longrightarrow> compute_wait_ms now t = 1000)"
proof -
  let ?r = "compute_wait_ms now t"
  have r: "?r \<le> 1000" "0 \<le> ?r" "\<And>job. job \<in> set (tt_active t) \<Longrightarrow> m_waitingForRetry job \<Longrightarrow> ?r \<le> wait_of now job"
    "?r = 1000 \<or> (\<exists>job \<in> set (tt_active t). m_waitingForRetry job)"
    using fold_min [of m_waitingForRetry "wait_of now" "tt_active t" kMaxWaitMs]
    by (auto simp: compute_wait_eq kMaxWaitMs_def wait_of_def)
  have "now + ?r * 1000000 \<le> max now (m_retryAt job)"
    if "job \<in> set (tt_active t)" "m_waitingForRetry job" "\<bar>m_retryAt job - now\<bar> < 2147483648 * 1000000" for job
    using wait_of_late [of job now] r(3) [OF that(1,2)] that(3) by linarith
  with r show ?thesis by blast
qed

lemma wait_is_never_too_long_witness: "compute_wait_ms 0 demo_thread = 1000"
  using wait_is_never_too_long [of 0 demo_thread] by (simp add: demo_thread_fields)

section \<open>Stopping\<close>

lemma walk_world:
  assumes "n \<le> length (tt_active t)"
  shows "tt_world (fold (on_active f) [0..<n] t) =
      fold (\<lambda>job w. snd (call_job f job w)) (take n (tt_active t)) (tt_world t) \<and>
    length (tt_active (fold (on_active f) [0..<n] t)) = length (tt_active t) \<and>
    drop n (tt_active (fold (on_active f) [0..<n] t)) = drop n (tt_active t)"
  using assms
proof (induction n)
  case (Suc n)
  let ?u = "fold (on_active f) [0..<n] t"
  from Suc have u: "tt_world ?u = fold (\<lambda>job w. snd (call_job f job w)) (take n (tt_active t)) (tt_world t)"
      "length (tt_active ?u) = length (tt_active t)" "drop n (tt_active ?u) = drop n (tt_active t)" "n < length (tt_active t)"
    by simp_all
  then have nth: "tt_active ?u ! n = tt_active t ! n" by (metis hd_drop_conv_nth)
  have "drop (Suc n) (tt_active ?u) = drop (Suc n) (tt_active t)" by (metis u(3) drop_Suc tl_drop)
  moreover have "fold (on_active f) [0..<Suc n] t = on_active f n ?u" by simp
  moreover have "tt_world (on_active f n v) = snd (call_job f (tt_active v ! n) (tt_world v))"
      "length (tt_active (on_active f n v)) = length (tt_active v)"
      "drop (Suc n) (tt_active (on_active f n v)) = drop (Suc n) (tt_active v)" for v
    by (simp_all add: on_active_def call_at_def split_beta)
  ultimately show ?case using u nth by (simp add: take_Suc_conv_app_nth)
qed simp

text \<open>What cancelling one job leaves of the world: its part file is closed, and it says so if it has to.\<close>

definition cancelled_note :: "rest_job \<Rightarrow> main_thread_queue \<Rightarrow> main_thread_queue" where
  "cancelled_note job q =
     (if m_finished job then q else queue_post (complete_event RestStatus_Cancelled ''cancelled'' job) q)"

lemma cancel_world:
  "snd (call_job cancel job w) = (fclose_output (m_outputFile job) (fst w), cancelled_note job (snd w))"
  by (simp add: call_job_def cancel_def finish_def post_event_def release_curl_def close_files_def cancelled_note_def
      complete_event_def job_ctx_of_def rest_job.extend_def)

lemma cancel_all_world:
  "fold (\<lambda>job w. snd (call_job cancel job w)) jobs w =
     (fold (\<lambda>job. fclose_output (m_outputFile job)) jobs (fst w), fold cancelled_note jobs (snd w))"
  by (induction jobs arbitrary: w) (simp_all add: cancel_world)

lemma cancelled_notes:
  "mq_events (fold cancelled_note jobs q) = mq_events q @
     (if mq_enabled q then map (complete_event RestStatus_Cancelled ''cancelled'') (filter (\<lambda>job. \<not> m_finished job) jobs)
      else [])"
  by (induction jobs arbitrary: q) (simp_all add: cancelled_note_def queue_post_def)

text \<open>
  C40: Stopping cancels every job. When a running thread is stopped, each active job that is not finished
  yet tells the main thread so, in their order: one \<open>Complete\<close> event with the status \<open>Cancelled\<close> each and
  nothing else, unless the queue is already closed; their part files are closed; no job and no multi
  handle is left, and the thread will not run again. Jobs that were still waiting to be admitted go
  without an event. A thread that is not running is left alone.
\<close>

theorem stop_cancels_all:
  "(\<not> tt_running t \<longrightarrow> tt_stop t = t) \<and>
   (tt_running t \<longrightarrow>
      tt_active (tt_stop t) = [] \<and> tt_incoming (tt_stop t) = [] \<and> \<not> tt_multi (tt_stop t) \<and>
      \<not> tt_running (tt_stop t) \<and>
      mq_events (snd (tt_world (tt_stop t))) = mq_events (snd (tt_world t)) @
        (if mq_enabled (snd (tt_world t))
         then map (complete_event RestStatus_Cancelled ''cancelled'') (filter (\<lambda>job. \<not> m_finished job) (tt_active t))
         else []) \<and>
      fst (tt_world (tt_stop t)) = fold (\<lambda>job. fclose_output (m_outputFile job)) (tt_active t) (fst (tt_world t)))"
proof -
  let ?t = "t\<lparr>tt_running := False\<rparr>"
  define u where "u = fold (on_active cancel) [0..<length (tt_active t)] ?t"
  have w: "tt_world u = fold (\<lambda>job w. snd (call_job cancel job w)) (tt_active t) (tt_world t)"
    using walk_world [of "length (tt_active t)" ?t cancel] by (simp add: u_def)
  have "tt_running (fold (on_active cancel) is v) = tt_running v" for "is" v
    by (induction "is" arbitrary: v) simp_all
  then have "\<not> tt_running u" by (simp add: u_def)
  moreover have "tt_running t \<Longrightarrow> tt_stop t = u\<lparr>tt_active := [], tt_incoming := [], tt_multi := False\<rparr>"
    by (simp add: tt_stop_def Let_def u_def)
  moreover have "\<not> tt_running t \<Longrightarrow> tt_stop t = t" by (simp add: tt_stop_def)
  ultimately show ?thesis by (auto simp: w cancel_all_world cancelled_notes)
qed

lemma stop_cancels_all_witness:
  "tt_active (tt_stop demo_thread) = [] \<and> \<not> tt_running (tt_stop demo_thread) \<and>
   map ev_jobId (mq_events (snd (tt_world (tt_stop demo_thread)))) = [7, 8]"
  using stop_cancels_all [of demo_thread]
  by (simp add: demo_thread_def new_job_def demo_stream_def demo_download_def request_spec_default_def queue_default_def)

end
