(* ===== verification/Rest_Main.thy ===== *)
theory Rest_Main
  imports Rest_Dispatch Rest_Thread
begin

text \<open>
  The main thread over time: every state it can reach from the start of the extension, whatever the
  plugins, SourceMod and the transfer thread do, and what holds in all of them.
\<close>

section \<open>Sessions\<close>

definition rest_start :: "file_system \<Rightarrow> rest_state" where
  "rest_start files =
     \<lparr>x_jobs = [], x_nextJobId = 1, x_caBundlePath = [], x_verbose = False,
      x_thread = \<lparr>tt_multi = False, tt_running = False, tt_incoming = [], tt_cancelRequests = [],
        tt_consumeRequests = [], tt_active = [], tt_world = (files, queue_default)\<rparr>,
      x_objects = [], x_types = [], x_hooked = False, x_log = []\<rparr>"

text \<open>
  The steps: loading, an action of a plugin, a game frame, anything the transfer thread does to its
  own state and the queue, and unloading. The events of a frame are therefore arbitrary here.
\<close>

inductive main_step ::
  "(plugin_call \<Rightarrow> rest_state \<Rightarrow> plugin_action list \<times> int) \<Rightarrow> rest_state \<Rightarrow> rest_state \<Rightarrow> bool" for script where
  load: "main_step script st (snd (sdk_on_load la sm maxlength st))"
| act: "main_step script st (run_action action st)"
| frame: "frame_answers_ok sms (plugin_of script) st \<Longrightarrow>
     main_step script st (on_game_frame sms (plugin_of script) st)"
| thread: "main_step script st (st\<lparr>x_thread := thread\<rparr>)"
| unload: "main_step script st (sdk_on_unload removed st)"

inductive session :: "(plugin_call \<Rightarrow> rest_state \<Rightarrow> plugin_action list \<times> int) \<Rightarrow> rest_state \<Rightarrow> bool" for script where
  start: "session script (rest_start files)"
| step: "session script st \<Longrightarrow> main_step script st u \<Longrightarrow> session script u"

inductive_cases main_stepE: "main_step script st u"

lemma main_inv_start_state: "main_inv {#} None (rest_start files)"
  by (simp add: main_inv_def held_def jobs_ok_def pin_ok_def ids_ok_def objects_ok_def rest_start_def is_i32_def
      live_def created_def)

lemma main_inv_step: "main_step script st u \<Longrightarrow> main_inv {#} None st \<Longrightarrow> main_inv {#} None u"
  by (erule main_step.cases)
    (auto intro: main_inv_load main_inv_run_action main_inv_frame_step main_inv_unload main_inv_frame [rotated 4])

lemma session_inv: "session script st \<Longrightarrow> main_inv {#} None st"
  by (induction rule: session.induct) (auto intro: main_inv_start_state main_inv_step)

lemma main_inv_steps: "(main_step script)\<^sup>*\<^sup>* st u \<Longrightarrow> main_inv {#} None st \<Longrightarrow> main_inv {#} None u"
  by (induction rule: rtranclp_induct) (auto intro: main_inv_step)

section \<open>Callbacks have one owner\<close>

lemma created_mem: "Fx_Create f sig \<in> set log \<Longrightarrow> (f, sig) \<in> set (created log)"
  by (cases sig, induction log) (auto simp: created_def)

lemma sum_owns_empty:
  "\<forall>x \<in> set xs. g (snd x) = {#} \<Longrightarrow> sum_list (map (g \<circ> snd) xs) = {#}"
  by (induction xs) simp_all

text \<open>When the last owners are gone, everything that was created has been released.\<close>

lemma created_are_released:
  assumes "main_inv {#} None st" and "x_jobs st = []" and "\<forall>(h, obj) \<in> set (x_objects st). as_request obj = None"
  shows "\<forall>f sig. Fx_Create f sig \<in> set (x_log st) \<longrightarrow> Fx_Release f \<in> set (x_log st)"
proof (intro allI impI)
  fix f sig
  assume c: "Fx_Create f sig \<in> set (x_log st)"
  have "object_owns obj = {#}" if "(h, obj) \<in> set (x_objects st)" for h obj
    using assms(3) that by (cases obj) auto
  then have "sum_list (map (object_owns \<circ> snd) (x_objects st)) = {#}" by (intro sum_owns_empty) auto
  then have "held st = {#}" using assms(2) by (simp add: held_def)
  then have "live (x_log st) = {}" using assms(1) by (simp add: main_inv_def mset_set_empty_iff)
  with created_mem [OF c] show "Fx_Release f \<in> set (x_log st)" by (cases sig) (auto simp: live_def)
qed

text \<open>
  C29: No callback dangles, leaks or is called in the wrong way. In every state of every session the
  log of the calls to SourceMod is in order: each forward is created once, executed only while it is
  live and with the parameters it was declared with, released at most once and only after it was
  created, and no callback of a job runs after its completion callback, which runs at most once. A
  forward is live exactly when one request or one job record in the table holds it, and only one
  does. So when the last request and the last job are gone, every forward has been released.
\<close>

theorem callbacks_have_one_owner:
  assumes "session script st"
  shows "log_ok (x_log st) \<and>
    held st = mset_set (live (x_log st)) \<and>
    (x_jobs st = [] \<and> (\<forall>(h, obj) \<in> set (x_objects st). as_request obj = None) \<longrightarrow>
       (\<forall>f sig. Fx_Create f sig \<in> set (x_log st) \<longrightarrow> Fx_Release f \<in> set (x_log st)))"
proof -
  have inv: "main_inv {#} None st" by (rule session_inv [OF assms])
  then have "log_ok (x_log st)" "held st = mset_set (live (x_log st))" by (simp_all add: main_inv_def)
  with created_are_released [OF inv] show ?thesis by blast
qed

section \<open>Events\<close>

text \<open>
  C30: An event reaches the callback it is for, and nobody else. An event of a job that is not in
  the table changes nothing. For a job in the table, handling it makes exactly the calls
  \<open>expected_calls\<close>: the callback of the event's kind, if there is one with a function (and a response
  handle could be made, where it gets one), with the values of the event as cells; and a data event
  gives back to the transfer exactly the bytes it carried, also when there is no callback or the
  plugin dropped the job in it. All of this whatever the plugin does meanwhile.
\<close>

theorem event_reaches_its_callback:
  assumes "session script st" and "event_answers_ok sm st"
  shows "case map_of (x_jobs st) (ev_jobId event) of
      None \<Rightarrow> handle_event sm (plugin_of script) event st = st
    | Some r \<Rightarrow>
        calls (x_log (handle_event sm (plugin_of script) event st)) = calls (x_log st) @ expected_calls sm r event \<and>
        tt_consumeRequests (x_thread (handle_event sm (plugin_of script) event st)) =
          tt_consumeRequests (x_thread st) @ expected_credit event"
  using ph.handle_event_ok [OF session_inv [OF assms(1)] assms(2), of script event]
  by (simp add: event_adds_def adds_def split: option.splits)

section \<open>Dropped jobs\<close>

definition calls_for :: "int \<Rightarrow> rest_state \<Rightarrow> (int \<times> plugin_call) list" where
  "calls_for i st = filter (\<lambda>(j, call). j = i) (calls (x_log st))"

text \<open>A job that has left the table is not heard of again.\<close>

definition gone :: "int \<Rightarrow> rest_state \<Rightarrow> bool" where
  "gone i st \<longleftrightarrow> i < x_nextJobId st \<and> map_of (x_jobs st) i = None"

lemma quiet_gone: "quiet st u \<Longrightarrow> gone i st \<Longrightarrow> gone i u \<and> calls_for i u = calls_for i st"
  by (auto simp: quiet_def gone_def calls_for_def)

lemma expected_calls_ids: "(j, call) \<in> set (expected_calls sm r event) \<Longrightarrow> j = jr_id r"
  by (auto simp: expected_calls_def Let_def split: event_kind.splits option.splits if_splits)

lemma handle_event_gone:
  assumes inv: "main_inv {#} None st" and ans: "event_answers_ok sm st" and g: "gone i st"
  shows "gone i (handle_event sm (plugin_of script) event st) \<and>
    calls_for i (handle_event sm (plugin_of script) event st) = calls_for i st"
proof (cases "map_of (x_jobs st) (ev_jobId event)")
  case None
  with g show ?thesis by (simp add: handle_event_def)
next
  case (Some r)
  have "jobs_ok None st" using inv by (simp add: main_inv_def)
  then have r: "jr_id r = ev_jobId event" using jobs_okD(1) [OF _ Some] by simp
  have "i \<noteq> ev_jobId event" using g Some by (auto simp: gone_def)
  then have "filter (\<lambda>(j, call). j = i) (expected_calls sm r event) = []"
    using r by (auto simp: filter_empty_conv dest!: expected_calls_ids)
  then show ?thesis
    using ph.handle_event_ok [OF inv ans, of script event] g Some
    by (auto simp: event_adds_def adds_def gone_def calls_for_def)
qed

lemma handle_events_gone:
  "main_inv {#} None st \<Longrightarrow> events_answers_ok k sms (plugin_of script) events st \<Longrightarrow> gone i st \<Longrightarrow>
     gone i (handle_events k sms (plugin_of script) events st) \<and>
     calls_for i (handle_events k sms (plugin_of script) events st) = calls_for i st"
proof (induction events arbitrary: k st)
  case (Cons event events)
  then show ?case
    using handle_event_gone [OF Cons.prems(1) _ Cons.prems(3), of "sms k" script event]
      ph.handle_event_ok [OF Cons.prems(1), of "sms k" script event] by simp
qed simp

lemma gone_frame:
  "x_jobs u = x_jobs st \<Longrightarrow> x_nextJobId u = x_nextJobId st \<Longrightarrow> calls (x_log u) = calls (x_log st) \<Longrightarrow>
     gone i st \<Longrightarrow> gone i u \<and> calls_for i u = calls_for i st"
  by (simp add: gone_def calls_for_def)

lemma gone_load: "gone i st \<Longrightarrow> gone i (snd (sdk_on_load la sm n st)) \<and> calls_for i (snd (sdk_on_load la sm n st)) = calls_for i st"
proof -
  have ca: "x_jobs (detect_ca_bundle sm u) = x_jobs u \<and> x_nextJobId (detect_ca_bundle sm u) = x_nextJobId u \<and>
      calls (x_log (detect_ca_bundle sm u)) = calls (x_log u)" for u
    by (simp add: detect_ca_bundle_def Let_def)
  show "gone i st \<Longrightarrow> ?thesis"
    by (rule gone_frame)
      (simp_all add: sdk_on_load_def Let_def split_beta ca del: create_handle_types.simps split: option.split)
qed

lemma quiet_clear_jobs: "quiet st u \<Longrightarrow> quiet st (clear_jobs u)"
proof -
  assume u: "quiet st u"
  have "quiet st v \<Longrightarrow> quiet st (fold (\<lambda>(jobId, record) st. snd (release_record record st)) js v)" for js v
    by (induction js arbitrary: v) (simp_all add: split_beta quiet_rules)
  from this [OF u] show ?thesis unfolding clear_jobs_def by (rule quiet_frame) simp_all
qed

lemma quiet_remove_type: "quiet st u \<Longrightarrow> quiet st (remove_type removed ty u)"
proof -
  have "quiet st v \<Longrightarrow> quiet st (fold destroy_object hs v)" for hs v
    by (induction hs arbitrary: v) (simp_all add: quiet_rules)
  moreover assume "quiet st u"
  then have "quiet st (u\<lparr>x_types := removeAll ty (x_types u)\<rparr>)" by (rule quiet_frame) simp_all
  ultimately show ?thesis by (simp add: remove_type_def)
qed

lemma gone_unload: "gone i st \<Longrightarrow> gone i (sdk_on_unload removed st) \<and> calls_for i (sdk_on_unload removed st) = calls_for i st"
proof -
  assume g: "gone i st"
  let ?s2 = "set_main_queue (queue_set_enabled False (main_queue st)) (st\<lparr>x_hooked := False\<rparr>)"
  let ?s4 = "set_main_queue (snd (queue_drain (main_queue (on_thread tt_stop ?s2)))) (on_thread tt_stop ?s2)"
  have "gone i ?s4 \<and> calls_for i ?s4 = calls_for i st" by (rule gone_frame [OF _ _ _ g]) simp_all
  moreover have "quiet ?s4 (sdk_on_unload removed st)"
    unfolding sdk_on_unload_eq Let_def by (intro quiet_remove_type quiet_clear_jobs quiet_refl)
  ultimately show ?thesis using quiet_gone [of ?s4 "sdk_on_unload removed st" i] by presburger
qed

lemma gone_step:
  assumes "main_step script st u" and inv: "main_inv {#} None st" and g: "gone i st"
  shows "gone i u \<and> calls_for i u = calls_for i st"
  using assms(1)
proof (cases rule: main_step.cases)
  case (frame sms)
  let ?s = "set_main_queue (snd (queue_drain (main_queue st))) st"
  have "gone i ?s \<and> calls_for i ?s = calls_for i st" by (rule gone_frame [OF _ _ _ g]) simp_all
  then show ?thesis
    using frame handle_events_gone [OF main_inv_set_queue [OF inv]] g
    by (auto simp: on_game_frame_def frame_answers_ok_def split_beta)
next
  case (act action)
  then show ?thesis using quiet_gone [OF quiet_run_action [OF main_inv_next [OF inv]] g] by simp
next
  case (thread t)
  then show ?thesis using gone_frame [OF _ _ _ g, of u] by simp
qed (simp_all add: gone_load [OF g] gone_unload [OF g])

lemma gone_steps:
  "(main_step script)\<^sup>*\<^sup>* st u \<Longrightarrow> main_inv {#} None st \<Longrightarrow> gone i st \<Longrightarrow>
     gone i u \<and> calls_for i u = calls_for i st"
proof (induction rule: rtranclp_induct)
  case (step v w)
  then show ?case using gone_step [OF step.hyps(2) main_inv_steps [OF step.hyps(1) step.prems(1)]] by simp
qed simp

lemma drop_job_jobs:
  "\<forall>(i, r) \<in> set (x_jobs st). \<not> jr_dispatching r \<Longrightarrow> x_jobs (drop_job i st) = AList.delete i (x_jobs st)"
  by (auto simp: drop_job_def Let_def delete_absent dest: map_of_SomeD split: option.split)

lemma drop_job_cancels: "set (tt_cancelRequests (x_thread (drop_job i st))) = insert i (set (tt_cancelRequests (x_thread st)))"
  by (auto simp: drop_job_def Let_def tt_cancel_def split: option.split)

lemma drop_matching_effect:
  assumes "\<forall>(i, r) \<in> set (x_jobs st). \<not> jr_dispatching r" and "(i, r) \<in> set (x_jobs st)" and "P r"
  shows "map_of (x_jobs (drop_matching P st)) i = None \<and>
    i \<in> set (tt_cancelRequests (x_thread (drop_matching P st)))"
proof -
  let ?f = "\<lambda>(jobId, record) st. if \<not> P record then st else drop_job jobId st"
  have "(\<forall>(i, r) \<in> set (x_jobs v). \<not> jr_dispatching r) \<Longrightarrow>
      (i, r) \<in> set js \<or> map_of (x_jobs v) i = None \<and> i \<in> set (tt_cancelRequests (x_thread v)) \<Longrightarrow>
      map_of (x_jobs (fold ?f js v)) i = None \<and> i \<in> set (tt_cancelRequests (x_thread (fold ?f js v)))" for js v
  proof (induction js arbitrary: v)
    case (Cons j js)
    obtain k q where j: "j = (k, q)" by (cases j)
    have d: "x_jobs (drop_job k v) = AList.delete k (x_jobs v)" by (rule drop_job_jobs [OF Cons.prems(1)])
    have n: "\<forall>(i, r) \<in> set (x_jobs (?f j v)). \<not> jr_dispatching r"
      using Cons.prems(1) by (auto simp: j d AList.delete_eq)
    have "(i, r) \<in> set js \<or> map_of (x_jobs (?f j v)) i = None \<and> i \<in> set (tt_cancelRequests (x_thread (?f j v)))"
      using Cons.prems(2) assms(3) by (auto simp: j d delete_conv' drop_job_cancels)
    from Cons.IH [OF n this] show ?case by simp
  qed simp
  with assms(1,2) show ?thesis by (simp add: drop_matching_def)
qed

text \<open>The jobs an action drops: those of a client that is closed and those of a plugin that is unloaded.\<close>

fun drops :: "plugin_action \<Rightarrow> rest_state \<Rightarrow> job_record \<Rightarrow> bool" where
  "drops (ActUnloaded who) st r \<longleftrightarrow> jr_owner r = who"
| "drops (ActClose h) st r \<longleftrightarrow> Option.bind (map_of (x_objects st) h) as_client \<noteq> None \<and> jr_clientHandle r = h"
| "drops (ActNative name sm px p) st r \<longleftrightarrow> False"

text \<open>
  C31: Dropping is silent and final. When a client handle is closed or a plugin is unloaded, every job
  of that client or plugin leaves the table, the transfer thread is asked to cancel it, and in no
  later state of the session has any of its callbacks been called again, whatever events still
  arrive for it.
\<close>

theorem dropped_jobs_are_silent:
  assumes "session script st" and "map_of (x_jobs st) i = Some r" and "drops action st r"
    and "(main_step script)\<^sup>*\<^sup>* (run_action action st) u"
  shows "map_of (x_jobs u) i = None \<and> calls_for i u = calls_for i st \<and>
    i \<in> set (tt_cancelRequests (x_thread (run_action action st)))"
proof -
  have inv: "main_inv {#} None st" by (rule session_inv [OF assms(1)])
  then have j: "jobs_ok None st" by (simp add: main_inv_def)
  then have nd: "\<forall>(i, r) \<in> set (x_jobs st). \<not> jr_dispatching r" by (auto simp: jobs_ok_def)
  note r = map_of_SomeD [OF assms(2)]
  have drop: "map_of (x_jobs (run_action action st)) i = None \<and> i \<in> set (tt_cancelRequests (x_thread (run_action action st)))"
  proof (cases action)
    case (ActUnloaded who)
    with assms(3) show ?thesis using drop_matching_effect [OF nd r] by (simp add: on_plugin_unloaded_def)
  next
    case (ActClose h)
    with assms(3) obtain c where c: "map_of (x_objects st) h = Some (ObjClient c)" and h: "jr_clientHandle r = h"
      by (auto simp: bind_eq_Some_conv elim!: as_client.elims)
    have "drop_matching (\<lambda>record. jr_clientHandle record = h) (set_objects (AList.delete h (x_objects st)) st) =
        run_action action st"
      using ActClose c main_inv_client_handle [OF inv c]
      by (simp add: destroy_object_def drop_jobs_for_client_def)
    with drop_matching_effect [where P = "\<lambda>record. jr_clientHandle record = h" and i = i and r = r
        and st = "set_objects (AList.delete h (x_objects st)) st"] nd r h show ?thesis by simp
  qed (use assms(3) in simp)
  have q: "quiet st (run_action action st)" by (rule quiet_run_action [OF main_inv_next [OF inv]])
  have "i < x_nextJobId st" by (rule jobs_okD(3) [OF j assms(2)])
  then have g: "gone i (run_action action st)" using drop q by (simp add: gone_def quiet_def)
  have "calls_for i (run_action action st) = calls_for i st" using q by (simp add: quiet_def calls_for_def)
  with gone_steps [OF assms(4) main_inv_run_action [OF inv] g] drop show ?thesis by (simp add: gone_def)
qed

end
