(* ===== verification/Rest_Main_Facts.thy ===== *)
theory Rest_Main_Facts
  imports Rest_Main
begin

text \<open>
  A concrete session for the witnesses of \<open>Rest_Main\<close>, and what loading, unloading and cancelling
  guarantee.
\<close>

section \<open>A concrete session\<close>

definition demo_sm :: "handle \<Rightarrow> forward option \<Rightarrow> sourcemod" where
  "demo_sm h f =
     \<lparr>sm_access = \<lambda>_. True, sm_new_handle = h, sm_error = 3, sm_destroyed = \<lambda>_. True, sm_function = \<lambda>_. True,
      sm_new_forward = f, sm_function_count = \<lambda>_. 1, sm_game_path = \<lambda>s. s, sm_path = \<lambda>s. s,
      sm_path_exists = \<lambda>_. True, sm_getenv = \<lambda>_. None, sm_utf8 = \<lambda>_ s. s, sm_moved_from = \<lambda>spec. spec\<rparr>"

definition demo_px :: plugin_context where
  "demo_px = \<lparr>px_identity = 5, px_memory = \<lambda>a. if a = 100 then ''http://host'' else if a = 200 then ''/path'' else []\<rparr>"

text \<open>A plugin creates a client and a request with a headers callback, and sends it as job 1.\<close>

definition demo_actions :: "plugin_action list" where
  "demo_actions =
     [ActNative ''RESTClient.RESTClient'' (demo_sm 1 None) demo_px (\<lambda>_. 100),
      ActNative ''RESTClient.Request'' (demo_sm 2 None) demo_px (\<lambda>i. if i = 1 then 1 else if i = 2 then 0 else 200),
      ActNative ''RESTRequest.OnHeaders'' (demo_sm 3 (Some 10)) demo_px (\<lambda>i. if i = 1 then 2 else 7),
      ActNative ''RESTRequest.Send'' (demo_sm 3 (Some 11)) demo_px (\<lambda>i. if i = 1 then 2 else 9)]"

definition demo_state :: rest_state where
  "demo_state = fold run_action demo_actions (rest_start Map.empty)"

text \<open>A plugin that closes its client in every callback.\<close>

definition demo_script :: "plugin_call \<Rightarrow> rest_state \<Rightarrow> plugin_action list \<times> int" where
  "demo_script call st = ([ActClose 1], 0)"

lemma session_actions: "session script st \<Longrightarrow> session script (fold run_action actions st)"
  by (induction actions arbitrary: st) (auto intro: session.step main_step.act)

lemma demo_session: "session demo_script demo_state"
  unfolding demo_state_def by (intro session_actions session.start)

lemma demo_state_jobs:
  "map fst (x_jobs demo_state) = [1]" "jr_headers (snd (hd (x_jobs demo_state))) = Some 10"
  "x_log demo_state = [Fx_Create 10 sig_headers, Fx_Create 11 sig_completed]"
  by code_simp+

definition demo_end :: rest_state where
  "demo_end = run_action (ActClose 1) demo_state"

lemma demo_end_session: "session demo_script demo_end"
  unfolding demo_end_def by (rule session.step [OF demo_session main_step.act])

lemma demo_end_empty:
  "x_jobs demo_end = []" "list_all (\<lambda>(h, obj). as_request obj = None) (x_objects demo_end)"
  "list_ex (\<lambda>fx. fx = Fx_Create 11 sig_completed) (x_log demo_end)"
  by code_simp+

lemma callbacks_have_one_owner_witness: "Fx_Release 11 \<in> set (x_log demo_end)"
  using callbacks_have_one_owner [OF demo_end_session] demo_end_empty
  by (auto simp: list_all_iff list_ex_iff)

definition demo_event :: transfer_event where
  "demo_event = transfer_event_default\<lparr>ev_kind := Kind_Headers, ev_jobId := 1\<rparr>"

lemma demo_event_answers: "event_answers_ok (demo_sm 3 None) demo_state"
  by code_simp

lemma demo_record:
  "map_option (\<lambda>r. expected_calls (demo_sm 3 None) r demo_event) (map_of (x_jobs demo_state) 1) =
     Some [(1, CallHeaders 10 1 3 9)]"
  "calls (x_log demo_state) = []" "ev_jobId demo_event = 1"
  by code_simp+

lemma event_reaches_its_callback_witness:
  "calls (x_log (handle_event (demo_sm 3 None) (plugin_of demo_script) demo_event demo_state)) =
     [(1, CallHeaders 10 1 3 9)]"
  using event_reaches_its_callback [OF demo_session demo_event_answers, of demo_event] demo_record
  by (auto split: option.splits)

lemma demo_drops: "map_option (drops (ActClose 1) demo_state) (map_of (x_jobs demo_state) 1) = Some True"
  by code_simp

lemma dropped_jobs_are_silent_witness: "map_of (x_jobs demo_end) 1 = None \<and> calls_for 1 demo_end = []"
proof -
  obtain r where r: "map_of (x_jobs demo_state) 1 = Some r" "drops (ActClose 1) demo_state r"
    using demo_drops by auto
  have "calls_for 1 demo_state = []" using demo_record(2) by (simp add: calls_for_def)
  then show ?thesis
    using dropped_jobs_are_silent [OF demo_session r(1,2) rtranclp.rtrancl_refl] by (simp add: demo_end_def)
qed

section \<open>Unloading\<close>

fun type_of_object :: "rest_object \<Rightarrow> handle_type" where
  "type_of_object (ObjClient client) = ClientType"
| "type_of_object (ObjRequest request) = RequestType"
| "type_of_object (ObjResponse response) = ResponseType"

lemma destroy_object_idle:
  assumes "x_jobs st = []"
  shows "x_jobs (destroy_object h st) = [] \<and> x_objects (destroy_object h st) = AList.delete h (x_objects st) \<and>
    x_thread (destroy_object h st) = x_thread st \<and> x_hooked (destroy_object h st) = x_hooked st"
proof -
  have hk: "x_hooked (snd (release_forward f u)) = x_hooked u" for f u
    by (cases f) (simp_all add: release_forward_def)
  show ?thesis
  proof (cases "map_of (x_objects st) h")
    case None
    with assms show ?thesis by (simp add: destroy_object_def delete_absent)
  next
    case (Some obj)
    with assms show ?thesis
      by (cases obj) (simp_all add: destroy_object_def drop_jobs_for_client_def drop_matching_def Let_def split_beta hk)
  qed
qed

lemma destroy_objects_idle:
  "x_jobs st = [] \<Longrightarrow>
     x_jobs (fold destroy_object hs st) = [] \<and>
     x_objects (fold destroy_object hs st) = filter (\<lambda>(h, obj). h \<notin> set hs) (x_objects st) \<and>
     x_thread (fold destroy_object hs st) = x_thread st \<and> x_hooked (fold destroy_object hs st) = x_hooked st"
proof (induction hs arbitrary: st)
  case (Cons h hs)
  then show ?case
    using destroy_object_idle [OF Cons.prems, of h] by (auto simp: AList.delete_eq intro: filter_cong)
qed simp

lemma remove_type_idle:
  "x_jobs st = [] \<Longrightarrow>
     x_jobs (remove_type removed ty st) = [] \<and>
     x_objects (remove_type removed ty st) = filter (\<lambda>(h, obj). h \<notin> set (removed ty)) (x_objects st) \<and>
     x_thread (remove_type removed ty st) = x_thread st \<and> x_hooked (remove_type removed ty st) = x_hooked st"
  using destroy_objects_idle [of "st\<lparr>x_types := removeAll ty (x_types st)\<rparr>" "removed ty"] by (simp add: remove_type_def)

lemma clear_jobs_select:
  "x_jobs (clear_jobs st) = []" "x_objects (clear_jobs st) = x_objects st"
  "x_thread (clear_jobs st) = x_thread st" "x_hooked (clear_jobs st) = x_hooked st"
proof -
  have hk: "x_hooked (snd (release_record r u)) = x_hooked u" for r u
    unfolding release_record_def Let_def split_beta snd_conv
    by (cases "jr_completed r"; cases "jr_headers r"; cases "jr_data r"; cases "jr_progress r")
      (simp_all add: release_forward_def)
  have "x_objects (fold f js u) = x_objects u \<and> x_thread (fold f js u) = x_thread u \<and> x_hooked (fold f js u) = x_hooked u"
    if "f = (\<lambda>(jobId :: int, record) st. snd (release_record record st))" for f js u
    unfolding that by (induction js arbitrary: u) (simp_all add: split_beta hk)
  from this [OF refl] show "x_jobs (clear_jobs st) = []" "x_objects (clear_jobs st) = x_objects st"
    "x_thread (clear_jobs st) = x_thread st" "x_hooked (clear_jobs st) = x_hooked st"
    by (simp_all add: clear_jobs_def)
qed

lemma fold_post_enabled: "mq_enabled (fold queue_post es q) = mq_enabled q"
  by (induction es arbitrary: q) simp_all

lemma cancel_enabled: "mq_enabled (io_queue (cancel s)) = mq_enabled (io_queue s)"
  using posts_only_cancel [of s] by (auto simp: posts_only_def fold_post_enabled)

lemma tt_stop_enabled: "mq_enabled (snd (tt_world (tt_stop t))) = mq_enabled (snd (tt_world t))"
proof -
  have one: "mq_enabled (snd (tt_world (on_active cancel i u))) = mq_enabled (snd (tt_world u))" for i u
    by (simp add: on_active_def call_at_def call_job_def Let_def split_beta cancel_enabled)
  have "mq_enabled (snd (tt_world (fold (on_active cancel) is u))) = mq_enabled (snd (tt_world u))" for "is" u
    by (induction "is" arbitrary: u) (simp_all add: one)
  then show ?thesis by (simp add: tt_stop_def Let_def)
qed

lemma on_active_running: "tt_running (fold (on_active f) is t) = tt_running t"
  by (induction "is" arbitrary: t) simp_all

lemma tt_stop_running: "\<not> tt_running (tt_stop t)"
  by (simp add: tt_stop_def Let_def on_active_running)

text \<open>
  C32: Unloading leaves nothing behind. Whatever state the session is in, after \<open>SDK_OnUnload\<close> the
  transfer thread does not run, the event queue is empty and closed, no frame hook is installed,
  no job and no object is left, and every callback that was ever created has been released, provided
  the handle system destroys the handles of the types that are removed.
\<close>

theorem unload_leaves_nothing:
  assumes "session script st" and "\<forall>(h, obj) \<in> set (x_objects st). h \<in> set (removed (type_of_object obj))"
  shows "x_jobs (sdk_on_unload removed st) = [] \<and> x_objects (sdk_on_unload removed st) = [] \<and>
    (\<forall>f sig. Fx_Create f sig \<in> set (x_log (sdk_on_unload removed st)) \<longrightarrow>
       Fx_Release f \<in> set (x_log (sdk_on_unload removed st))) \<and>
    mq_events (main_queue (sdk_on_unload removed st)) = [] \<and> \<not> mq_enabled (main_queue (sdk_on_unload removed st)) \<and>
    \<not> tt_running (x_thread (sdk_on_unload removed st)) \<and> \<not> x_hooked (sdk_on_unload removed st)"
proof -
  let ?u = "sdk_on_unload removed st"
  let ?s2 = "set_main_queue (queue_set_enabled False (main_queue st)) (st\<lparr>x_hooked := False\<rparr>)"
  let ?s4 = "set_main_queue (snd (queue_drain (main_queue (on_thread tt_stop ?s2)))) (on_thread tt_stop ?s2)"
  have u: "x_jobs ?u = []" "x_thread ?u = x_thread ?s4" "x_hooked ?u = x_hooked ?s4"
    "x_objects ?u = filter (\<lambda>(h, obj). h \<notin> set (removed ClientType)) (filter (\<lambda>(h, obj). h \<notin> set (removed RequestType))
       (filter (\<lambda>(h, obj). h \<notin> set (removed ResponseType)) (x_objects st)))"
    by (simp_all add: sdk_on_unload_eq Let_def remove_type_idle clear_jobs_select)
  have o: "x_objects ?u = []"
  proof -
    have "\<exists>ty. h \<in> set (removed ty)" if "(h, obj) \<in> set (x_objects st)" for h obj using assms(2) that by blast
    then have "h \<in> set (removed ClientType) \<union> set (removed RequestType) \<union> set (removed ResponseType)"
      if "(h, obj) \<in> set (x_objects st)" for h obj using that by (metis UnI1 UnI2 handle_type.exhaust)
    then show ?thesis unfolding u(4) filter_filter by (auto simp: filter_empty_conv)
  qed
  have "session script ?u" by (rule session.step [OF assms(1) main_step.unload])
  then have "\<forall>f sig. Fx_Create f sig \<in> set (x_log ?u) \<longrightarrow> Fx_Release f \<in> set (x_log ?u)"
    using created_are_released [OF session_inv] u(1) o by simp
  moreover have "main_queue ?u = main_queue ?s4" by (simp add: main_queue_def u(2))
  ultimately show ?thesis
    using u o tt_stop_enabled [of "x_thread ?s2"] tt_stop_running [of "x_thread ?s2"]
    by (simp add: queue_drain_def main_queue_def set_main_queue_def queue_set_enabled_def)
qed

lemma unload_leaves_nothing_witness: "Fx_Release 11 \<in> set (x_log (sdk_on_unload (\<lambda>_. [1, 2]) demo_state))"
proof -
  have "list_all (\<lambda>(h, obj). h \<in> set [1, 2]) (x_objects demo_state)" by code_simp
  then have h: "\<forall>(h, obj) \<in> set (x_objects demo_state). h \<in> set ((\<lambda>_. [1, 2]) (type_of_object obj))"
    by (auto simp: list_all_iff)
  have "list_ex (\<lambda>fx. fx = Fx_Create 11 sig_completed) (x_log (sdk_on_unload (\<lambda>_. [1, 2]) demo_state))" by code_simp
  then show ?thesis using unload_leaves_nothing [OF demo_session h] by (auto simp: list_ex_iff)
qed

section \<open>Loading\<close>

lemma detect_ca_select:
  "x_thread (detect_ca_bundle sm st) = x_thread st" "x_hooked (detect_ca_bundle sm st) = x_hooked st"
  "x_types (detect_ca_bundle sm st) = x_types st"
  by (simp_all add: detect_ca_bundle_def Let_def)

lemma safe_str_length: "length (safe_str n s) \<le> n - 1"
  by (simp add: safe_str_def)

text \<open>
  Loading either completes or reports its first failure. \<open>SDK_OnLoad\<close> succeeds exactly when libcurl,
  the three handle types and the multi handle could be made; then the transfer thread runs, the hook
  and the types are installed and the CA bundle is the SourceMod one if it exists, else the system's
  if that exists. When it fails, no thread runs and no hook is installed that did not before, and
  the message fits the caller's buffer.
\<close>

theorem load_reports_first_failure:
  "(fst (sdk_on_load la sm n st) = None \<longleftrightarrow>
      la_curl_init la \<and> la_create_type la ClientType \<and> la_create_type la RequestType \<and>
      la_create_type la ResponseType \<and> la_multi_init la) \<and>
   (case fst (sdk_on_load la sm n st) of
      None \<Rightarrow>
        tt_running (x_thread (snd (sdk_on_load la sm n st))) \<and> x_hooked (snd (sdk_on_load la sm n st)) \<and>
        x_types (snd (sdk_on_load la sm n st)) = x_types st @ [ClientType, RequestType, ResponseType] \<and>
        x_caBundlePath (snd (sdk_on_load la sm n st)) =
          (if sm_path_exists sm (sm_path sm ''configs/rest/ca-bundle.crt'') then sm_path sm ''configs/rest/ca-bundle.crt''
           else if sm_path_exists sm ''/etc/ssl/certs/ca-certificates.crt'' then ''/etc/ssl/certs/ca-certificates.crt''
           else x_caBundlePath st)
    | Some error \<Rightarrow>
        tt_running (x_thread (snd (sdk_on_load la sm n st))) = tt_running (x_thread st) \<and>
        x_hooked (snd (sdk_on_load la sm n st)) = x_hooked st \<and> length error \<le> n - 1)"
proof (cases "la_curl_init la \<and> la_create_type la ClientType \<and> la_create_type la RequestType \<and>
      la_create_type la ResponseType")
  case True
  then show ?thesis
    by (auto simp: sdk_on_load_def Let_def tt_start_def detect_ca_select safe_str_length [unfolded One_nat_def])
      (simp_all add: detect_ca_bundle_def kSystemCaBundle_def Let_def)
next
  case False
  then show ?thesis by (auto simp: sdk_on_load_def safe_str_length [unfolded One_nat_def])
qed

section \<open>Cancelling\<close>

text \<open>
  C33: A plugin cancels its own jobs only. \<open>Cancel\<close> asks the transfer thread to cancel the job exactly
  when it is in the table and belongs to the calling plugin, and says so; \<open>CancelAll\<close> asks it for
  exactly the jobs that this plugin sent with this client and returns their number. Neither changes
  anything else.
\<close>

theorem cancel_reaches_own_jobs_only:
  assumes "read_client sm (p 1) st = Inr client"
  shows "native_client_cancel sm px p st =
      (if \<exists>r. map_of (x_jobs st) (p 2) = Some r \<and> jr_owner r = px_identity px
       then returns 1 (on_thread (\<lambda>t. t\<lparr>tt_cancelRequests := tt_cancelRequests t @ [p 2]\<rparr>) st)
       else returns 0 st) \<and>
    native_client_cancel_all sm px p st =
      (let own = filter (\<lambda>(i, r). jr_clientHandle r = co_handle client \<and> jr_owner r = px_identity px) (x_jobs st)
       in returns (int (length own))
            (on_thread (\<lambda>t. t\<lparr>tt_cancelRequests := tt_cancelRequests t @ map fst own\<rparr>) st))"
proof -
  let ?own = "\<lambda>(i, r). jr_clientHandle r = co_handle client \<and> jr_owner r = px_identity px"
  let ?f = "\<lambda>(jobId, record) (cancelled, st).
     if jr_clientHandle record \<noteq> co_handle client \<or> jr_owner record \<noteq> px_identity px then (cancelled, st)
     else (cancelled + 1, on_thread (tt_cancel jobId) st)"
  have "fold ?f js (n, u) = (n + int (length (filter ?own js)),
      on_thread (\<lambda>t. t\<lparr>tt_cancelRequests := tt_cancelRequests t @ map fst (filter ?own js)\<rparr>) u)"
    for js u and n :: int
  proof (induction js arbitrary: n u)
    case Nil
    then show ?case by (simp add: on_thread_def)
  next
    case (Cons j js)
    obtain i r where j: "j = (i, r)" by (cases j)
    have "on_thread (\<lambda>t. t\<lparr>tt_cancelRequests := tt_cancelRequests t @ xs\<rparr>) (on_thread (tt_cancel i) u) =
        on_thread (\<lambda>t. t\<lparr>tt_cancelRequests := tt_cancelRequests t @ i # xs\<rparr>) u" for xs
      by (simp add: on_thread_def tt_cancel_def)
    then show ?case using Cons.IH by (simp add: j)
  qed
  note all = this [of "x_jobs st" 0 st, unfolded add_0]
  have "native_client_cancel_all sm px p st =
      (let own = filter ?own (x_jobs st)
       in returns (int (length own))
            (on_thread (\<lambda>t. t\<lparr>tt_cancelRequests := tt_cancelRequests t @ map fst own\<rparr>) st))"
    unfolding native_client_cancel_all_def cancel_jobs_for_client_def assms sum.case all Let_def prod.case ..
  moreover have "native_client_cancel sm px p st =
      (if \<exists>r. map_of (x_jobs st) (p 2) = Some r \<and> jr_owner r = px_identity px
       then returns 1 (on_thread (\<lambda>t. t\<lparr>tt_cancelRequests := tt_cancelRequests t @ [p 2]\<rparr>) st)
       else returns 0 st)"
    unfolding native_client_cancel_def assms sum.case
    by (auto simp: cancel_job_def on_thread_def tt_cancel_def split: option.split)
  ultimately show ?thesis by blast
qed

lemma demo_client: "\<exists>client. read_client (demo_sm 3 None) 1 demo_state = Inr client \<and> co_handle client = 1"
proof -
  have "(case read_client (demo_sm 3 None) 1 demo_state of Inl e \<Rightarrow> False | Inr client \<Rightarrow> co_handle client = 1)"
    by code_simp
  then show ?thesis by (auto split: sum.splits)
qed

lemma cancel_reaches_own_jobs_only_witness:
  "fst (native_client_cancel (demo_sm 3 None) (demo_px\<lparr>px_identity := 6\<rparr>) (\<lambda>_. 1) demo_state) = Inr (0, [])"
proof -
  obtain client where c: "read_client (demo_sm 3 None) ((\<lambda>_. 1) 1) demo_state = Inr client" using demo_client by auto
  have "map_option jr_owner (map_of (x_jobs demo_state) 1) = Some 5" by code_simp
  then show ?thesis
    using cancel_reaches_own_jobs_only [OF c, of "demo_px\<lparr>px_identity := 6\<rparr>"] by auto
qed

end
