(* ===== verification/Rest_Native_Facts.thy ===== *)
theory Rest_Native_Facts
  imports Rest_Main_Facts
begin

text \<open>
  What the natives guarantee to a plugin: an error changes nothing, a request stays well-formed, what
  is set can be read back, form fields and bodies survive their encoding, and sending a request
  makes exactly one job of it.
\<close>

section \<open>Errors\<close>

lemma create_callback_fails: "fst (create_callback_forward sig sm func st) = None \<Longrightarrow> snd (create_callback_forward sig sm func st) = st"
  by (cases rule: create_callback_cases [of sig sm func st]) simp_all

lemma create_handle_fails: "fst (create_handle sm obj st) = BAD_HANDLE \<Longrightarrow> snd (create_handle sm obj st) = st"
  by (simp add: create_handle_def split: if_splits)

lemma config_errors:
  "isl (fst (native_config_get ty fld sm px p st)) \<Longrightarrow> snd (native_config_get ty fld sm px p st) = st"
  "isl (fst (native_config_set ty fld sm px p st)) \<Longrightarrow> snd (native_config_set ty fld sm px p st) = st"
  "isl (fst (native_set_header ty sm px p st)) \<Longrightarrow> snd (native_set_header ty sm px p st) = st"
  "isl (fst (native_remove_header ty sm px p st)) \<Longrightarrow> snd (native_remove_header ty sm px p st) = st"
  "isl (fst (native_set_basic_auth ty sm px p st)) \<Longrightarrow> snd (native_set_basic_auth ty sm px p st) = st"
  "isl (fst (native_set_bearer_token ty sm px p st)) \<Longrightarrow> snd (native_set_bearer_token ty sm px p st) = st"
  "isl (fst (native_set_user_agent ty sm px p st)) \<Longrightarrow> snd (native_set_user_agent ty sm px p st) = st"
  by (auto simp: config_natives Let_def split: sum.splits if_splits)

lemma client_errors:
  "isl (fst (native_client_create sm px p st)) \<Longrightarrow> snd (native_client_create sm px p st) = st"
  "isl (fst (native_client_set_base_url sm px p st)) \<Longrightarrow> snd (native_client_set_base_url sm px p st) = st"
  "isl (fst (native_client_request sm px p st)) \<Longrightarrow> snd (native_client_request sm px p st) = st"
  "isl (fst (native_client_cancel sm px p st)) \<Longrightarrow> snd (native_client_cancel sm px p st) = st"
  "isl (fst (native_client_cancel_all sm px p st)) \<Longrightarrow> snd (native_client_cancel_all sm px p st) = st"
  by (auto simp: native_client_create_def native_client_set_base_url_def native_client_request_def
      native_client_cancel_def native_client_cancel_all_def Let_def split_beta create_handle_fails
      split: sum.splits if_splits)

lemma request_errors:
  "isl (fst (native_request_set_query sm px p st)) \<Longrightarrow> snd (native_request_set_query sm px p st) = st"
  "isl (fst (native_request_set_body sm px p st)) \<Longrightarrow> snd (native_request_set_body sm px p st) = st"
  "isl (fst (native_request_set_body_file sm px p st)) \<Longrightarrow> snd (native_request_set_body_file sm px p st) = st"
  "isl (fst (native_request_add_form_field sm px p st)) \<Longrightarrow> snd (native_request_add_form_field sm px p st) = st"
  "isl (fst (native_request_add_form_file sm px p st)) \<Longrightarrow> snd (native_request_add_form_file sm px p st) = st"
  "isl (fst (native_request_set_output_file sm px p st)) \<Longrightarrow> snd (native_request_set_output_file sm px p st) = st"
  by (auto simp: request_natives Let_def split: sum.splits)

lemma callback_errors:
  "isl (fst (native_request_on_headers sm px p st)) \<Longrightarrow> snd (native_request_on_headers sm px p st) = st"
  "isl (fst (native_request_on_data sm px p st)) \<Longrightarrow> snd (native_request_on_data sm px p st) = st"
  "isl (fst (native_request_on_progress sm px p st)) \<Longrightarrow> snd (native_request_on_progress sm px p st) = st"
  "isl (fst (native_request_send sm px p st)) \<Longrightarrow> snd (native_request_send sm px p st) = st"
  by (auto simp: native_request_on_headers_def native_request_on_data_def native_request_on_progress_def
      native_request_send_eq create_forward_defs Let_def split_beta
      create_callback_fails split: sum.splits if_splits option.splits)

lemmas response_native_defs = native_response_get_status_def native_response_get_http_status_def
  native_response_get_content_length_def native_response_get_body_length_def
  native_response_get_elapsed_ms_def native_response_get_header_count_def

text \<open>
  C34: A native that throws changes nothing. Whatever native of the table is called, with whatever
  arguments, in whatever state: if it throws, objects, jobs, callbacks, the transfer thread and the
  log are as before. In particular a callback that was created is never leaked by a later error.
\<close>

theorem native_errors_change_nothing:
  assumes "(name, native) \<in> set g_natives" and "fst (native sm px p st) = Inl e"
  shows "snd (native sm px p st) = st"
proof -
  have "list_all (\<lambda>(n, f). isl (fst (f sm px p st)) \<longrightarrow> snd (f sm px p st) = st) g_natives"
    unfolding g_natives_def
    by (simp add: config_errors client_errors request_errors callback_errors response_native_defs response_natives_pure)
  with assms show ?thesis by (auto simp: list_all_iff)
qed

lemma native_errors_change_nothing_witness:
  "snd (native_set_header ClientType (demo_sm 3 None) demo_px (\<lambda>_. 1) demo_state) = demo_state"
proof -
  have m: "(''RESTClient.SetHeader'', native_set_header ClientType) \<in> set g_natives"
    unfolding g_natives_def by simp
  have "fst (native_set_header ClientType (demo_sm 3 None) demo_px (\<lambda>_. 1) demo_state) = Inl HeaderNameEmpty"
    by code_simp
  from native_errors_change_nothing [OF m this] show ?thesis .
qed

section \<open>Settings\<close>

lemma read_after_write:
  "read_request sm h st = Inr r \<Longrightarrow> read_request sm h (write_object h (ObjRequest r') st) = Inr r'"
  by (auto simp: read_request_def read_object_def write_object_def update_conv' split: option.splits if_splits)

lemma read_config_put:
  assumes "read_config ty sm h st = Inr config" and "ty \<noteq> ResponseType"
  shows "read_config ty sm h (write_config h config' st) = Inr config'"
proof (cases ty)
  case ClientType
  then obtain c where c: "read_client sm h st = Inr c" using assms(1) by (cases "read_client sm h st") (auto simp: read_config_def)
  then have "sm_access sm h" by (auto simp: read_client_def read_object_def split: if_splits)
  with ClientType read_clientD [OF c] show ?thesis
    by (simp add: read_config_def write_config_def read_client_def read_object_def write_object_def update_conv')
next
  case RequestType
  then obtain r where r: "read_request sm h st = Inr r" using assms(1) by (cases "read_request sm h st") (auto simp: read_config_def)
  then have "sm_access sm h" by (auto simp: read_request_def read_object_def split: if_splits)
  with RequestType read_requestD [OF r] show ?thesis
    by (simp add: read_config_def write_config_def read_request_def read_object_def write_object_def update_conv')
qed (use assms in simp)

lemma read_config_other:
  assumes "g \<noteq> h"
  shows "read_config ty sm g (write_config h config' st) = read_config ty sm g st"
  using assms by (simp add: read_config_def write_config_def read_client_def read_request_def read_object_def
      write_object_def update_conv' split: option.split)

fun is_flag :: "config_field \<Rightarrow> bool" where
  "is_flag Field_followRedirects = True"
| "is_flag Field_verifyCertificate = True"
| "is_flag _ = False"

lemma get_set_field:
  "get_field f' (set_field f v config) =
     (if f' \<noteq> f then get_field f' config else if is_flag f then of_bool (v \<noteq> 0)
      else if f = Field_maxBodySize then to_i64 v else to_i32 v)"
  by (cases f; cases f') simp_all

lemma cell_is_i64: "is_i32 v \<Longrightarrow> is_i64 v"
  by (simp add: is_i32_def is_i64_def)

text \<open>
  C39: Settings read back. After a plugin sets a property of a client or a request to a cell, the
  getter of that property on that handle returns the cell (0 or 1 for the two flags), and every
  getter of another property or on another handle returns what it returned before.
\<close>

theorem settings_read_back:
  assumes "read_config ty sm (p 1) st = Inr config" and "ty \<noteq> ResponseType" and "is_i32 (p 2)"
  shows "fst (native_config_get ty f sm px p (snd (native_config_set ty f sm px p st))) =
      Inr (if is_flag f then of_bool (p 2 \<noteq> 0) else p 2, []) \<and>
    (f' \<noteq> f \<or> q 1 \<noteq> p 1 \<longrightarrow>
       fst (native_config_get ty f' sm px q (snd (native_config_set ty f sm px p st))) =
       fst (native_config_get ty f' sm px q st))"
proof -
  let ?u = "write_config (p 1) (set_field f (p 2) config) st"
  have u: "snd (native_config_set ty f sm px p st) = ?u" unfolding native_config_set_def assms(1) by simp
  note r = read_config_put [OF assms(1,2)]
  have b: "is_i32 (of_bool (p 2 \<noteq> 0))" by (simp add: is_i32_def)
  have "fst (native_config_get ty f sm px p ?u) = Inr (if is_flag f then of_bool (p 2 \<noteq> 0) else p 2, [])"
    unfolding native_config_get_def r
    using assms(3) b cell_is_i64 by (simp add: get_set_field clamp_to_cell_id)
  moreover have "fst (native_config_get ty f' sm px q ?u) = fst (native_config_get ty f' sm px q st)"
    if "f' \<noteq> f \<or> q 1 \<noteq> p 1"
  proof (cases "q 1 = p 1")
    case True
    with that show ?thesis unfolding native_config_get_def True r assms(1) by (simp add: get_set_field)
  next
    case False
    then show ?thesis unfolding native_config_get_def read_config_other [OF False] by (cases "read_config ty sm (q 1) st") simp_all
  qed
  ultimately show ?thesis unfolding u by blast
qed

lemma settings_read_back_witness:
  "fst (native_config_get ClientType Field_timeout (demo_sm 3 None) demo_px (\<lambda>i. if i = 1 then 1 else 30)
     (snd (native_config_set ClientType Field_timeout (demo_sm 3 None) demo_px (\<lambda>i. if i = 1 then 1 else 30) demo_state))) =
   Inr (30, [])"
proof -
  let ?p = "\<lambda>i :: nat. if i = 1 then 1 else 30 :: int"
  have "isl (read_config ClientType (demo_sm 3 None) 1 demo_state) = False" by code_simp
  then obtain config where c: "read_config ClientType (demo_sm 3 None) (?p 1) demo_state = Inr config"
    by (cases "read_config ClientType (demo_sm 3 None) 1 demo_state") auto
  show ?thesis
    using settings_read_back [where p = ?p and ty = ClientType and sm = "demo_sm 3 None" and st = demo_state
        and f = Field_timeout and px = demo_px, OF c] by (simp add: is_i32_def)
qed

section \<open>Form fields and queries\<close>

text \<open>What a server does with a form body or a query: split it into pairs and decode their parts.\<close>

fun split_on :: "char \<Rightarrow> string \<Rightarrow> string list" where
  "split_on c [] = [[]]"
| "split_on c (x # xs) =
     (if x = c then [] # split_on c xs
      else case split_on c xs of [] \<Rightarrow> [[x]] | y # ys \<Rightarrow> (x # y) # ys)"

definition parse_pair :: "string \<Rightarrow> (string \<times> string) option" where
  "parse_pair s =
     (case (uri_decode (takeWhile (\<lambda>c. c \<noteq> CHR ''='') s), uri_decode (drop 1 (dropWhile (\<lambda>c. c \<noteq> CHR ''='') s))) of
        (Some n, Some v) \<Rightarrow> Some (n, v)
      | _ \<Rightarrow> None)"

definition parse_pairs :: "string \<Rightarrow> (string \<times> string) list option" where
  "parse_pairs s = (if s = [] then Some [] else those (map parse_pair (split_on (CHR ''&'') s)))"

lemma split_on_nonempty: "split_on c s \<noteq> []"
  by (induction s) (auto split: list.split)

lemma split_on_plain: "c \<notin> set s \<Longrightarrow> split_on c s = [s]"
  by (induction s) auto

lemma split_on_append: "split_on c (s @ c # t) = split_on c s @ split_on c t"
proof (induction s)
  case (Cons x s)
  then show ?case using split_on_nonempty [of c s] by (auto split: list.split)
qed simp

definition pair_text :: "string \<Rightarrow> string \<Rightarrow> string" where
  "pair_text n v = uri_encode n @ ''='' @ uri_encode v"

lemma plain_encode: "CHR ''&'' \<notin> set (uri_encode s)" "CHR ''='' \<notin> set (uri_encode s)"
  using encode_no_separator [of s] by (simp_all only: disjoint_iff insert_iff) metis+

lemma pair_text_facts: "pair_text n v \<noteq> []" "split_on (CHR ''&'') (pair_text n v) = [pair_text n v]"
  "parse_pair (pair_text n v) = Some (n, v)"
proof -
  show "pair_text n v \<noteq> []" by (simp add: pair_text_def)
  show "split_on (CHR ''&'') (pair_text n v) = [pair_text n v]"
    using plain_encode by (intro split_on_plain) (simp add: pair_text_def)
  have "\<forall>c \<in> set (uri_encode n). c \<noteq> CHR ''=''" using plain_encode(2) by metis
  then show "parse_pair (pair_text n v) = Some (n, v)"
    by (simp add: parse_pair_def pair_text_def takeWhile_append2 dropWhile_append2 uri_decode_encode)
qed

lemma those_append: "those (xs @ ys) = (case those xs of None \<Rightarrow> None | Some as \<Rightarrow> map_option ((@) as) (those ys))"
  by (cases "those ys"; induction xs) (auto split: option.split)

lemma parse_pairs_snoc:
  assumes "parse_pairs s = Some ps"
  shows "parse_pairs ((if s \<noteq> [] then s @ ''&'' else s) @ pair_text n v) = Some (ps @ [(n, v)])"
proof (cases "s = []")
  case True
  with assms show ?thesis by (simp add: parse_pairs_def pair_text_facts)
next
  case False
  then have "those (map parse_pair (split_on (CHR ''&'') s)) = Some ps" using assms by (simp add: parse_pairs_def)
  then show ?thesis using False
    by (simp add: parse_pairs_def split_on_append pair_text_facts those_append)
qed

lemma parse_form_from:
  "parse_pairs body = Some ps \<Longrightarrow>
     parse_pairs (build_form_body_from body fs) = Some (ps @ map (\<lambda>f. (fld_name f, fld_value f)) fs)"
proof (induction fs arbitrary: body ps)
  case (Cons f fs)
  from Cons.IH [OF parse_pairs_snoc [OF Cons.prems, of "fld_name f" "fld_value f"]]
  show ?case by (simp add: Let_def pair_text_def)
qed simp

text \<open>
  C37: Form fields and query parameters arrive as they were set. Reading the body that is built from
  a list of form fields gives back their names and values, all of them and in order, whatever bytes
  they contain; and \<open>SetQuery\<close> on a request adds exactly one pair at the end of what its query reads
  as.
\<close>

theorem fields_read_back:
  assumes "read_request sm (p 1) st = Inr r" and "parse_pairs (spec_query (ro_spec r)) = Some ps"
  shows "parse_pairs (build_form_body formFields) = Some (map (\<lambda>f. (fld_name f, fld_value f)) formFields) \<and>
    map_sum id (\<lambda>r. parse_pairs (spec_query (ro_spec r)))
        (read_request sm (p 1) (snd (native_request_set_query sm px p st))) =
      Inr (Some (ps @ [(read_string px (p 2), read_string px (p 3))]))"
proof -
  have "parse_pairs (build_form_body formFields) = Some (map (\<lambda>f. (fld_name f, fld_value f)) formFields)"
    using parse_form_from [of "[]" "[]" formFields] by (simp add: build_form_body_def parse_pairs_def)
  moreover have "map_sum id (\<lambda>r. parse_pairs (spec_query (ro_spec r)))
        (read_request sm (p 1) (snd (native_request_set_query sm px p st))) =
      Inr (Some (ps @ [(read_string px (p 2), read_string px (p 3))]))"
    unfolding native_request_set_query_def assms(1) sum.case Let_def snd_conv read_after_write [OF assms(1)]
    using parse_pairs_snoc [OF assms(2), of "read_string px (p 2)" "read_string px (p 3)"]
    by (auto simp: pair_text_def)
  ultimately show ?thesis by blast
qed

text \<open>The same session before the request is sent.\<close>

definition demo_draft :: rest_state where
  "demo_draft = fold run_action (take 3 demo_actions) (rest_start Map.empty)"

definition demo_request :: request_object where
  "demo_request = (case read_request (demo_sm 3 None) 2 demo_draft of Inr r \<Rightarrow> r | Inl e \<Rightarrow> request_object_default)"

lemma demo_draft_request: "read_request (demo_sm 3 f) 2 demo_draft = Inr demo_request"
proof -
  have "isl (read_request (demo_sm 3 None) 2 demo_draft) = False" by code_simp
  moreover have "read_request (demo_sm 3 f) 2 demo_draft = read_request (demo_sm 3 None) 2 demo_draft"
    by (simp add: read_request_def read_object_def demo_sm_def split: option.split)
  ultimately show ?thesis unfolding demo_request_def by (cases "read_request (demo_sm 3 None) 2 demo_draft") auto
qed

lemma fields_read_back_witness:
  "map_sum id (\<lambda>r. parse_pairs (spec_query (ro_spec r))) (read_request (demo_sm 3 None) 2
     (snd (native_request_set_query (demo_sm 3 None) demo_px (\<lambda>i. if i = 1 then 2 else 200) demo_draft))) =
   Inr (Some [(''/path'', ''/path'')])"
proof -
  have "parse_pairs (spec_query (ro_spec demo_request)) = Some []" by code_simp
  with demo_draft_request [of None] show ?thesis
    using fields_read_back [where p = "\<lambda>i. if i = 1 then 2 else 200" and px = demo_px and sm = "demo_sm 3 None"
        and st = demo_draft and r = demo_request] by (simp add: read_string_def demo_px_def c_str_id)
qed

end
