(* ===== verification/Rest_Send.thy ===== *)
theory Rest_Send
  imports Rest_Native_Facts
begin

text \<open>
  The types of the objects behind the handles, what sending a request does with them, and how a
  plugin reads a body piece by piece.
\<close>

section \<open>Well-formed objects\<close>

definition config_ok :: "client_config \<Rightarrow> bool" where
  "config_ok c \<longleftrightarrow>
     headers_wf (cfg_headers c) \<and> [] \<notin> fst ` set (cfg_headers c) \<and>
     list_all (\<lambda>f. is_i32 (f c)) [cfg_connectTimeout, cfg_timeout, cfg_absoluteTimeout, cfg_maxRetries,
       cfg_maxRedirects, cfg_maxSendSpeed, cfg_maxRecvSpeed, cfg_chunkSize, cfg_progressInterval] \<and>
     is_i64 (cfg_maxBodySize c) \<and>
     (cfg_bearerToken c = [] \<or> cfg_basicUser c = [] \<and> cfg_basicPassword c = [])"

text \<open>Which of the body members each kind of body uses; the others are empty.\<close>

definition body_ok :: "request_spec \<Rightarrow> bool" where
  "body_ok spec \<longleftrightarrow>
     (case spec_bodyKind spec of
        BodyKind_None \<Rightarrow> spec_body spec = [] \<and> spec_bodyFilePath spec = [] \<and> spec_formFields spec = []
      | BodyKind_Memory \<Rightarrow> spec_bodyFilePath spec = [] \<and> spec_formFields spec = []
      | BodyKind_File \<Rightarrow> spec_body spec = [] \<and> spec_formFields spec = []
      | BodyKind_Form \<Rightarrow> spec_body spec = [] \<and> spec_bodyFilePath spec = [] \<and> spec_formFields spec \<noteq> [] \<and>
          (\<forall>f \<in> set (spec_formFields spec). fld_filePath f = [])
      | BodyKind_Multipart \<Rightarrow> spec_body spec = [] \<and> spec_bodyFilePath spec = [] \<and> spec_formFields spec \<noteq> [])"

text \<open>The callbacks of a request and the flags of its spec agree; what \<open>Send\<close> fills in is still empty.\<close>

definition request_ok :: "request_object \<Rightarrow> bool" where
  "request_ok r \<longleftrightarrow> config_ok (spec_config (ro_spec r)) \<and> body_ok (ro_spec r) \<and>
     (spec_streamData (ro_spec r) \<longleftrightarrow> ro_data r \<noteq> None) \<and> (spec_wantHeaders (ro_spec r) \<longleftrightarrow> ro_headers r \<noteq> None) \<and>
     spec_url (ro_spec r) = []"

fun object_ok :: "rest_object \<Rightarrow> bool" where
  "object_ok (ObjClient c) \<longleftrightarrow> config_ok (co_config c)"
| "object_ok (ObjRequest r) \<longleftrightarrow> request_ok r"
| "object_ok (ObjResponse r) \<longleftrightarrow> True"

definition objects_typed :: "rest_state \<Rightarrow> bool" where
  "objects_typed st \<longleftrightarrow> (\<forall>(h, obj) \<in> set (x_objects st). object_ok obj)"

lemma set_update: "set (AList.update k v xs) \<subseteq> insert (k, v) (set xs)"
  by (induction xs) auto

lemma typed_write: "objects_typed st \<Longrightarrow> object_ok obj \<Longrightarrow> objects_typed (write_object h obj st)"
  using set_update [of h obj "x_objects st"] by (auto simp: objects_typed_def write_object_def)

lemma typed_read: "objects_typed st \<Longrightarrow> map_of (x_objects st) h = Some obj \<Longrightarrow> object_ok obj"
  by (auto simp: objects_typed_def dest: map_of_SomeD)

lemma typed_frame: "x_objects u = x_objects st \<Longrightarrow> objects_typed st \<Longrightarrow> objects_typed u"
  by (simp add: objects_typed_def)

lemma config_ok_default: "config_ok client_config_default"
  by (simp add: config_ok_def client_config_default_def headers_wf_def header_keys_def is_i32_def is_i64_def)

lemma typed_config: "objects_typed st \<Longrightarrow> read_config ty sm h st = Inr config \<Longrightarrow> config_ok config"
  by (cases "read_client sm h st"; cases "read_request sm h st")
    (auto simp: read_config_def request_ok_def dest!: read_clientD read_requestD typed_read split: if_splits)

lemma typed_write_config: "objects_typed st \<Longrightarrow> config_ok config \<Longrightarrow> objects_typed (write_config h config st)"
proof (cases "map_of (x_objects st) h")
  case (Some obj)
  assume st: "objects_typed st" and c: "config_ok config"
  have "object_ok (put_config config obj)"
    using typed_read [OF st Some] c by (cases obj) (simp_all add: request_ok_def body_ok_def cong: body_kind.case_cong)
  with Some typed_write [OF st] show ?thesis by (simp add: write_config_def)
qed (simp add: write_config_def)

lemma to_i64_range [simp]: "is_i64 (to_i64 x)"
proof -
  have "0 \<le> (x + 9223372036854775808) mod 18446744073709551616"
    "(x + 9223372036854775808) mod 18446744073709551616 < 18446744073709551616"
    by simp_all
  then show ?thesis unfolding to_i64_def is_i64_def by linarith
qed

lemma config_ok_fields:
  assumes "config_ok c"
  shows "config_ok (set_field f v c)" "config_ok (c\<lparr>cfg_userAgent := s\<rparr>)"
    "config_ok (c\<lparr>cfg_baseUrl := s\<rparr>)"
    "config_ok (c\<lparr>cfg_basicUser := s, cfg_basicPassword := t, cfg_bearerToken := []\<rparr>)"
    "config_ok (c\<lparr>cfg_bearerToken := s, cfg_basicUser := [], cfg_basicPassword := []\<rparr>)"
  using assms by (cases f; simp add: config_ok_def)+

lemma set_header_names: "fst ` set (set_header hs k v) \<subseteq> insert k (fst ` set hs)"
  by (induction hs k v rule: set_header.induct) auto

lemma remove_header_names: "fst ` set (remove_header hs k) \<subseteq> fst ` set hs"
  by (auto simp: remove_header_def)

lemma config_ok_headers:
  "config_ok c \<Longrightarrow> name \<noteq> [] \<Longrightarrow> config_ok (c\<lparr>cfg_headers := set_header (cfg_headers c) name v\<rparr>)"
  "config_ok c \<Longrightarrow> config_ok (c\<lparr>cfg_headers := remove_header (cfg_headers c) key\<rparr>)"
proof -
  have "name \<noteq> [] \<Longrightarrow> [] \<notin> fst ` set (cfg_headers c) \<Longrightarrow> [] \<notin> fst ` set (set_header (cfg_headers c) name v)"
    using set_header_names [of "cfg_headers c" name v] by blast
  then show "config_ok c \<Longrightarrow> name \<noteq> [] \<Longrightarrow> config_ok (c\<lparr>cfg_headers := set_header (cfg_headers c) name v\<rparr>)"
    by (simp add: config_ok_def headers_wf_set_header)
  have "[] \<notin> fst ` set (cfg_headers c) \<Longrightarrow> [] \<notin> fst ` set (remove_header (cfg_headers c) key)"
    using remove_header_names [of "cfg_headers c" key] by blast
  then show "config_ok c \<Longrightarrow> config_ok (c\<lparr>cfg_headers := remove_header (cfg_headers c) key\<rparr>)"
    by (simp add: config_ok_def headers_wf_remove_header)
qed

lemma typed_config_natives:
  assumes st: "objects_typed st"
  shows "objects_typed (snd (native_config_get ty fld sm px p st))"
    "objects_typed (snd (native_config_set ty fld sm px p st))"
    "objects_typed (snd (native_set_header ty sm px p st))"
    "objects_typed (snd (native_remove_header ty sm px p st))"
    "objects_typed (snd (native_set_basic_auth ty sm px p st))"
    "objects_typed (snd (native_set_bearer_token ty sm px p st))"
    "objects_typed (snd (native_set_user_agent ty sm px p st))"
  using typed_config [OF st, of ty sm "p 1"] st
  by (cases "read_config ty sm (p 1) st"; simp add: config_natives Let_def typed_write_config config_ok_fields config_ok_headers)+

lemma typed_create_handle: "objects_typed st \<Longrightarrow> object_ok obj \<Longrightarrow> objects_typed (snd (create_handle sm obj st))"
  using typed_write [of st obj "sm_new_handle sm"] by (simp add: create_handle_def write_object_def)

lemma request_ok_new:
  "config_ok c \<Longrightarrow> request_ok (request_object_default\<lparr>ro_clientHandle := h,
     ro_spec := (ro_spec request_object_default)\<lparr>spec_method := m, spec_path := s, spec_config := c\<rparr>\<rparr>)"
  by (simp add: request_ok_def request_object_default_def request_spec_default_def body_ok_def)

lemma typed_cancels [simp]:
  "x_objects (snd (cancel_job i who st)) = x_objects st"
  "x_objects (snd (cancel_jobs_for_client h who st)) = x_objects st"
proof -
  have "x_objects (snd (fold (\<lambda>(jobId, record) (cancelled, st).
        if jr_clientHandle record \<noteq> h \<or> jr_owner record \<noteq> who then (cancelled, st)
        else (cancelled + 1, on_thread (tt_cancel jobId) st)) js (n, st))) = x_objects st" for js and n :: int
    by (induction js arbitrary: st n) (simp_all add: split_beta)
  then show "x_objects (snd (cancel_jobs_for_client h who st)) = x_objects st"
    by (simp add: cancel_jobs_for_client_def)
  show "x_objects (snd (cancel_job i who st)) = x_objects st"
    by (simp add: cancel_job_def split: option.split)
qed

lemma typed_client_natives:
  assumes st: "objects_typed st"
  shows "objects_typed (snd (native_client_create sm px p st))"
    "objects_typed (snd (native_client_set_base_url sm px p st))"
    "objects_typed (snd (native_client_request sm px p st))"
    "objects_typed (snd (native_client_cancel sm px p st))"
    "objects_typed (snd (native_client_cancel_all sm px p st))"
proof -
  have c: "config_ok (co_config client)" if "read_client sm (p 1) st = Inr client" for client
    using typed_read [OF st read_clientD [OF that]] by simp
  show "objects_typed (snd (native_client_create sm px p st))"
    using typed_create_handle [OF st] config_ok_fields(3) [OF config_ok_default]
    by (simp add: native_client_create_def Let_def split_beta client_object_default_def typed_write)
  show "objects_typed (snd (native_client_set_base_url sm px p st))"
    using c st by (cases "read_client sm (p 1) st") (simp_all add: native_client_set_base_url_def typed_write config_ok_fields)
  show "objects_typed (snd (native_client_request sm px p st))"
    using c st typed_create_handle [OF st]
    by (cases "read_client sm (p 1) st") (simp_all add: native_client_request_def Let_def split_beta request_ok_new)
  show "objects_typed (snd (native_client_cancel sm px p st))" "objects_typed (snd (native_client_cancel_all sm px p st))"
    using st by (simp_all add: native_client_cancel_def native_client_cancel_all_def Let_def split_beta
        objects_typed_def split: sum.split)
qed

lemma typed_request_natives:
  assumes st: "objects_typed st"
  shows "objects_typed (snd (native_request_set_query sm px p st))"
    "objects_typed (snd (native_request_set_body sm px p st))"
    "objects_typed (snd (native_request_set_body_file sm px p st))"
    "objects_typed (snd (native_request_add_form_field sm px p st))"
    "objects_typed (snd (native_request_add_form_file sm px p st))"
    "objects_typed (snd (native_request_set_output_file sm px p st))"
proof -
  have r: "request_ok r" if "read_request sm (p 1) st = Inr r" for r
    using typed_read [OF st read_requestD [OF that]] by simp
  show "objects_typed (snd (native_request_set_query sm px p st))"
    "objects_typed (snd (native_request_set_body sm px p st))"
    "objects_typed (snd (native_request_set_body_file sm px p st))"
    "objects_typed (snd (native_request_add_form_field sm px p st))"
    "objects_typed (snd (native_request_add_form_file sm px p st))"
    "objects_typed (snd (native_request_set_output_file sm px p st))"
    using r st
    by (cases "read_request sm (p 1) st";
        auto simp: request_natives Let_def set_form_kind_def form_field_default_def request_ok_def body_ok_def
          intro!: typed_write split: body_kind.splits)+
qed

lemma typed_release: "objects_typed st \<Longrightarrow> objects_typed (snd (release_forward f st))"
  by (rule typed_frame) simp_all

lemma typed_log: "objects_typed st \<Longrightarrow> objects_typed (sm_log fx st)"
  by (rule typed_frame) simp_all

lemma typed_callback_natives:
  assumes st: "objects_typed st"
  shows "objects_typed (snd (native_request_on_headers sm px p st))"
    "objects_typed (snd (native_request_on_data sm px p st))"
    "objects_typed (snd (native_request_on_progress sm px p st))"
proof -
  have r: "request_ok r" if "read_request sm (p 1) st = Inr r" for r
    using typed_read [OF st read_requestD [OF that]] by simp
  have ok: "request_ok (r\<lparr>ro_headers := Some f, ro_spec := (ro_spec r)\<lparr>spec_wantHeaders := True\<rparr>\<rparr>)"
    "request_ok (r\<lparr>ro_data := Some f, ro_spec := (ro_spec r)\<lparr>spec_streamData := True\<rparr>\<rparr>)"
    "request_ok (r\<lparr>ro_progress := Some f\<rparr>)" if "request_ok r" for r f
    using that by (simp_all add: request_ok_def body_ok_def cong: body_kind.case_cong)
  show "objects_typed (snd (native_request_on_headers sm px p st))"
    "objects_typed (snd (native_request_on_data sm px p st))"
    "objects_typed (snd (native_request_on_progress sm px p st))"
    using r ok st
    by (cases "read_request sm (p 1) st"; cases "sm_new_forward sm";
        simp add: native_request_on_headers_def native_request_on_data_def native_request_on_progress_def
          create_forward_defs create_callback_forward_def split_beta Let_def typed_write typed_release typed_log)+
qed

lemma submit_job_objects [simp]: "x_objects (snd (submit_job spec r st)) = x_objects st"
  by (simp add: submit_job_def Let_def)

lemma destroy_request_objects:
  "map_of (x_objects st) h = Some (ObjRequest r) \<Longrightarrow> x_objects (destroy_object h st) = AList.delete h (x_objects st)"
  by (simp add: destroy_object_def Let_def split_beta)

text \<open>The objects after a request has been sent and destroyed: the others, unchanged.\<close>

lemma send_objects:
  assumes "sm_destroyed sm (p 1)"
  shows "set (x_objects (snd (native_request_send sm px p st))) \<subseteq> set (x_objects st)"
proof -
  have "set (x_objects (free_handle sm (p 1) u)) \<subseteq> set (x_objects st)"
    if "x_objects u = AList.update (p 1) (ObjRequest r) (x_objects st)" for u r
    using assms that destroy_request_objects [of u "p 1" r] set_update [of "p 1" "ObjRequest r" "x_objects st"]
    by (auto simp: free_handle_def update_conv' AList.delete_eq)
  then show ?thesis
    by (cases rule: create_callback_cases [of sig_completed sm "p 2" st])
      (auto simp: native_request_send_eq create_forward_defs split_beta write_object_def split: sum.split)
qed

text \<open>
  C36: The objects behind the handles keep their types. Whatever native is called with whatever
  cells, every configuration has members that fit their C++ types, header names that are not empty
  and differ under case folding, and at most one kind of credentials; every request uses only the
  body members of its kind of body (form fields without files for a urlencoded form), has a stream
  flag and a headers flag that agree with its callbacks, and no URL yet. Sending keeps this if the
  handle it frees was the last one of the request.
\<close>

theorem natives_keep_objects_typed:
  assumes "objects_typed st" and "(name, native) \<in> set g_natives"
    and "name = ''RESTRequest.Send'' \<Longrightarrow> sm_destroyed sm (p 1)"
  shows "objects_typed (snd (native sm px p st))"
proof -
  have send: "sm_destroyed sm (p 1) \<Longrightarrow> objects_typed (snd (native_request_send sm px p st))"
    using send_objects [of sm p px st] assms(1) unfolding objects_typed_def by blast
  have "list_all (\<lambda>(n, f). (n = ''RESTRequest.Send'' \<longrightarrow> sm_destroyed sm (p 1)) \<longrightarrow>
      objects_typed (snd (f sm px p st))) g_natives"
    unfolding g_natives_def
    by (simp add: typed_config_natives [OF assms(1)] typed_client_natives [OF assms(1)] send
        typed_request_natives [OF assms(1)] typed_callback_natives [OF assms(1)] assms(1) response_native_defs
        response_natives_pure)
  then show ?thesis using assms(2,3) by (auto simp: list_all_iff)
qed

lemma natives_keep_objects_typed_witness:
  "objects_typed (snd (native_set_basic_auth RequestType (demo_sm 3 None) demo_px (\<lambda>_. 2) demo_draft))"
proof -
  have m: "(''RESTRequest.SetBasicAuth'', native_set_basic_auth RequestType) \<in> set g_natives"
    unfolding g_natives_def by simp
  have "objects_typed demo_draft" by code_simp
  from natives_keep_objects_typed [OF this m] show ?thesis by simp
qed

section \<open>Sending\<close>

text \<open>
  C35: Sending makes exactly one job. \<open>Send\<close> fails exactly when the handle is not a request of the
  plugin, the URL is not absolute, or the completion callback cannot be made. Otherwise it returns
  the next job id; the transfer thread gets one new job, with the configured spec, the joined URL
  with the query, the encoded form and the CA bundle; the table gets its record, owned by the
  calling plugin and holding the callbacks, none of which is released; and the request is gone.
\<close>

theorem send_makes_one_job:
  assumes "sm_destroyed sm (p 1)"
  shows "(isl (fst (native_request_send sm px p st)) \<longleftrightarrow>
      (case read_request sm (p 1) st of
         Inl e \<Rightarrow> True
       | Inr r \<Rightarrow> \<not> is_absolute_url (request_url r) \<or> \<not> sm_function sm (p 2) \<or> sm_new_forward sm = None)) \<and>
    (case (read_request sm (p 1) st, sm_new_forward sm, fst (native_request_send sm px p st)) of
       (Inr r, Some f, Inr (i, out)) \<Rightarrow>
         i = x_nextJobId st \<and> out = [] \<and>
         tt_incoming (x_thread (snd (native_request_send sm px p st))) = tt_incoming (x_thread st) @
           [new_job ((sent_spec r)\<lparr>spec_id := i, spec_caBundle := x_caBundlePath st, spec_verbose := x_verbose st\<rparr>)] \<and>
         map_of (x_jobs (snd (native_request_send sm px p st))) i =
           Some ((sent_record (px_identity px) (p 3) f r)\<lparr>jr_id := i\<rparr>) \<and>
         map_of (x_objects (snd (native_request_send sm px p st))) (p 1) = None \<and>
         x_log (snd (native_request_send sm px p st)) = x_log st @ [Fx_Create f sig_completed]
     | _ \<Rightarrow> True)"
proof (cases "read_request sm (p 1) st")
  case (Inl e)
  then show ?thesis by (simp add: native_request_send_eq)
next
  case (Inr r)
  show ?thesis
  proof (cases rule: create_callback_cases [of sig_completed sm "p 2" st])
    case none
    then have "\<not> sm_function sm (p 2) \<or> sm_new_forward sm = None"
      by (auto simp: create_callback_forward_def split: if_splits option.splits)
    with Inr none show ?thesis
      by (auto simp: native_request_send_eq create_forward_defs split: option.splits)
  next
    case (some f)
    then have fn: "sm_function sm (p 2)" by (auto simp: create_callback_forward_def split: if_splits)
    show ?thesis
    proof (cases "is_absolute_url (request_url r)")
      case False
      with Inr some fn show ?thesis by (simp add: native_request_send_eq)
    next
      case True
      let ?w = "write_object (p 1) (ObjRequest (emptied sm r)) (sm_log (Fx_Create f sig_completed) st)"
      let ?s = "submit_job (sent_spec r) (sent_record (px_identity px) (p 3) f r) ?w"
      have eq: "native_request_send sm px p st = returns (fst ?s) (destroy_object (p 1) (snd ?s))"
        using Inr some True assms
        by (simp add: native_request_send_eq create_forward_defs split_beta free_handle_def)
      have o: "map_of (x_objects (snd ?s)) (p 1) = Some (ObjRequest (emptied sm r))"
        by (simp add: write_object_def update_conv')
      have d: "x_thread (destroy_object (p 1) (snd ?s)) = x_thread (snd ?s)"
        "x_jobs (destroy_object (p 1) (snd ?s)) = x_jobs (snd ?s)"
        "x_log (destroy_object (p 1) (snd ?s)) = x_log (snd ?s)"
        "map_of (x_objects (destroy_object (p 1) (snd ?s))) (p 1) = None"
        using o by (simp_all add: destroy_object_def Let_def emptied_def release_forward_def delete_conv')
      show ?thesis unfolding eq Inr
        using some fn True d by (simp add: submit_job_def Let_def enqueue_def write_object_def update_conv')
    qed
  qed
qed

lemma send_makes_one_job_witness:
  "fst (native_request_send (demo_sm 3 (Some 11)) demo_px (\<lambda>i. if i = 1 then 2 else 9) demo_draft) = Inr (1, [])"
proof -
  let ?sm = "demo_sm 3 (Some 11)" and ?p = "\<lambda>i :: nat. if i = 1 then 2 else 9 :: int"
  have d: "sm_destroyed ?sm (?p 1)" by (simp add: demo_sm_def)
  have "is_absolute_url (request_url demo_request) = True" by code_simp
  moreover have "x_nextJobId demo_draft = 1" by code_simp
  ultimately show ?thesis
    using send_makes_one_job [where p = ?p, OF d, of demo_px demo_draft] demo_draft_request [of "Some 11"]
    by (cases "fst (native_request_send ?sm demo_px ?p demo_draft)") (auto simp: demo_sm_def)
qed

section \<open>Reading a body\<close>

text \<open>The bytes a call of \<open>ReadBody\<close> stores.\<close>

definition stored :: "native_result \<Rightarrow> string" where
  "stored result = (case result of Inr (n, [(address, bytes)]) \<Rightarrow> bytes | _ \<Rightarrow> [])"

definition read_params :: "handle \<Rightarrow> int \<Rightarrow> int \<Rightarrow> int \<Rightarrow> nat \<Rightarrow> int" where
  "read_params h offset address maxlength i =
     (if i = 1 then h else if i = 2 then offset else if i = 3 then address else maxlength)"

lemma read_body_eq:
  assumes "read_response sm h st = Inr r" and "length (rs_body r) < 2147483648" and "0 \<le> offset" and "0 \<le> n"
  shows "fst (native_response_read_body sm px (read_params h offset address n) st) =
    Inr (int (length (take (nat n) (drop (nat offset) (rs_body r)))),
         [(address, take (nat n) (drop (nat offset) (rs_body r)))])"
proof -
  define start where "start = min (nat offset) (length (rs_body r))"
  define count where "count = min (nat n) (length (rs_body r) - start)"
  have "drop start (rs_body r) = drop (nat offset) (rs_body r)"
    unfolding start_def by (cases "nat offset \<le> length (rs_body r)") simp_all
  moreover have c: "count = length (take (nat n) (drop (nat offset) (rs_body r)))"
    unfolding count_def start_def length_take length_drop by linarith
  moreover have "take count (drop (nat offset) (rs_body r)) = take (nat n) (drop (nat offset) (rs_body r))"
    unfolding c by (simp add: min_def)
  moreover have "to_i32 (int count) = int count" using assms(2) by (simp add: c is_i32_def)
  moreover have "fst (native_response_read_body sm px (read_params h offset address n) st) =
      Inr (to_i32 (int count), [(address, take count (drop start (rs_body r)))])"
    using assms(1,3,4) by (simp add: native_response_read_body_def read_params_def Let_def count_def start_def)
  ultimately show ?thesis by presburger
qed

text \<open>
  C38: A body can be read piece by piece. Reading a body of less than 2 GiB with \<open>ReadBody\<close> in
  pieces of \<open>n\<close> bytes and joining the pieces gives the body up to the end of the last piece, so all
  of it as soon as the pieces reach its end; every piece fits the buffer, the returned count is its
  length, a read past the end stores nothing and returns 0, and negative arguments throw.
\<close>

theorem body_reads_back:
  assumes "read_response sm h st = Inr r" and "length (rs_body r) < 2147483648"
  shows "concat (map (\<lambda>k. stored (fst (native_response_read_body sm px (read_params h (int (k * n)) address (int n)) st))) [0..<m]) =
      take (m * n) (rs_body r) \<and>
    (0 \<le> offset \<and> 0 \<le> maxlength \<longrightarrow>
       fst (native_response_read_body sm px (read_params h offset address maxlength) st) =
         Inr (int (length (stored (fst (native_response_read_body sm px (read_params h offset address maxlength) st)))),
              [(address, stored (fst (native_response_read_body sm px (read_params h offset address maxlength) st)))]) \<and>
       int (length (stored (fst (native_response_read_body sm px (read_params h offset address maxlength) st)))) \<le> maxlength) \<and>
    (offset < 0 \<or> maxlength < 0 \<longrightarrow>
       fst (native_response_read_body sm px (read_params h offset address maxlength) st) = Inl NegativeRange)"
proof -
  have s: "stored (fst (native_response_read_body sm px (read_params h o' address n') st)) =
      take (nat n') (drop (nat o') (rs_body r))" if "0 \<le> o'" "0 \<le> n'" for o' n'
    unfolding read_body_eq [OF assms that] by (simp add: stored_def)
  have "concat (map (\<lambda>k. take n (drop (k * n) (rs_body r))) [0..<m]) = take (m * n) (rs_body r)"
  proof (induction m)
    case (Suc m)
    have "Suc m * n = m * n + n" by simp
    then show ?case using Suc by (simp only: take_add) simp
  qed simp
  moreover have "(\<lambda>k. stored (fst (native_response_read_body sm px (read_params h (int (k * n)) address (int n)) st))) =
      (\<lambda>k. take n (drop (k * n) (rs_body r)))"
    by (rule ext) (simp only: s of_nat_0_le_iff nat_int)
  moreover have "fst (native_response_read_body sm px (read_params h offset address maxlength) st) = Inl NegativeRange"
    if "offset < 0 \<or> maxlength < 0"
    using that assms(1) by (auto simp: native_response_read_body_def read_params_def)
  ultimately show ?thesis
    using s [of offset maxlength] read_body_eq [OF assms, of offset maxlength px address] by auto
qed

lemma body_reads_back_witness:
  "fst (native_response_read_body (demo_sm 3 None) demo_px (read_params 4 2 50 2)
     (demo_state\<lparr>x_objects := [(4, ObjResponse (response_of (transfer_event_default\<lparr>ev_body := ''abcde''\<rparr>)))]\<rparr>)) =
   Inr (2, [(50, ''cd'')])"
proof -
  let ?st = "demo_state\<lparr>x_objects := [(4, ObjResponse (response_of (transfer_event_default\<lparr>ev_body := ''abcde''\<rparr>)))]\<rparr>"
  let ?r = "response_of (transfer_event_default\<lparr>ev_body := ''abcde''\<rparr>)"
  have r: "read_response (demo_sm 3 None) 4 ?st = Inr ?r"
    by (simp add: read_response_def read_object_def demo_sm_def)
  have b: "rs_body ?r = ''abcde''" by (simp add: response_of_def)
  have "stored (fst (native_response_read_body (demo_sm 3 None) demo_px (read_params 4 2 50 2) ?st)) = ''cd''"
    by code_simp
  then show ?thesis
    using body_reads_back [OF r, of demo_px 1 50 0 2 2] by (simp add: b)
qed

end
