(* ===== verification/Rest_Balance.thy ===== *)
theory Rest_Balance
  imports Rest_Guarantees
begin

text \<open>
  The balance of a streamed job, step by step: what it counts as outstanding grows by exactly the bytes
  of the data events it posts, shrinks only by what is consumed, and starts again at zero with an
  attempt, before which nothing was posted.
\<close>

definition posted_bytes :: "job_ctx \<Rightarrow> int" where
  "posted_bytes s = int (length (data_bytes (posted s)))"

text \<open>A step that leaves the balance alone.\<close>

definition balanced :: "job_ctx \<Rightarrow> job_ctx \<Rightarrow> bool" where
  "balanced s t \<longleftrightarrow> m_pendingStreamBytes t - posted_bytes t = m_pendingStreamBytes s - posted_bytes s"

lemma balanced_quiet: "same_body s t \<Longrightarrow> same_flow s t \<Longrightarrow> balanced s t"
  by (simp add: same_body_def same_flow_def balanced_def posted_bytes_def)

lemma balanced_same: "same_flow s t \<Longrightarrow> posted t = posted s \<Longrightarrow> balanced s t"
  by (simp add: same_flow_def balanced_def posted_bytes_def)

lemma balanced_flush: "mq_enabled (io_queue s) \<Longrightarrow> balanced s (flush_stream s)"
  by (simp add: flush_stream_def balanced_def posted_bytes_def posted_post_event frame_simps)

lemma balanced_write:
  assumes "mq_enabled (io_queue s)"
  shows "balanced s (snd (write_callback h status data s))"
proof (cases "sink_for s status")
  case Sink_Stream
  let ?s1 = "s\<lparr>m_streamBuffer := m_streamBuffer s @ data, m_bodyLength := m_bodyLength s + int (length data)\<rparr>"
  have s1: "balanced s ?s1" by (simp add: balanced_def posted_bytes_def)
  moreover have "balanced ?s1 (flush_stream ?s1)" by (rule balanced_flush) (simp add: assms)
  ultimately have "balanced s (flush_stream ?s1)" by (simp add: balanced_def)
  with s1 have "balanced s (snd (write_stream data s))"
    by (simp add: write_stream_def Let_def) (simp add: balanced_def posted_bytes_def)
  with Sink_Stream show ?thesis by (simp add: write_callback_def)
next
  case Sink_File
  moreover have "posted (snd (write_file h status data s)) = posted s"
    by (simp add: write_file_eq Let_def split: option.split)
  ultimately show ?thesis by (simp add: write_callback_def balanced_same same_flow_quiet)
next
  case Sink_Memory
  moreover have "posted (snd (write_memory data s)) = posted s" by (simp add: write_memory_def Let_def)
  ultimately show ?thesis by (simp add: write_callback_def balanced_same same_flow_quiet)
qed

lemma balanced_done:
  assumes "\<not> m_finished (on_attempt_done h code s)"
  shows "balanced s (on_attempt_done h code s)"
proof -
  have "balanced s (done_base h s)" by (simp add: balanced_def posted_bytes_def frame_simps)
  moreover have "balanced t (schedule_retry h t)" for t
    by (simp add: balanced_def posted_bytes_def schedule_retry_def)
  ultimately have "balanced s (schedule_retry h (done_base h s))" by (simp add: balanced_def)
  with assms show ?thesis
    by (auto simp: on_attempt_done_eq Let_def handle_transport_failure_def handle_http_failure_def
        handle_http_success_def split: if_split_asm prod.split_asm)
qed

lemma begin_balance:
  assumes "\<not> m_finished (snd (begin_attempt h s))"
  shows "m_pendingStreamBytes (snd (begin_attempt h s)) = 0" and "posted (snd (begin_attempt h s)) = posted s"
proof -
  show "m_pendingStreamBytes (snd (begin_attempt h s)) = 0"
  proof (cases rule: begin_attempt_cases [of s h])
    case (attached s3)
    then show ?thesis using open_files_frame [of h "(attempt_base s)\<lparr>m_easy := Some []\<rparr>"] by (simp add: frame_simps)
  qed (use assms in simp_all)
  show "posted (snd (begin_attempt h s)) = posted s"
  proof (cases rule: begin_attempt_cases [of s h])
    case (attached s3)
    then show ?thesis using open_files_frame(14) [of h "(attempt_base s)\<lparr>m_easy := Some []\<rparr>"] by (simp add: frame_simps)
  qed (use assms in simp_all)
qed

lemma step_balance:
  assumes r: "job_reach spec fs s w" and en: "job_enabled i s w" and nf: "\<not> m_finished (job_step i s)"
  shows "case i of
      InConsumed bytes \<Rightarrow> posted_bytes (job_step i s) = posted_bytes s \<and>
        (bytes \<le> m_pendingStreamBytes s \<longrightarrow> m_pendingStreamBytes (job_step i s) = m_pendingStreamBytes s - bytes)
    | InBegin h \<Rightarrow> posted_bytes s = 0 \<and> posted_bytes (job_step i s) = 0 \<and> m_pendingStreamBytes (job_step i s) = 0
    | _ \<Rightarrow> balanced s (job_step i s)"
proof -
  have q: "mq_enabled (io_queue s)" using reach_inv [OF r] by (simp add: event_inv_def)
  show ?thesis
  proof (cases i)
    case (InBegin h)
    have "\<not> m_attached s" "\<not> m_finished s" using en InBegin reach_inv [OF r] by (auto simp: life_inv_def)
    then have "posted_bytes s = 0" using reach_delivery [OF r] by (simp add: delivery_inv_def posted_bytes_def)
    with InBegin nf show ?thesis using begin_balance [of h s] by (simp add: posted_bytes_def)
  next
    case (InConsumed bytes)
    then show ?thesis by (simp add: on_stream_consumed_def posted_bytes_def Let_def)
  next
    case InCancel
    with nf show ?thesis by (simp add: cancel_def)
  next
    case (InDone h code)
    with nf balanced_done show ?thesis by simp
  next
    case (InWrite h status data)
    with balanced_write [OF q] show ?thesis by simp
  qed (auto intro!: balanced_quiet simp: q same_flow_quiet same_body_header same_body_progress same_body_read
      same_body_seek same_body_error)
qed

section \<open>Attempts are counted up\<close>

lemma step_attempt:
  "m_attempt s \<le> m_attempt (job_step i s)" "m_attempt s < m_attempt (job_step (InBegin h) s)"
proof -
  have b: "m_attempt (snd (begin_attempt h s)) = m_attempt s + 1" for h
  proof (cases rule: begin_attempt_cases [of s h])
    case (no_file s3)
    then show ?thesis
      using open_files_frame(2) [of h "(attempt_base s)\<lparr>m_easy := Some []\<rparr>"] by (simp add: frame_simps)
  next
    case (not_added s3 error)
    then show ?thesis
      using open_files_frame(2) [of h "(attempt_base s)\<lparr>m_easy := Some []\<rparr>"] by (simp add: frame_simps)
  next
    case (attached s3)
    then show ?thesis
      using open_files_frame(2) [of h "(attempt_base s)\<lparr>m_easy := Some []\<rparr>"] by (simp add: frame_simps)
  qed (simp_all add: frame_simps)
  show "m_attempt s < m_attempt (job_step (InBegin h) s)" by (simp add: b)
  show "m_attempt s \<le> m_attempt (job_step i s)"
  proof (cases i)
    case (InDone h code)
    show ?thesis unfolding InDone
      by (simp add: on_attempt_done_eq Let_def handle_transport_failure_def handle_http_failure_def
          handle_http_success_def finalize_download_def flush_stream_def frame_simps split: prod.split)
  next
    case InCancel
    then show ?thesis by (simp add: cancel_def frame_simps close_files_def)
  qed (use same_life_quiet in \<open>auto simp: same_life_def b\<close>)
qed

end
