(* ===== verification/Rest_System.thy ===== *)
theory Rest_System
  imports Rest_Thread Rest_Balance
begin

text \<open>
  The transfer thread and the main thread together. The step relation \<open>sys_reach\<close> interleaves what
  the main thread calls (submitting, cancelling, crediting, draining) with the pieces of the loop of
  the transfer thread (\<open>thread_step\<close>), each of which holds no lock of its own while the main thread
  acts. The statements about a single job (\<open>job_reach\<close>) carry over to every one of the jobs that share
  the thread, the event queue and the file system.

  The main thread gives back at most the bytes of the data events it has taken. A request is submitted under a fresh id, as \<open>SubmitRequest\<close> draws it from its counter, and no two
  requests in flight share an output path or a part file; the code does not enforce the latter.
\<close>

section \<open>The system\<close>

text \<open>
  \<open>sy_taken\<close>, \<open>sy_cancels\<close> and \<open>sy_credits\<close> are the local vectors of \<open>Run\<close>, from \<open>TakePending\<close> until each
  entry has been worked on. The rest is history: the requests submitted so far, the events the main
  thread has drained, what libcurl delivered for each id and how many bytes were credited to it.
\<close>

record system =
  sy_thread :: transfer_thread
  sy_taken :: "rest_job list"
  sy_cancels :: "int list"
  sy_credits :: "(int \<times> int) list"
  sy_submitted :: "request_spec list"
  sy_log :: "transfer_event list"
  sy_wires :: "int \<Rightarrow> wire"
  sy_applied :: "int \<Rightarrow> int"

definition files_of :: "system \<Rightarrow> file_system" where
  "files_of \<sigma> = fst (tt_world (sy_thread \<sigma>))"

definition events :: "system \<Rightarrow> transfer_event list" where
  "events \<sigma> = sy_log \<sigma> @ mq_events (snd (tt_world (sy_thread \<sigma>)))"

definition events_of :: "int \<Rightarrow> system \<Rightarrow> transfer_event list" where
  "events_of jobId \<sigma> = filter (\<lambda>e. ev_jobId e = jobId) (events \<sigma>)"

definition pending :: "system \<Rightarrow> rest_job list" where
  "pending \<sigma> = sy_taken \<sigma> @ tt_incoming (sy_thread \<sigma>)"

definition in_flight :: "system \<Rightarrow> rest_job list" where
  "in_flight \<sigma> = tt_active (sy_thread \<sigma>) @ pending \<sigma>"

text \<open>The state of an active job as its member functions see it.\<close>

definition ctx_at :: "nat \<Rightarrow> transfer_thread \<Rightarrow> job_ctx" where
  "ctx_at k t = job_ctx_of (tt_active t ! k) (fst (tt_world t)) (snd (tt_world t))"

definition sys_call :: "job_input \<Rightarrow> nat \<Rightarrow> system \<Rightarrow> system" where
  "sys_call i k \<sigma> =
     (let t = sy_thread \<sigma>; jobId = job_id (tt_active t ! k)
      in \<sigma>\<lparr>sy_thread := on_active (job_step i) k t,
           sy_wires := (sy_wires \<sigma>)(jobId := wire_step i (ctx_at k t) (sy_wires \<sigma> jobId))\<rparr>)"

definition sys_enabled :: "job_input \<Rightarrow> nat \<Rightarrow> system \<Rightarrow> bool" where
  "sys_enabled i k \<sigma> \<longleftrightarrow>
     k < length (tt_active (sy_thread \<sigma>)) \<and>
     job_enabled i (ctx_at k (sy_thread \<sigma>)) (sy_wires \<sigma> (job_id (tt_active (sy_thread \<sigma>) ! k)))"

text \<open>Moving the first taken job to the active ones; its attempt begins there.\<close>

definition sys_admitted :: "system \<Rightarrow> system" where
  "sys_admitted \<sigma> =
     (let job = hd (sy_taken \<sigma>); t = sy_thread \<sigma>
      in \<sigma>\<lparr>sy_thread := t\<lparr>tt_active := tt_active t @ [job]\<rparr>, sy_taken := tl (sy_taken \<sigma>),
           sy_wires := (sy_wires \<sigma>)(job_id job := wire_start)\<rparr>)"

definition sys_admit :: "host \<Rightarrow> system \<Rightarrow> system" where
  "sys_admit h \<sigma> = sys_call (InBegin h) (length (tt_active (sy_thread \<sigma>))) (sys_admitted \<sigma>)"

definition sys_take :: "system \<Rightarrow> system" where
  "sys_take \<sigma> =
     (let ((incoming, cancels, consumes), t) = take_pending (sy_thread \<sigma>)
      in \<sigma>\<lparr>sy_thread := t, sy_taken := incoming, sy_cancels := cancels, sy_credits := consumes\<rparr>)"

definition sys_cancel_next :: "system \<Rightarrow> system" where
  "sys_cancel_next \<sigma> =
     (let \<tau> = \<sigma>\<lparr>sy_cancels := tl (sy_cancels \<sigma>)\<rparr>
      in case find_active (hd (sy_cancels \<sigma>)) (sy_thread \<sigma>) of
           None \<Rightarrow> \<tau>
         | Some k \<Rightarrow> sys_call InCancel k \<tau>)"

definition sys_consume_next :: "system \<Rightarrow> system" where
  "sys_consume_next \<sigma> =
     (let (jobId, bytes) = hd (sy_credits \<sigma>);
          \<tau> = \<sigma>\<lparr>sy_credits := tl (sy_credits \<sigma>),
                sy_applied := (sy_applied \<sigma>)(jobId := sy_applied \<sigma> jobId + bytes)\<rparr>
      in case find_active jobId (sy_thread \<sigma>) of
           None \<Rightarrow> \<tau>
         | Some k \<Rightarrow> sys_call (InConsumed bytes) k \<tau>)"

definition sys_drain :: "system \<Rightarrow> system" where
  "sys_drain \<sigma> =
     (let t = sy_thread \<sigma>; (drained, q) = queue_drain (snd (tt_world t))
      in \<sigma>\<lparr>sy_thread := t\<lparr>tt_world := (fst (tt_world t), q)\<rparr>, sy_log := sy_log \<sigma> @ drained\<rparr>)"

definition sys_submit :: "request_spec \<Rightarrow> system \<Rightarrow> system" where
  "sys_submit spec \<sigma> =
     \<sigma>\<lparr>sy_thread := enqueue (new_job spec) (sy_thread \<sigma>), sy_submitted := sy_submitted \<sigma> @ [spec]\<rparr>"

definition fresh_request :: "request_spec \<Rightarrow> system \<Rightarrow> bool" where
  "fresh_request spec \<sigma> \<longleftrightarrow>
     spec_id spec \<notin> spec_id ` set (sy_submitted \<sigma>) \<and>
     (\<forall>job \<in> set (in_flight \<sigma>). \<forall>p. \<not> (own_path spec p \<and> own_path (m_spec job) p))"

definition sys_boot :: "file_system \<Rightarrow> system" where
  "sys_boot fs =
     \<lparr>sy_thread = \<lparr>tt_multi = True, tt_running = True, tt_incoming = [], tt_cancelRequests = [],
        tt_consumeRequests = [], tt_active = [], tt_world = (fs, queue_default)\<rparr>,
      sy_taken = [], sy_cancels = [], sy_credits = [], sy_submitted = [], sy_log = [],
      sy_wires = (\<lambda>_. wire_start), sy_applied = (\<lambda>_. 0)\<rparr>"

text \<open>The bytes credited to an id and not yet worked on, and those of its data events that were drained.\<close>

definition asked :: "int \<Rightarrow> system \<Rightarrow> int" where
  "asked jobId \<sigma> =
     sum_list (map snd (filter (\<lambda>r. fst r = jobId) (sy_credits \<sigma> @ tt_consumeRequests (sy_thread \<sigma>))))"

definition given :: "int \<Rightarrow> system \<Rightarrow> int" where
  "given jobId \<sigma> = int (length (data_bytes (filter (\<lambda>e. ev_jobId e = jobId) (sy_log \<sigma>))))"

fun is_request :: "job_input \<Rightarrow> bool" where
  "is_request InCancel = True"
| "is_request (InConsumed bytes) = True"
| "is_request _ = False"

text \<open>
  The transfer thread: the vectors are worked off in the order of \<open>Run\<close>; in between, attempts begin
  and libcurl calls back.
\<close>

inductive thread_step :: "system \<Rightarrow> system \<Rightarrow> bool" where
  take: "sy_taken \<sigma> = [] \<Longrightarrow> sy_cancels \<sigma> = [] \<Longrightarrow> sy_credits \<sigma> = [] \<Longrightarrow> thread_step \<sigma> (sys_take \<sigma>)"
| admit: "sy_taken \<sigma> \<noteq> [] \<Longrightarrow> thread_step \<sigma> (sys_admit h \<sigma>)"
| cancel_next: "sy_taken \<sigma> = [] \<Longrightarrow> sy_cancels \<sigma> \<noteq> [] \<Longrightarrow> thread_step \<sigma> (sys_cancel_next \<sigma>)"
| consume_next: "sy_taken \<sigma> = [] \<Longrightarrow> sy_cancels \<sigma> = [] \<Longrightarrow> sy_credits \<sigma> \<noteq> [] \<Longrightarrow>
     thread_step \<sigma> (sys_consume_next \<sigma>)"
| call: "sys_enabled i k \<sigma> \<Longrightarrow> \<not> is_request i \<Longrightarrow> thread_step \<sigma> (sys_call i k \<sigma>)"
| remove: "thread_step \<sigma> (\<sigma>\<lparr>sy_thread := remove_finished (sy_thread \<sigma>)\<rparr>)"

inductive sys_reach :: "system \<Rightarrow> bool" where
  boot: "sys_reach (sys_boot fs)"
| submit: "sys_reach \<sigma> \<Longrightarrow> fresh_request spec \<sigma> \<Longrightarrow> sys_reach (sys_submit spec \<sigma>)"
| cancel: "sys_reach \<sigma> \<Longrightarrow> sys_reach (\<sigma>\<lparr>sy_thread := tt_cancel jobId (sy_thread \<sigma>)\<rparr>)"
| consume: "sys_reach \<sigma> \<Longrightarrow> bytes \<ge> 0 \<Longrightarrow> sy_applied \<sigma> jobId + asked jobId \<sigma> + bytes \<le> given jobId \<sigma> \<Longrightarrow>
     sys_reach (\<sigma>\<lparr>sy_thread := tt_consume jobId bytes (sy_thread \<sigma>)\<rparr>)"
| drain: "sys_reach \<sigma> \<Longrightarrow> sys_reach (sys_drain \<sigma>)"
| thread: "sys_reach \<sigma> \<Longrightarrow> thread_step \<sigma> \<tau> \<Longrightarrow> sys_reach \<tau>"

section \<open>A step in a shared world is the step of the job alone\<close>

definition with_queue :: "transfer_event list \<Rightarrow> job_ctx \<Rightarrow> job_ctx" where
  "with_queue es s = s\<lparr>io_queue := queue_of es\<rparr>"

lemma with_queue_under: "with_queue es s = under (queue_before es) (with_queue [] s)"
  by (simp add: with_queue_def under_def queue_of_before)

lemma enabled_with_queue: "job_enabled i (with_queue es s) w = job_enabled i s w"
  by (cases i) (simp_all add: with_queue_def)

lemma restarts_under: "restarts status (under r s) = restarts status s"
  by (simp add: restarts_def sink_for_def under_simps)

lemma wire_under: "post_hom r \<Longrightarrow> wire_step i (under r s) w = wire_step i s w"
  by (cases i) (simp_all add: part_base_def restarts_under Let_def under_simps)

lemma wire_with_queue: "wire_step i (with_queue es s) w = wire_step i (with_queue fs s) w"
  using wire_under [OF queue_before_hom, of i _ "with_queue [] s" w] with_queue_under [of _ s] by metis

lemma step_with_queue:
  "\<exists>t new. \<forall>es. job_step i (with_queue es s) = with_queue (es @ new) t"
proof -
  let ?t = "job_step i (with_queue [] s)"
  obtain new where "io_queue ?t = fold queue_post new (queue_of [])"
    using posts_only_step [of "with_queue [] s" i] by (auto simp: posts_only_def with_queue_def)
  then have q: "io_queue ?t = queue_of new" by (simp add: fold_post_of)
  have "job_step i (with_queue es s) = with_queue (es @ new) ?t" for es
    unfolding with_queue_under [of es s] step_under [OF queue_before_hom]
    by (simp add: under_def with_queue_def q [unfolded with_queue_def] queue_of_before)
  then show ?thesis by blast
qed

section \<open>The invariant\<close>

definition alone :: "system \<Rightarrow> rest_job \<Rightarrow> job_ctx" where
  "alone \<sigma> job = job_ctx_of job (files_of \<sigma>) (queue_of (events_of (job_id job) \<sigma>))"

definition names_ok :: "system \<Rightarrow> bool" where
  "names_ok \<sigma> \<longleftrightarrow>
     distinct (map spec_id (sy_submitted \<sigma>)) \<and> distinct (map job_id (in_flight \<sigma>)) \<and>
     m_spec ` set (in_flight \<sigma>) \<subseteq> set (sy_submitted \<sigma>) \<and>
     (\<forall>job \<in> set (pending \<sigma>). job = new_job (m_spec job))"

definition apart_ok :: "system \<Rightarrow> bool" where
  "apart_ok \<sigma> \<longleftrightarrow>
     (\<forall>a \<in> set (in_flight \<sigma>). \<forall>b \<in> set (in_flight \<sigma>). job_id a \<noteq> job_id b \<longrightarrow>
        (\<forall>p. \<not> (own_path (m_spec a) p \<and> own_path (m_spec b) p)))"

definition queue_ok :: "system \<Rightarrow> bool" where
  "queue_ok \<sigma> \<longleftrightarrow>
     snd (tt_world (sy_thread \<sigma>)) = queue_of (mq_events (snd (tt_world (sy_thread \<sigma>))))"

definition events_ok :: "system \<Rightarrow> bool" where
  "events_ok \<sigma> \<longleftrightarrow>
     (\<forall>e \<in> set (events \<sigma>). ev_jobId e \<in> spec_id ` set (sy_submitted \<sigma>) - job_id ` set (pending \<sigma>))"

definition active_ok :: "system \<Rightarrow> bool" where
  "active_ok \<sigma> \<longleftrightarrow>
     (\<forall>job \<in> set (tt_active (sy_thread \<sigma>)). \<exists>fs. job_reach (m_spec job) fs (alone \<sigma> job) (sy_wires \<sigma> (job_id job)))"

definition gone_ok :: "system \<Rightarrow> bool" where
  "gone_ok \<sigma> \<longleftrightarrow>
     (\<forall>spec \<in> set (sy_submitted \<sigma>). spec_id spec \<notin> job_id ` set (in_flight \<sigma>) \<longrightarrow>
        (\<exists>fs s. job_reach spec fs s (sy_wires \<sigma> (spec_id spec)) \<and> m_finished s \<and>
           posted s = events_of (spec_id spec) \<sigma>))"

definition sys_inv :: "system \<Rightarrow> bool" where
  "sys_inv \<sigma> \<longleftrightarrow>
     names_ok \<sigma> \<and> apart_ok \<sigma> \<and> queue_ok \<sigma> \<and> events_ok \<sigma> \<and> active_ok \<sigma> \<and> gone_ok \<sigma>"

lemma sys_inv_boot: "sys_inv (sys_boot fs)"
  by (simp add: sys_inv_def names_ok_def apart_ok_def queue_ok_def events_ok_def active_ok_def gone_ok_def
      sys_boot_def in_flight_def pending_def events_def queue_default_def queue_of_def)

lemma sys_inv_frame:
  assumes "sys_inv \<sigma>" "queue_ok \<tau>" "tt_active (sy_thread \<tau>) = tt_active (sy_thread \<sigma>)" "pending \<tau> = pending \<sigma>"
    "files_of \<tau> = files_of \<sigma>" "events \<tau> = events \<sigma>" "sy_wires \<tau> = sy_wires \<sigma>" "sy_submitted \<tau> = sy_submitted \<sigma>"
  shows "sys_inv \<tau>"
  using assms
  by (simp add: sys_inv_def names_ok_def apart_ok_def events_ok_def active_ok_def gone_ok_def in_flight_def
      alone_def events_of_def)

lemma queue_ok_cong: "queue_ok \<sigma> \<Longrightarrow> tt_world (sy_thread \<tau>) = tt_world (sy_thread \<sigma>) \<Longrightarrow> queue_ok \<tau>"
  unfolding queue_ok_def by simp

lemma posted_alone: "posted (alone \<sigma> job) = events_of (job_id job) \<sigma>"
  by (simp add: alone_def queue_of_def)

section \<open>What a call does to the system\<close>

lemma ctx_with_queue: "with_queue es (job_ctx_of j fs q) = job_ctx_of j fs (queue_of es)"
  by (simp add: with_queue_def job_ctx_of_def rest_job.extend_def)

lemma of_with_queue [simp]:
  "job_of (with_queue es s) = job_of s" "io_files (with_queue es s) = io_files s"
  "io_queue (with_queue es s) = queue_of es" "m_spec (with_queue es s) = m_spec s"
  by (simp_all add: with_queue_def job_of_def rest_job.truncate_def)

lemma ctx_of_with_queue: "job_ctx_of (job_of s) (io_files s) (queue_of es) = with_queue es s"
  by (simp add: with_queue_def job_ctx_of_def job_of_def rest_job.extend_def rest_job.truncate_def)

lemma mq_events_queue_of [simp]: "mq_events (queue_of es) = es"
  by (simp add: queue_of_def)

lemma foreign_files:
  assumes "job_reach spec fs s w" and "\<not> own_path spec p"
  shows "io_files s p = fs p"
  using reach_files [OF assms(1)] reach_spec [OF assms(1)] assms(2)
  by (auto simp: files_inv_def own_path_def part_name_def)

lemma sys_call_effect:
  fixes \<sigma> :: system and k :: nat and i :: job_input
  defines "job \<equiv> tt_active (sy_thread \<sigma>) ! k" and "\<tau> \<equiv> sys_call i k \<sigma>"
  assumes "queue_ok \<sigma>" and "active_ok \<sigma>" and "sys_enabled i k \<sigma>"
  shows "\<exists>job' new fs. tt_active (sy_thread \<tau>) = (tt_active (sy_thread \<sigma>))[k := job'] \<and>
    m_spec job' = m_spec job \<and> queue_ok \<tau> \<and> events \<tau> = events \<sigma> @ new \<and>
    (\<forall>e \<in> set new. ev_jobId e = job_id job) \<and>
    (\<forall>p. \<not> own_path (m_spec job) p \<longrightarrow> files_of \<tau> p = files_of \<sigma> p) \<and>
    alone \<tau> job' = job_step i (alone \<sigma> job) \<and>
    sy_wires \<tau> (job_id job) = wire_step i (alone \<sigma> job) (sy_wires \<sigma> (job_id job)) \<and>
    job_enabled i (alone \<sigma> job) (sy_wires \<sigma> (job_id job)) \<and>
    job_reach (m_spec job) fs (alone \<sigma> job) (sy_wires \<sigma> (job_id job))"
proof -
  let ?t = "sy_thread \<sigma>" and ?w = "sy_wires \<sigma> (job_id job)"
  define es where "es = mq_events (snd (tt_world ?t))"
  define own where "own = events_of (job_id job) \<sigma>"
  define s where "s = ctx_at k ?t"
  have k: "k < length (tt_active ?t)" and en: "job_enabled i s ?w"
    using assms(5) by (simp_all add: sys_enabled_def s_def job_def)
  have s: "s = with_queue es s"
    using assms(3) by (simp add: s_def ctx_at_def ctx_with_queue queue_ok_def es_def)
  have a: "alone \<sigma> job = with_queue own s"
    by (simp add: s_def ctx_at_def ctx_with_queue alone_def own_def job_def files_of_def)
  obtain fs where r: "job_reach (m_spec job) fs (with_queue own s) ?w"
    using assms(4) k a unfolding active_ok_def job_def by (metis nth_mem)
  obtain t new where step: "\<And>es. job_step i (with_queue es s) = with_queue (es @ new) t"
    using step_with_queue [of i s] by blast
  have en': "job_enabled i (with_queue own s) ?w" using en by (simp add: enabled_with_queue)
  have w': "wire_step i (with_queue own s) ?w = wire_step i s ?w"
    using s wire_with_queue [of i own s ?w es] by simp
  have r': "job_reach (m_spec job) fs (with_queue (own @ new) t) (wire_step i s ?w)"
    using job_reach.step [OF r en'] w' by (simp add: step)
  let ?job' = "job_of t"
  have spec: "m_spec t = m_spec job" using reach_spec [OF r'] by simp
  have js: "job_step i s = with_queue (es @ new) t" using step [of es] s by simp
  have fst: "tt_active (sy_thread \<tau>) = (tt_active ?t)[k := ?job']"
      "tt_world (sy_thread \<tau>) = (io_files t, queue_of (es @ new))"
    using js by (simp_all add: \<tau>_def sys_call_def Let_def on_active_def call_at_def call_job_def split_beta
        s_def ctx_at_def)
  have ev: "events \<tau> = events \<sigma> @ new"
    using fst by (simp add: events_def es_def \<tau>_def sys_call_def Let_def)
  have new: "\<forall>e \<in> set new. ev_jobId e = job_id job"
    using reach_inv [OF r'] spec by (simp add: event_inv_def job_id_def)
  have files: "\<not> own_path (m_spec job) p \<longrightarrow> files_of \<tau> p = files_of \<sigma> p" for p
    using foreign_files [OF r', of p] foreign_files [OF r, of p] fst
    by (simp add: files_of_def s_def ctx_at_def)
  have id: "job_id ?job' = job_id job" by (simp add: job_id_def spec)
  have "filter (\<lambda>e. ev_jobId e = job_id job) new = new" using new by simp
  then have "events_of (job_id job) \<tau> = own @ new" by (simp add: events_of_def ev own_def)
  then have "alone \<tau> ?job' = with_queue (own @ new) t"
    using fst by (simp add: alone_def id files_of_def ctx_of_with_queue)
  then have "alone \<tau> ?job' = job_step i (alone \<sigma> job)" by (simp add: a step)
  moreover have "sy_wires \<tau> (job_id job) = wire_step i (alone \<sigma> job) ?w"
    by (simp add: \<tau>_def sys_call_def Let_def s_def [symmetric] job_def [symmetric] a w')
  ultimately show ?thesis
    using fst ev new files r en' spec a by (intro exI [of _ ?job'] exI [of _ new] exI [of _ fs]) (auto simp: queue_ok_def)
qed

section \<open>The invariant is kept\<close>

lemma sys_invD:
  assumes "sys_inv \<sigma>"
  shows "names_ok \<sigma>" "apart_ok \<sigma>" "queue_ok \<sigma>" "events_ok \<sigma>" "active_ok \<sigma>" "gone_ok \<sigma>"
  using assms by (simp_all add: sys_inv_def)

lemma sys_call_select [simp]:
  "sy_submitted (sys_call i k \<sigma>) = sy_submitted \<sigma>" "pending (sys_call i k \<sigma>) = pending \<sigma>"
  "jobId \<noteq> job_id (tt_active (sy_thread \<sigma>) ! k) \<Longrightarrow> sy_wires (sys_call i k \<sigma>) jobId = sy_wires \<sigma> jobId"
  by (simp_all add: sys_call_def Let_def pending_def)

text \<open>To a job, what another one does in the shared world is a step of the others.\<close>

lemma reach_elsewhere:
  assumes "job_reach (m_spec b) fs (alone \<sigma> b) w"
    and "events_of (job_id b) \<tau> = events_of (job_id b) \<sigma>"
    and "\<And>p. own_path (m_spec b) p \<Longrightarrow> files_of \<tau> p = files_of \<sigma> p"
  shows "\<exists>fs'. job_reach (m_spec b) fs' (alone \<tau> b) w"
proof -
  have "alone \<tau> b = (alone \<sigma> b)\<lparr>io_files := files_of \<tau>\<rparr>"
    by (simp add: alone_def assms(2) job_ctx_of_def rest_job.extend_def)
  then show ?thesis
    using job_reach.others [OF assms(1), of "files_of \<tau>"] assms(3) by (auto simp: alone_def)
qed

text \<open>The statements about names depend on which requests are in flight only.\<close>

lemma names_cong:
  assumes "map m_spec (in_flight \<tau>) = map m_spec (in_flight \<sigma>)" "pending \<tau> = pending \<sigma>"
    "sy_submitted \<tau> = sy_submitted \<sigma>"
  shows "job_id ` set (in_flight \<tau>) = job_id ` set (in_flight \<sigma>)"
    and "names_ok \<sigma> \<Longrightarrow> names_ok \<tau>" and "apart_ok \<sigma> \<Longrightarrow> apart_ok \<tau>"
proof -
  have ids: "map job_id (in_flight \<tau>) = map job_id (in_flight \<sigma>)"
    using assms(1) by (simp add: job_id_def [abs_def]) (metis (no_types, lifting) map_map o_def map_eq_conv)
  then show "job_id ` set (in_flight \<tau>) = job_id ` set (in_flight \<sigma>)" by (metis set_map)
  have specs: "m_spec ` set (in_flight \<tau>) = m_spec ` set (in_flight \<sigma>)" using assms(1) by (metis set_map)
  show "names_ok \<sigma> \<Longrightarrow> names_ok \<tau>" using assms(2,3) ids specs by (simp add: names_ok_def)
  assume apart: "apart_ok \<sigma>"
  show "apart_ok \<tau>"
    unfolding apart_ok_def
  proof (intro ballI impI)
    fix a b
    assume ab: "a \<in> set (in_flight \<tau>)" "b \<in> set (in_flight \<tau>)" "job_id a \<noteq> job_id b"
    then obtain a' b' where "a' \<in> set (in_flight \<sigma>)" "m_spec a' = m_spec a" "b' \<in> set (in_flight \<sigma>)" "m_spec b' = m_spec b"
      using specs by (metis (no_types, opaque_lifting) imageE imageI)
    with apart ab(3) show "\<forall>p. \<not> (own_path (m_spec a) p \<and> own_path (m_spec b) p)"
      unfolding apart_ok_def job_id_def by metis
  qed
qed

lemma sys_inv_call:
  assumes inv: "sys_inv \<sigma>" and en: "sys_enabled i k \<sigma>"
  shows "sys_inv (sys_call i k \<sigma>)"
proof -
  let ?\<tau> = "sys_call i k \<sigma>" and ?A = "tt_active (sy_thread \<sigma>)"
  define job where "job = ?A ! k"
  note I = sys_invD [OF inv]
  obtain job' new fs where e: "tt_active (sy_thread ?\<tau>) = ?A[k := job']" "m_spec job' = m_spec job"
      "queue_ok ?\<tau>" "events ?\<tau> = events \<sigma> @ new" "\<forall>e \<in> set new. ev_jobId e = job_id job"
      "\<forall>p. \<not> own_path (m_spec job) p \<longrightarrow> files_of ?\<tau> p = files_of \<sigma> p"
      "alone ?\<tau> job' = job_step i (alone \<sigma> job)"
      "sy_wires ?\<tau> (job_id job) = wire_step i (alone \<sigma> job) (sy_wires \<sigma> (job_id job))"
      "job_enabled i (alone \<sigma> job) (sy_wires \<sigma> (job_id job))"
      "job_reach (m_spec job) fs (alone \<sigma> job) (sy_wires \<sigma> (job_id job))"
    using sys_call_effect [OF I(3,5) en] unfolding job_def by blast
  have reach: "job_reach (m_spec job) fs (alone ?\<tau> job') (sy_wires ?\<tau> (job_id job))"
    using job_reach.step [OF e(10,9)] by (simp add: e(7,8))
  have k: "k < length ?A" "job \<in> set ?A" using en by (simp_all add: sys_enabled_def job_def)
  have specs: "map m_spec (in_flight ?\<tau>) = map m_spec (in_flight \<sigma>)"
    using e(1,2) k by (simp add: in_flight_def map_update job_def) (metis list_update_id nth_map)
  note same = names_cong [OF specs sys_call_select(2,1)]
  have names: "names_ok ?\<tau>" and apart: "apart_ok ?\<tau>" by (rule same(2) [OF I(1)], rule same(3) [OF I(2)])
  have elsewhere: "events_of jobId ?\<tau> = events_of jobId \<sigma>" if "jobId \<noteq> job_id job" for jobId
    using e(4,5) that by (simp add: events_of_def filter_empty_conv)
  have "job_id job \<notin> job_id ` set (pending \<sigma>)" "job_id job \<in> spec_id ` set (sy_submitted \<sigma>)"
    using I(1) k(2) by (auto simp: names_ok_def in_flight_def job_id_def)
  with I(4) e(4,5) have events: "events_ok ?\<tau>" by (auto simp: events_ok_def)
  have "\<exists>fs. job_reach (m_spec b) fs (alone ?\<tau> b) (sy_wires ?\<tau> (job_id b))"
    if b: "b \<in> set (tt_active (sy_thread ?\<tau>))" for b
  proof (cases "job_id b = job_id job")
    case True
    have "job_id job' = job_id job" by (simp add: job_id_def e(2))
    moreover have "job' \<in> set (in_flight ?\<tau>)" "b \<in> set (in_flight ?\<tau>)"
      using b k(1) e(1) by (auto simp: in_flight_def set_update_memI)
    ultimately have "b = job'"
      using True names unfolding names_ok_def by (metis distinct_map inj_onD)
    then show ?thesis using e(2) reach True by auto
  next
    case False
    then have old: "b \<in> set ?A"
      using b e(1,2) set_update_subset_insert [of ?A k job'] by (auto simp: job_id_def)
    then obtain fs where r: "job_reach (m_spec b) fs (alone \<sigma> b) (sy_wires \<sigma> (job_id b))"
      using I(5) by (auto simp: active_ok_def)
    have "files_of ?\<tau> p = files_of \<sigma> p" if "own_path (m_spec b) p" for p
      using I(2) e(6) old k(2) False that unfolding apart_ok_def in_flight_def by (metis Un_iff set_append)
    from reach_elsewhere [OF r elsewhere [OF False] this] show ?thesis using False by (simp add: job_def)
  qed
  then have active: "active_ok ?\<tau>" by (simp add: active_ok_def)
  have "job_id job \<in> job_id ` set (in_flight \<sigma>)" using k(2) by (simp add: in_flight_def)
  then have "gone_ok ?\<tau>"
    using I(6) elsewhere unfolding gone_ok_def same(1) by (metis job_def sys_call_select(1,3))
  with names apart e(3) events active show ?thesis by (simp add: sys_inv_def)
qed

lemma new_job_select [simp]: "m_spec (new_job spec) = spec" "job_id (new_job spec) = spec_id spec"
  by (simp_all add: new_job_def job_id_def)

lemma alone_new: "events_of (spec_id spec) \<sigma> = [] \<Longrightarrow> alone \<sigma> (new_job spec) = job_start spec (files_of \<sigma>)"
  by (simp add: alone_def job_start_def queue_default_of)

lemma pending_silent:
  assumes "events_ok \<sigma>" "job \<in> set (pending \<sigma>)"
  shows "events_of (job_id job) \<sigma> = []"
  using assms by (auto simp: events_ok_def events_of_def filter_empty_conv)

lemma sys_inv_admitted:
  assumes inv: "sys_inv \<sigma>" and taken: "sy_taken \<sigma> \<noteq> []"
  shows "sys_inv (sys_admitted \<sigma>)" and "sys_enabled (InBegin h) (length (tt_active (sy_thread \<sigma>))) (sys_admitted \<sigma>)"
    and "hd (sy_taken \<sigma>) = new_job (m_spec (hd (sy_taken \<sigma>)))"
    and "\<And>b. b \<in> set (tt_active (sy_thread \<sigma>)) \<Longrightarrow> job_id b \<noteq> job_id (hd (sy_taken \<sigma>))"
proof -
  obtain job rest where jr: "sy_taken \<sigma> = job # rest" using taken by (cases "sy_taken \<sigma>") auto
  let ?A = "tt_active (sy_thread \<sigma>)"
  define \<tau> where "\<tau> = sys_admitted \<sigma>"
  have \<tau>: "\<tau> = \<sigma>\<lparr>sy_thread := (sy_thread \<sigma>)\<lparr>tt_active := ?A @ [job]\<rparr>, sy_taken := rest,
      sy_wires := (sy_wires \<sigma>)(job_id job := wire_start)\<rparr>"
    by (simp add: \<tau>_def sys_admitted_def jr Let_def)
  note I = sys_invD [OF inv]
  have p: "job \<in> set (pending \<sigma>)" "set (pending \<tau>) \<subseteq> set (pending \<sigma>)"
    by (auto simp: jr pending_def \<tau>)
  have same: "in_flight \<tau> = in_flight \<sigma>" "files_of \<tau> = files_of \<sigma>" "events \<tau> = events \<sigma>"
      "sy_submitted \<tau> = sy_submitted \<sigma>" "tt_active (sy_thread \<tau>) = ?A @ [job]"
    by (simp_all add: \<tau> in_flight_def pending_def jr files_of_def events_def)
  have alone: "alone \<tau> b = alone \<sigma> b" for b by (simp add: alone_def same events_of_def)
  have new: "job = new_job (m_spec job)" using I(1) p(1) by (simp add: names_ok_def)
  have "job_id job \<notin> job_id ` set ?A" using I(1) jr by (simp add: names_ok_def in_flight_def pending_def)
  then have other: "job_id b \<noteq> job_id job" if "b \<in> set ?A" for b using that by (metis imageI)
  have "alone \<sigma> job = job_start (m_spec job) (files_of \<sigma>)"
    using pending_silent [OF I(4) p(1)] alone_new [of "m_spec job" \<sigma>] new by (metis new_job_select(2))
  then have "job_reach (m_spec job) (files_of \<sigma>) (alone \<sigma> job) wire_start" by (simp add: job_reach.start)
  with I(5) other have "active_ok \<tau>"
    by (auto simp: active_ok_def same(5) alone) (auto simp: \<tau>)
  moreover have "names_ok \<tau>" "apart_ok \<tau>" using I(1,2) p(2) by (auto simp: names_ok_def apart_ok_def same)
  moreover have "queue_ok \<tau>" using I(3) by (simp add: queue_ok_def \<tau>)
  moreover have "events_ok \<tau>" using I(4) p(2) unfolding events_ok_def same by blast
  moreover have "gone_ok \<tau>"
  proof -
    have "job_id job \<in> job_id ` set (in_flight \<sigma>)" using p(1) by (simp add: in_flight_def)
    then have wires: "sy_wires \<tau> (spec_id spec) = sy_wires \<sigma> (spec_id spec)"
      if "spec_id spec \<notin> job_id ` set (in_flight \<sigma>)" for spec
      using that by (auto simp: \<tau>)
    show ?thesis
      using I(6) unfolding gone_ok_def same events_of_def by (intro ballI impI) (simp add: wires)
  qed
  ultimately have "sys_inv \<tau>" by (simp add: sys_inv_def)
  then show "sys_inv (sys_admitted \<sigma>)" by (simp add: \<tau>_def)
  obtain spec where spec: "job = new_job spec" using new by blast
  then have "sys_enabled (InBegin h) (length ?A) \<tau>"
    by (simp add: sys_enabled_def same ctx_at_def) (simp add: new_job_def)
  then show "sys_enabled (InBegin h) (length ?A) (sys_admitted \<sigma>)" by (simp add: \<tau>_def)
  show "hd (sy_taken \<sigma>) = new_job (m_spec (hd (sy_taken \<sigma>)))" using new jr by simp
  show "job_id b \<noteq> job_id (hd (sy_taken \<sigma>))" if "b \<in> set ?A" for b using other that jr by simp
qed

lemma sys_inv_admit: "sys_inv \<sigma> \<Longrightarrow> sy_taken \<sigma> \<noteq> [] \<Longrightarrow> sys_inv (sys_admit h \<sigma>)"
  unfolding sys_admit_def by (rule sys_inv_call) (simp_all add: sys_inv_admitted)

lemma sys_inv_submit:
  assumes inv: "sys_inv \<sigma>" and fresh: "fresh_request spec \<sigma>"
  shows "sys_inv (sys_submit spec \<sigma>)"
proof -
  let ?\<tau> = "sys_submit spec \<sigma>"
  note I = sys_invD [OF inv]
  have same: "in_flight ?\<tau> = in_flight \<sigma> @ [new_job spec]" "pending ?\<tau> = pending \<sigma> @ [new_job spec]"
      "files_of ?\<tau> = files_of \<sigma>" "events ?\<tau> = events \<sigma>" "sy_submitted ?\<tau> = sy_submitted \<sigma> @ [spec]"
      "tt_active (sy_thread ?\<tau>) = tt_active (sy_thread \<sigma>)" "sy_wires ?\<tau> = sy_wires \<sigma>"
    by (simp_all add: sys_submit_def enqueue_def in_flight_def pending_def files_of_def events_def)
  have fid: "spec_id spec \<notin> spec_id ` set (sy_submitted \<sigma>)" using fresh by (simp add: fresh_request_def)
  then have "spec_id spec \<notin> job_id ` set (in_flight \<sigma>)"
    using I(1) by (auto simp: names_ok_def job_id_def)
  with I(1) fid have "names_ok ?\<tau>" by (auto simp: names_ok_def same)
  moreover have "apart_ok ?\<tau>"
    using I(2) fresh by (auto simp: apart_ok_def fresh_request_def same)
  moreover have "queue_ok ?\<tau>" using I(3) by (simp add: queue_ok_def sys_submit_def enqueue_def)
  moreover have "events_ok ?\<tau>" using I(4) fid by (auto simp: events_ok_def same)
  moreover have "active_ok ?\<tau>" "gone_ok ?\<tau>"
    using I(5,6) by (auto simp: active_ok_def gone_ok_def same alone_def events_of_def)
  ultimately show ?thesis by (simp add: sys_inv_def)
qed

lemma sys_inv_remove:
  assumes inv: "sys_inv \<sigma>"
  shows "sys_inv (\<sigma>\<lparr>sy_thread := remove_finished (sy_thread \<sigma>)\<rparr>)"
proof -
  define \<tau> where "\<tau> = \<sigma>\<lparr>sy_thread := remove_finished (sy_thread \<sigma>)\<rparr>"
  let ?A = "tt_active (sy_thread \<sigma>)"
  note I = sys_invD [OF inv]
  have same: "pending \<tau> = pending \<sigma>" "files_of \<tau> = files_of \<sigma>" "events \<tau> = events \<sigma>"
      "sy_submitted \<tau> = sy_submitted \<sigma>" "sy_wires \<tau> = sy_wires \<sigma>"
      "tt_active (sy_thread \<tau>) = filter (\<lambda>job. \<not> m_finished job) ?A"
    by (simp_all add: \<tau>_def remove_finished_def pending_def files_of_def events_def)
  then have flight: "in_flight \<tau> = filter (\<lambda>job. \<not> m_finished job) ?A @ pending \<sigma>" by (simp add: in_flight_def)
  then have sub: "set (in_flight \<tau>) \<subseteq> set (in_flight \<sigma>)" by (auto simp: in_flight_def)
  have "distinct (map job_id (in_flight \<tau>))"
    using I(1) by (subst flight) (auto simp: names_ok_def in_flight_def distinct_map_filter)
  then have "names_ok \<tau>" using I(1) sub by (auto simp: names_ok_def same)
  moreover have "apart_ok \<tau>" using I(2) sub by (auto simp: apart_ok_def)
  moreover have "queue_ok \<tau>" using I(3) by (simp add: queue_ok_def \<tau>_def remove_finished_def)
  moreover have "events_ok \<tau>" using I(4) by (simp add: events_ok_def same)
  moreover have "active_ok \<tau>" using I(5) by (simp add: active_ok_def same alone_def events_of_def)
  moreover have "\<exists>fs s. job_reach spec fs s (sy_wires \<sigma> (spec_id spec)) \<and> m_finished s \<and>
      posted s = events_of (spec_id spec) \<sigma>"
    if spec: "spec \<in> set (sy_submitted \<sigma>)" "spec_id spec \<notin> job_id ` set (in_flight \<tau>)" for spec
  proof (cases "spec_id spec \<in> job_id ` set (in_flight \<sigma>)")
    case True
    then obtain job where "job \<in> set (in_flight \<sigma>)" "job_id job = spec_id spec" by (metis imageE)
    moreover from this have "job \<notin> set (in_flight \<tau>)" using spec(2) by (metis imageI)
    ultimately have job: "job \<in> set ?A" "job_id job = spec_id spec" "m_finished job"
      unfolding flight by (auto simp: in_flight_def)
    then have "m_spec job = spec"
      using I(1) spec(1) unfolding names_ok_def job_id_def in_flight_def
      by (metis (no_types, lifting) UnCI distinct_map image_subset_iff inj_onD set_append)
    with job I(5) obtain fs where "job_reach spec fs (alone \<sigma> job) (sy_wires \<sigma> (spec_id spec))"
      unfolding active_ok_def by metis
    moreover have "m_finished (alone \<sigma> job)" using job(3) by (simp add: alone_def)
    ultimately show ?thesis using posted_alone [of \<sigma> job] job(2) by auto
  next
    case False
    with I(6) spec(1) show ?thesis by (auto simp: gone_ok_def)
  qed
  then have "gone_ok \<tau>" by (auto simp: gone_ok_def same events_of_def)
  ultimately have "sys_inv \<tau>" by (simp add: sys_inv_def)
  then show ?thesis by (simp add: \<tau>_def)
qed

end
