(* ===== verification/Rest_Credit.thy ===== *)
theory Rest_Credit
  imports Rest_System
begin

text \<open>
  The credit of streamed jobs in the whole system: what the main thread gives back is never more than
  it was given, and what a running job counts as outstanding is exactly what it has posted less what
  has been credited to it. With it, every reachable state satisfies the invariant of \<open>Rest_System\<close>.
\<close>

section \<open>The balance of every stream\<close>

definition credits_of :: "system \<Rightarrow> (int \<times> int) list" where
  "credits_of \<sigma> = sy_credits \<sigma> @ tt_consumeRequests (sy_thread \<sigma>)"

lemma asked_eq: "asked jobId \<sigma> = sum_list (map snd (filter (\<lambda>r. fst r = jobId) (credits_of \<sigma>)))"
  by (simp add: asked_def credits_of_def)

definition credit_ok :: "system \<Rightarrow> bool" where
  "credit_ok \<sigma> \<longleftrightarrow>
     (\<forall>jobId. 0 \<le> sy_applied \<sigma> jobId \<and> sy_applied \<sigma> jobId + asked jobId \<sigma> \<le> given jobId \<sigma>) \<and>
     (\<forall>r \<in> set (credits_of \<sigma>). 0 \<le> snd r)"

text \<open>What a running job counts as outstanding is what it has posted less what was credited to it.\<close>

definition balance_ok :: "system \<Rightarrow> bool" where
  "balance_ok \<sigma> \<longleftrightarrow>
     (\<forall>job \<in> set (tt_active (sy_thread \<sigma>)). \<not> m_finished job \<longrightarrow>
        m_pendingStreamBytes job = int (length (data_bytes (events_of (job_id job) \<sigma>))) - sy_applied \<sigma> (job_id job))"

definition started_ok :: "system \<Rightarrow> bool" where
  "started_ok \<sigma> \<longleftrightarrow> (\<forall>job \<in> set (tt_active (sy_thread \<sigma>)). m_attempt job > 0)"

definition flow_ok :: "system \<Rightarrow> bool" where
  "flow_ok \<sigma> \<longleftrightarrow> credit_ok \<sigma> \<and> balance_ok \<sigma> \<and> started_ok \<sigma>"

lemma flow_ok_frame:
  assumes "flow_ok \<sigma>" "credits_of \<tau> = credits_of \<sigma>" "set (tt_active (sy_thread \<tau>)) \<subseteq> set (tt_active (sy_thread \<sigma>))"
    "events \<tau> = events \<sigma>" "\<And>jobId. given jobId \<sigma> \<le> given jobId \<tau>" "sy_applied \<tau> = sy_applied \<sigma>"
  shows "flow_ok \<tau>"
proof -
  have "credit_ok \<tau>"
    using assms(1,5) unfolding flow_ok_def credit_ok_def asked_eq assms(2,6) by (meson order.trans)
  moreover have "balance_ok \<tau>" "started_ok \<tau>"
    using assms(1,3) by (auto simp: flow_ok_def balance_ok_def started_ok_def events_of_def assms(4,6))
  ultimately show ?thesis by (simp add: flow_ok_def)
qed

lemma asked_nonneg: "credit_ok \<sigma> \<Longrightarrow> 0 \<le> asked jobId \<sigma>"
  unfolding credit_ok_def asked_eq by (intro sum_list_nonneg) auto

lemma given_le: "given jobId \<sigma> \<le> int (length (data_bytes (events_of jobId \<sigma>)))"
  by (simp add: given_def events_of_def events_def)

lemma pending_alone: "m_pendingStreamBytes (alone \<sigma> job) = m_pendingStreamBytes job"
  "m_finished (alone \<sigma> job) = m_finished job" "m_attempt (alone \<sigma> job) = m_attempt job"
  "posted_bytes (alone \<sigma> job) = int (length (data_bytes (events_of (job_id job) \<sigma>)))"
  by (simp_all add: alone_def job_ctx_of_def rest_job.extend_def posted_bytes_def queue_of_def)

text \<open>The balance after a call, from the balance of the job before it and its credit after it.\<close>

lemma balance_call:
  assumes inv: "sys_inv \<sigma>" and en: "sys_enabled i k \<sigma>"
    and others: "\<And>job. job \<in> set (tt_active (sy_thread \<sigma>)) \<Longrightarrow> job_id job \<noteq> job_id (tt_active (sy_thread \<sigma>) ! k) \<Longrightarrow>
      \<not> m_finished job \<Longrightarrow> m_pendingStreamBytes job = posted_bytes (alone \<sigma> job) - sy_applied \<sigma> (job_id job)"
    and self: "case i of
        InConsumed bytes \<Rightarrow> bytes \<le> m_pendingStreamBytes (tt_active (sy_thread \<sigma>) ! k) \<and>
          m_pendingStreamBytes (tt_active (sy_thread \<sigma>) ! k) - bytes =
            posted_bytes (alone \<sigma> (tt_active (sy_thread \<sigma>) ! k)) - sy_applied \<sigma> (job_id (tt_active (sy_thread \<sigma>) ! k))
      | InBegin h \<Rightarrow> posted_bytes (alone \<sigma> (tt_active (sy_thread \<sigma>) ! k)) = 0 \<longrightarrow>
          sy_applied \<sigma> (job_id (tt_active (sy_thread \<sigma>) ! k)) = 0
      | _ \<Rightarrow> m_pendingStreamBytes (tt_active (sy_thread \<sigma>) ! k) =
            posted_bytes (alone \<sigma> (tt_active (sy_thread \<sigma>) ! k)) - sy_applied \<sigma> (job_id (tt_active (sy_thread \<sigma>) ! k))"
  shows "balance_ok (sys_call i k \<sigma>)"
  unfolding balance_ok_def
proof (intro ballI impI)
  let ?\<tau> = "sys_call i k \<sigma>" and ?A = "tt_active (sy_thread \<sigma>)"
  define job where "job = ?A ! k"
  note I = sys_invD [OF inv]
  obtain job' new fs where e: "tt_active (sy_thread ?\<tau>) = ?A[k := job']" "m_spec job' = m_spec job"
      "events ?\<tau> = events \<sigma> @ new" "\<forall>e \<in> set new. ev_jobId e = job_id job"
      "alone ?\<tau> job' = job_step i (alone \<sigma> job)"
      "job_enabled i (alone \<sigma> job) (sy_wires \<sigma> (job_id job))"
      "job_reach (m_spec job) fs (alone \<sigma> job) (sy_wires \<sigma> (job_id job))"
    using sys_call_effect [OF I(3,5) en] unfolding job_def by blast
  have k: "k < length ?A" "job \<in> set ?A" using en by (simp_all add: sys_enabled_def job_def)
  have id: "job_id job' = job_id job" by (simp add: job_id_def e(2))
  have app: "sy_applied ?\<tau> = sy_applied \<sigma>" by (simp add: sys_call_def Let_def)
  fix b
  assume b: "b \<in> set (tt_active (sy_thread ?\<tau>))" and nf: "\<not> m_finished b"
  show "m_pendingStreamBytes b = int (length (data_bytes (events_of (job_id b) ?\<tau>))) - sy_applied ?\<tau> (job_id b)"
  proof (cases "job_id b = job_id job")
    case True
    have "distinct (map job_id (tt_active (sy_thread ?\<tau>)))"
      using sys_inv_call [OF inv en] by (simp add: sys_inv_def names_ok_def in_flight_def)
    moreover have "job' \<in> set (tt_active (sy_thread ?\<tau>))" using k(1) e(1) by (simp add: set_update_memI)
    ultimately have b': "b = job'" using b True id by (metis distinct_map inj_onD)
    have nf': "\<not> m_finished (job_step i (alone \<sigma> job))" using nf b' pending_alone(2) [of ?\<tau> job'] e(5) by simp
    note bal = step_balance [OF e(7,6) nf']
    have "m_pendingStreamBytes (alone ?\<tau> job') = posted_bytes (alone ?\<tau> job') - sy_applied \<sigma> (job_id job)"
      using bal self unfolding e(5) job_def [symmetric]
      by (cases i) (simp_all add: balanced_def pending_alone(1))
    then show ?thesis using b' id by (simp add: pending_alone(1,4) app)
  next
    case False
    then have "b \<in> set ?A" using b e(1) id set_update_subset_insert [of ?A k job'] by auto
    moreover have "events_of (job_id b) ?\<tau> = events_of (job_id b) \<sigma>"
      using e(3,4) False by (simp add: events_of_def filter_empty_conv)
    ultimately show ?thesis using others [of b] False nf app pending_alone(4) [of \<sigma> b] by (simp add: job_def)
  qed
qed

lemma enabled_running:
  assumes "sys_inv \<sigma>" "sys_enabled i k \<sigma>"
  shows "\<not> m_finished (tt_active (sy_thread \<sigma>) ! k)"
proof -
  let ?job = "tt_active (sy_thread \<sigma>) ! k"
  obtain fs where r: "job_reach (m_spec ?job) fs (alone \<sigma> ?job) (sy_wires \<sigma> (job_id ?job))"
      and en: "job_enabled i (alone \<sigma> ?job) (sy_wires \<sigma> (job_id ?job))"
    using sys_call_effect [OF sys_invD(3,5) [OF assms(1)] assms(2)] by blast
  have "life_inv (alone \<sigma> ?job)" using reach_inv [OF r] by blast
  then have "\<not> m_finished (alone \<sigma> ?job)" using en by (cases i) (auto simp: life_inv_def)
  then show ?thesis by (simp add: pending_alone)
qed

lemma balance_okD:
  "balance_ok \<sigma> \<Longrightarrow> job \<in> set (tt_active (sy_thread \<sigma>)) \<Longrightarrow> \<not> m_finished job \<Longrightarrow>
     m_pendingStreamBytes job = posted_bytes (alone \<sigma> job) - sy_applied \<sigma> (job_id job)"
  by (simp add: balance_ok_def pending_alone)

lemma applied_le: "credit_ok \<sigma> \<Longrightarrow> 0 \<le> sy_applied \<sigma> (job_id job) \<and>
    sy_applied \<sigma> (job_id job) + asked (job_id job) \<sigma> \<le> posted_bytes (alone \<sigma> job)"
  using given_le [of "job_id job" \<sigma>] by (simp add: credit_ok_def pending_alone) (meson order.trans)

lemma call_credit:
  "credits_of (sys_call i k \<sigma>) = credits_of \<sigma>" "sy_applied (sys_call i k \<sigma>) = sy_applied \<sigma>"
  "given jobId (sys_call i k \<sigma>) = given jobId \<sigma>" "asked jobId (sys_call i k \<sigma>) = asked jobId \<sigma>"
  by (simp_all add: asked_eq) (simp_all add: credits_of_def given_def sys_call_def Let_def)

lemma call_thread:
  "k < length (tt_active (sy_thread \<sigma>)) \<Longrightarrow>
     tt_active (sy_thread (sys_call i k \<sigma>)) =
       (tt_active (sy_thread \<sigma>))[k := job_of (job_step i (ctx_at k (sy_thread \<sigma>)))]"
  by (simp add: sys_call_def Let_def on_active_def call_at_def call_job_def split_beta ctx_at_def)

lemma started_call:
  assumes "\<And>j. j < length (tt_active (sy_thread \<sigma>)) \<Longrightarrow> j \<noteq> k \<Longrightarrow> m_attempt (tt_active (sy_thread \<sigma>) ! j) > 0"
    and "k < length (tt_active (sy_thread \<sigma>))"
    and "m_attempt (tt_active (sy_thread \<sigma>) ! k) > 0 \<or>
      m_attempt (tt_active (sy_thread \<sigma>) ! k) = 0 \<and> (\<exists>h. i = InBegin h)"
  shows "started_ok (sys_call i k \<sigma>)"
proof -
  have "0 < m_attempt (job_step i (ctx_at k (sy_thread \<sigma>)))"
    using step_attempt [of "ctx_at k (sy_thread \<sigma>)"] assms(3) by (auto simp: ctx_at_def) (smt (verit) job_ctx_select(6))+
  then show ?thesis
    using assms(1,2) by (simp add: started_ok_def call_thread all_set_conv_all_nth nth_list_update)
qed

lemma flow_ok_call:
  assumes inv: "sys_inv \<sigma>" and flow: "flow_ok \<sigma>" and en: "sys_enabled i k \<sigma>" and i: "\<forall>bytes. i \<noteq> InConsumed bytes"
  shows "flow_ok (sys_call i k \<sigma>)"
proof -
  let ?job = "tt_active (sy_thread \<sigma>) ! k"
  have c: "credit_ok \<sigma>" and b: "balance_ok \<sigma>" and s: "started_ok \<sigma>" using flow by (simp_all add: flow_ok_def)
  have k: "k < length (tt_active (sy_thread \<sigma>))" "?job \<in> set (tt_active (sy_thread \<sigma>))"
    using en by (simp_all add: sys_enabled_def)
  have "posted_bytes (alone \<sigma> ?job) = 0 \<longrightarrow> sy_applied \<sigma> (job_id ?job) = 0"
    using applied_le [OF c, of ?job] asked_nonneg [OF c, of "job_id ?job"] by linarith
  moreover have "m_pendingStreamBytes ?job = posted_bytes (alone \<sigma> ?job) - sy_applied \<sigma> (job_id ?job)"
    by (rule balance_okD [OF b k(2) enabled_running [OF inv en]])
  ultimately have "balance_ok (sys_call i k \<sigma>)"
    using i balance_okD [OF b] by (intro balance_call [OF inv en]) (auto split: job_input.split)
  moreover have "credit_ok (sys_call i k \<sigma>)" using c by (simp add: credit_ok_def call_credit)
  moreover have "started_ok (sys_call i k \<sigma>)" using s k by (intro started_call) (auto simp: started_ok_def)
  ultimately show ?thesis by (simp add: flow_ok_def)
qed

text \<open>The requests of the main thread meet jobs that may be cancelled and credited.\<close>

lemma enabled_active:
  assumes "started_ok \<sigma>" "find_active jobId (sy_thread \<sigma>) = Some k"
  shows "sys_enabled InCancel k \<sigma>" and "bytes \<ge> 0 \<Longrightarrow> sys_enabled (InConsumed bytes) k \<sigma>"
  using assms(1) find_active_SomeD [OF assms(2)]
  by (simp_all add: sys_enabled_def ctx_at_def started_ok_def)

lemma sys_inv_locals:
  assumes "sys_inv \<sigma>"
  shows "sys_inv (\<sigma>\<lparr>sy_cancels := cs\<rparr>)" "sys_inv (\<sigma>\<lparr>sy_credits := rs, sy_applied := f\<rparr>)"
  using sys_invD(3) [OF assms]
  by (auto intro!: sys_inv_frame [OF assms] simp: queue_ok_def pending_def files_of_def events_def)

lemma kept_cancel_next:
  assumes inv: "sys_inv \<sigma>" and flow: "flow_ok \<sigma>"
  shows "sys_inv (sys_cancel_next \<sigma>) \<and> flow_ok (sys_cancel_next \<sigma>)"
proof -
  let ?\<tau> = "\<sigma>\<lparr>sy_cancels := tl (sy_cancels \<sigma>)\<rparr>"
  have t: "sys_inv ?\<tau>" by (rule sys_inv_locals [OF inv])
  have f: "flow_ok ?\<tau>" by (rule flow_ok_frame [OF flow]) (simp_all add: credits_of_def events_def given_def)
  show ?thesis
  proof (cases "find_active (hd (sy_cancels \<sigma>)) (sy_thread \<sigma>)")
    case None
    with t f show ?thesis by (simp add: sys_cancel_next_def)
  next
    case (Some k)
    then have "sys_enabled InCancel k ?\<tau>" using f by (intro enabled_active(1)) (simp_all add: flow_ok_def)
    with Some t f sys_inv_call flow_ok_call show ?thesis by (simp add: sys_cancel_next_def)
  qed
qed

lemma kept_consume_next:
  assumes inv: "sys_inv \<sigma>" and flow: "flow_ok \<sigma>" and ne: "sy_credits \<sigma> \<noteq> []"
  shows "sys_inv (sys_consume_next \<sigma>) \<and> flow_ok (sys_consume_next \<sigma>)"
proof -
  obtain jobId bytes rest where r: "sy_credits \<sigma> = (jobId, bytes) # rest" using ne by (cases "sy_credits \<sigma>") auto
  define \<tau> where "\<tau> = \<sigma>\<lparr>sy_credits := rest, sy_applied := (sy_applied \<sigma>)(jobId := sy_applied \<sigma> jobId + bytes)\<rparr>"
  have c: "credit_ok \<sigma>" and b: "balance_ok \<sigma>" and s: "started_ok \<sigma>" using flow by (simp_all add: flow_ok_def)
  have t: "sys_inv \<tau>" unfolding \<tau>_def by (rule sys_inv_locals [OF inv])
  have bytes: "bytes \<ge> 0" using c r by (simp add: credit_ok_def credits_of_def)
  have asked: "asked i \<sigma> = (if i = jobId then bytes else 0) + asked i \<tau>" for i
    by (simp add: asked_def r \<tau>_def)
  have same: "given i \<tau> = given i \<sigma>" "alone \<tau> job = alone \<sigma> job" "sy_thread \<tau> = sy_thread \<sigma>"
      "events_of i \<tau> = events_of i \<sigma>" for i job
    by (simp_all add: \<tau>_def given_def alone_def files_of_def events_of_def events_def)
  have app: "sy_applied \<tau> i = sy_applied \<sigma> i + (if i = jobId then bytes else 0)" for i by (simp add: \<tau>_def)
  have ct: "credit_ok \<tau>"
    unfolding credit_ok_def same(1) app
  proof (intro conjI allI)
    fix i
    show "0 \<le> sy_applied \<sigma> i + (if i = jobId then bytes else 0)" using c bytes by (simp add: credit_ok_def)
    show "sy_applied \<sigma> i + (if i = jobId then bytes else 0) + asked i \<tau> \<le> given i \<sigma>"
      using c asked [of i] unfolding credit_ok_def by (smt (verit))
  next
    show "\<forall>r \<in> set (credits_of \<tau>). 0 \<le> snd r" using c r by (simp add: credit_ok_def credits_of_def \<tau>_def)
  qed
  have st: "started_ok \<tau>" using s by (simp add: started_ok_def same(3))
  show ?thesis
  proof (cases "find_active jobId (sy_thread \<sigma>)")
    case None
    then have "balance_ok \<tau>"
      using b by (auto simp: find_active_None balance_ok_def same app)
    with None t ct st show ?thesis by (simp add: sys_consume_next_def r \<tau>_def flow_ok_def)
  next
    case (Some k)
    note k = find_active_SomeD [OF Some]
    let ?job = "tt_active (sy_thread \<sigma>) ! k"
    have en: "sys_enabled (InConsumed bytes) k \<tau>"
      using enabled_active(2) [OF st _ bytes, of jobId k] Some by (simp add: same(3))
    have bal: "m_pendingStreamBytes ?job = posted_bytes (alone \<sigma> ?job) - sy_applied \<sigma> jobId"
      using balance_okD [OF b, of ?job] k by simp
    have "bytes \<le> m_pendingStreamBytes ?job"
      using bal applied_le [OF c, of ?job] k asked [of jobId] asked_nonneg [OF ct, of jobId] by simp
    then have "balance_ok (sys_call (InConsumed bytes) k \<tau>)"
      using bal k balance_okD [OF b] by (intro balance_call [OF t en]) (simp_all add: same app)
    moreover have "credit_ok (sys_call (InConsumed bytes) k \<tau>)" using ct by (simp add: credit_ok_def call_credit)
    moreover have "started_ok (sys_call (InConsumed bytes) k \<tau>)"
      using st k by (intro started_call) (auto simp: started_ok_def same(3))
    ultimately have "flow_ok (sys_call (InConsumed bytes) k \<tau>)" by (simp add: flow_ok_def)
    moreover have "sys_consume_next \<sigma> = sys_call (InConsumed bytes) k \<tau>"
      by (simp add: sys_consume_next_def r Some \<tau>_def)
    ultimately show ?thesis using sys_inv_call [OF t en] by simp
  qed
qed

lemma flow_ok_admit:
  assumes inv: "sys_inv \<sigma>" and flow: "flow_ok \<sigma>" and taken: "sy_taken \<sigma> \<noteq> []"
  shows "flow_ok (sys_admit h \<sigma>)"
proof -
  let ?A = "tt_active (sy_thread \<sigma>)" and ?\<tau> = "sys_admitted \<sigma>" and ?job = "hd (sy_taken \<sigma>)"
  note A = sys_inv_admitted [OF inv taken]
  have c: "credit_ok \<sigma>" and b: "balance_ok \<sigma>" and s: "started_ok \<sigma>" using flow by (simp_all add: flow_ok_def)
  have same: "tt_active (sy_thread ?\<tau>) = ?A @ [?job]" "sy_applied ?\<tau> = sy_applied \<sigma>" "alone ?\<tau> j = alone \<sigma> j"
      "credits_of ?\<tau> = credits_of \<sigma>" "given i ?\<tau> = given i \<sigma>" "asked i ?\<tau> = asked i \<sigma>" for j i
    by (simp_all add: asked_eq)
      (simp_all add: sys_admitted_def Let_def alone_def files_of_def events_of_def events_def credits_of_def given_def)
  have "posted_bytes (alone \<sigma> ?job) = 0 \<longrightarrow> sy_applied \<sigma> (job_id ?job) = 0"
    using applied_le [OF c, of ?job] asked_nonneg [OF c, of "job_id ?job"] by linarith
  then have "balance_ok (sys_admit h \<sigma>)"
    unfolding sys_admit_def using balance_okD [OF b]
    by (intro balance_call [OF A(1,2)]) (auto simp: same)
  moreover have "credit_ok (sys_admit h \<sigma>)"
    unfolding sys_admit_def using c by (simp add: credit_ok_def call_credit same)
  moreover have "m_attempt ?job = 0" by (subst A(3)) (simp add: new_job_def)
  then have "started_ok (sys_admit h \<sigma>)"
    unfolding sys_admit_def using s
    by (intro started_call) (auto simp: same started_ok_def nth_append)
  ultimately show ?thesis by (simp add: flow_ok_def)
qed

section \<open>Every reachable state\<close>

definition kept :: "system \<Rightarrow> bool" where
  "kept \<sigma> \<longleftrightarrow> sys_inv \<sigma> \<and> flow_ok \<sigma>"

lemma kept_take:
  assumes "kept \<sigma>" "sy_taken \<sigma> = []" "sy_credits \<sigma> = []"
  shows "kept (sys_take \<sigma>)"
proof -
  have inv: "sys_inv \<sigma>" and flow: "flow_ok \<sigma>" using assms(1) by (simp_all add: kept_def)
  note take = sys_take_def take_pending_def
  have "sys_inv (sys_take \<sigma>)"
    by (rule sys_inv_frame [OF inv])
      (use assms(2) in \<open>simp_all add: take pending_def files_of_def events_def
        queue_ok_cong [OF sys_invD(3) [OF inv]]\<close>)
  moreover have "flow_ok (sys_take \<sigma>)"
    by (rule flow_ok_frame [OF flow]) (use assms(3) in \<open>simp_all add: take credits_of_def events_def given_def\<close>)
  ultimately show ?thesis by (simp add: kept_def)
qed

lemma kept_remove: "kept \<sigma> \<Longrightarrow> kept (\<sigma>\<lparr>sy_thread := remove_finished (sy_thread \<sigma>)\<rparr>)"
proof -
  assume k: "kept \<sigma>"
  then have "flow_ok (\<sigma>\<lparr>sy_thread := remove_finished (sy_thread \<sigma>)\<rparr>)"
    by - (rule flow_ok_frame [of \<sigma>], auto simp: kept_def remove_finished_def credits_of_def events_def given_def)
  with k show ?thesis by (simp add: kept_def sys_inv_remove)
qed

lemma kept_thread: "thread_step \<sigma> \<tau> \<Longrightarrow> kept \<sigma> \<Longrightarrow> kept \<tau>"
proof (induction rule: thread_step.induct)
  case (take \<sigma>)
  then show ?case by (simp add: kept_take)
next
  case (call i k \<sigma>)
  then have "\<forall>bytes. i \<noteq> InConsumed bytes" by (cases i) auto
  with call show ?case by (simp add: kept_def sys_inv_call flow_ok_call)
qed (simp_all add: kept_def sys_inv_admit flow_ok_admit kept_cancel_next kept_consume_next
    kept_remove [unfolded kept_def])

lemma kept_boot: "kept (sys_boot fs)"
  by (simp add: kept_def sys_inv_boot flow_ok_def credit_ok_def balance_ok_def started_ok_def asked_eq)
    (simp add: credits_of_def given_def sys_boot_def)

lemma kept_submit: "kept \<sigma> \<Longrightarrow> fresh_request spec \<sigma> \<Longrightarrow> kept (sys_submit spec \<sigma>)"
proof -
  assume k: "kept \<sigma>" and f: "fresh_request spec \<sigma>"
  have "flow_ok (sys_submit spec \<sigma>)"
    using k by - (rule flow_ok_frame [of \<sigma>], simp_all add: kept_def sys_submit_def enqueue_def credits_of_def events_def given_def)
  with k f show ?thesis by (simp add: kept_def sys_inv_submit)
qed

lemma kept_cancel: "kept \<sigma> \<Longrightarrow> kept (\<sigma>\<lparr>sy_thread := tt_cancel jobId (sy_thread \<sigma>)\<rparr>)"
proof -
  assume k: "kept \<sigma>"
  then have inv: "sys_inv \<sigma>" by (simp add: kept_def)
  have "sys_inv (\<sigma>\<lparr>sy_thread := tt_cancel jobId (sy_thread \<sigma>)\<rparr>)"
    by (rule sys_inv_frame [OF inv])
      (simp_all add: tt_cancel_def pending_def files_of_def events_def queue_ok_cong [OF sys_invD(3) [OF inv]])
  moreover have "flow_ok (\<sigma>\<lparr>sy_thread := tt_cancel jobId (sy_thread \<sigma>)\<rparr>)"
    using k by - (rule flow_ok_frame [of \<sigma>], simp_all add: kept_def tt_cancel_def credits_of_def events_def given_def)
  ultimately show ?thesis by (simp add: kept_def)
qed

lemma kept_consume:
  assumes k: "kept \<sigma>" and b: "bytes \<ge> 0" "sy_applied \<sigma> jobId + asked jobId \<sigma> + bytes \<le> given jobId \<sigma>"
  shows "kept (\<sigma>\<lparr>sy_thread := tt_consume jobId bytes (sy_thread \<sigma>)\<rparr>)" (is "kept ?\<tau>")
proof -
  have inv: "sys_inv \<sigma>" and flow: "flow_ok \<sigma>" using k by (simp_all add: kept_def)
  have "sys_inv ?\<tau>"
    by (rule sys_inv_frame [OF inv])
      (simp_all add: tt_consume_def pending_def files_of_def events_def queue_ok_cong [OF sys_invD(3) [OF inv]])
  moreover have "credit_ok ?\<tau>"
    using flow b by (auto simp: flow_ok_def credit_ok_def asked_def credits_of_def given_def tt_consume_def)
  moreover have "balance_ok ?\<tau>" "started_ok ?\<tau>"
    using flow by (simp_all add: flow_ok_def balance_ok_def started_ok_def events_of_def events_def tt_consume_def)
  ultimately show ?thesis by (simp add: kept_def flow_ok_def)
qed

lemma kept_drain: "kept \<sigma> \<Longrightarrow> kept (sys_drain \<sigma>)"
proof -
  assume k: "kept \<sigma>"
  then have inv: "sys_inv \<sigma>" by (simp add: kept_def)
  have "snd (queue_drain (queue_of es)) = queue_of []" for es by (simp add: queue_drain_def queue_of_def)
  moreover obtain es where "snd (tt_world (sy_thread \<sigma>)) = queue_of es"
    using sys_invD(3) [OF inv] unfolding queue_ok_def by blast
  ultimately have "queue_ok (sys_drain \<sigma>)" by (simp add: queue_ok_def sys_drain_def Let_def split_beta)
  then have "sys_inv (sys_drain \<sigma>)"
    by (rule sys_inv_frame [OF inv])
      (simp_all add: sys_drain_def Let_def pending_def files_of_def events_def queue_drain_def)
  moreover have "flow_ok (sys_drain \<sigma>)"
    using k by - (rule flow_ok_frame [of \<sigma>], simp_all add: kept_def sys_drain_def Let_def credits_of_def events_def given_def queue_drain_def)
  ultimately show ?thesis by (simp add: kept_def)
qed

lemma sys_reach_kept: "sys_reach \<sigma> \<Longrightarrow> kept \<sigma>"
  by (induction rule: sys_reach.induct)
    (simp_all add: kept_boot kept_submit kept_cancel kept_consume kept_drain kept_thread)

lemma sys_reach_inv: "sys_reach \<sigma> \<Longrightarrow> sys_inv \<sigma>"
  using sys_reach_kept by (simp add: kept_def)

lemmas sys_reach_take = sys_reach.thread [OF _ thread_step.take]
lemmas sys_reach_admit = sys_reach.thread [OF _ thread_step.admit]
lemmas sys_reach_cancel_next = sys_reach.thread [OF _ thread_step.cancel_next]
lemmas sys_reach_consume_next = sys_reach.thread [OF _ thread_step.consume_next]
lemmas sys_reach_call = sys_reach.thread [OF _ thread_step.call]
lemmas sys_reach_remove = sys_reach.thread [OF _ thread_step.remove]

end
