(* ===== verification/Rest_Streams.thy ===== *)
theory Rest_Streams
  imports Rest_Credit
begin

text \<open>
  What the transfer thread promises for every request that is submitted to it, whatever else it is
  doing, with a download followed from its submission to its removal.
\<close>

section \<open>Every request completes once\<close>

text \<open>What a stream of events with its terminal event says about the bytes libcurl delivered.\<close>

definition delivered_as_asked :: "request_spec \<Rightarrow> wire \<Rightarrow> transfer_event list \<Rightarrow> bool" where
  "delivered_as_asked spec w es \<longleftrightarrow>
     ev_bodyLength (last es) = int (length (wr_taken w)) \<and>
     (spec_outputPath spec = [] \<longrightarrow>
        (if spec_streamData spec then data_bytes es = wr_taken w else ev_body (last es) = wr_taken w))"

definition completed_once :: "transfer_event list \<Rightarrow> bool" where
  "completed_once es \<longleftrightarrow> (\<exists>ds e. es = ds @ [e] \<and> ev_kind e = Kind_Complete \<and> completes ds = [])"

lemma reach_stream:
  assumes "job_reach spec fs s w"
  shows "if m_finished s
    then completed_once (posted s) \<and>
      (ev_status (last (posted s)) = RestStatus_Ok \<longrightarrow> delivered_as_asked spec w (posted s) \<and>
         (spec_outputPath spec \<noteq> [] \<longrightarrow> io_files s (spec_outputPath spec) = Some (wr_base w @ take (wr_room w) (wr_taken w))))
    else completes (posted s) = []"
  using reach_inv [OF assms] reach_delivery [OF assms] reach_spec [OF assms]
  by (auto simp: event_inv_def completed_once_def delivery_inv_def ok_delivered_def delivered_as_asked_def
      split: if_splits)

lemma flight_spec:
  "names_ok \<sigma> \<Longrightarrow> spec \<in> set (sy_submitted \<sigma>) \<Longrightarrow> job \<in> set (in_flight \<sigma>) \<Longrightarrow> job_id job = spec_id spec \<Longrightarrow>
     m_spec job = spec"
  unfolding names_ok_def job_id_def by (metis (no_types, lifting) distinct_map image_subset_iff inj_onD)

lemma alone_select: "io_files (alone \<sigma> job) = files_of \<sigma>" "m_finished (alone \<sigma> job) = m_finished job"
  by (simp_all add: alone_def)

text \<open>
  C3: Every request completes once. However the jobs of all requests are interleaved, with each
  other and with the main thread, the main thread receives only events of requests that were
  submitted. Until a request's job has finished there is no \<open>Complete\<close> event for it; a job leaves
  the thread only after its events have ended with exactly one \<open>Complete\<close>, as the last of them, and
  if that says \<open>Ok\<close> the events carry exactly the bytes libcurl delivered for it, in order. A
  finished download that has not been removed yet has under the output path what its part file held
  when the attempt began, followed by the delivered bytes as far as the device took them.
\<close>

theorem every_request_completes_once:
  assumes "sys_reach \<sigma>"
  shows "(\<forall>e \<in> set (events \<sigma>). ev_jobId e \<in> spec_id ` set (sy_submitted \<sigma>)) \<and>
    (\<forall>job \<in> set (in_flight \<sigma>).
       if m_finished job
       then completed_once (events_of (job_id job) \<sigma>) \<and>
         (ev_status (last (events_of (job_id job) \<sigma>)) = RestStatus_Ok \<and> spec_outputPath (m_spec job) \<noteq> [] \<longrightarrow>
            files_of \<sigma> (spec_outputPath (m_spec job)) =
              Some (wr_base (sy_wires \<sigma> (job_id job)) @
                take (wr_room (sy_wires \<sigma> (job_id job))) (wr_taken (sy_wires \<sigma> (job_id job)))))
       else completes (events_of (job_id job) \<sigma>) = []) \<and>
    (\<forall>spec \<in> set (sy_submitted \<sigma>). spec_id spec \<notin> job_id ` set (in_flight \<sigma>) \<longrightarrow>
       completed_once (events_of (spec_id spec) \<sigma>) \<and>
       (ev_status (last (events_of (spec_id spec) \<sigma>)) = RestStatus_Ok \<longrightarrow>
          delivered_as_asked spec (sy_wires \<sigma> (spec_id spec)) (events_of (spec_id spec) \<sigma>)))"
proof -
  note I = sys_invD [OF sys_reach_inv [OF assms]]
  have flight: "if m_finished job
       then completed_once (events_of (job_id job) \<sigma>) \<and>
         (ev_status (last (events_of (job_id job) \<sigma>)) = RestStatus_Ok \<and> spec_outputPath (m_spec job) \<noteq> [] \<longrightarrow>
            files_of \<sigma> (spec_outputPath (m_spec job)) =
              Some (wr_base (sy_wires \<sigma> (job_id job)) @
                take (wr_room (sy_wires \<sigma> (job_id job))) (wr_taken (sy_wires \<sigma> (job_id job)))))
       else completes (events_of (job_id job) \<sigma>) = []" if job: "job \<in> set (in_flight \<sigma>)" for job
  proof (cases "job \<in> set (tt_active (sy_thread \<sigma>))")
    case True
    then obtain fs where "job_reach (m_spec job) fs (alone \<sigma> job) (sy_wires \<sigma> (job_id job))"
      using I(5) by (auto simp: active_ok_def)
    from reach_stream [OF this] show ?thesis unfolding posted_alone alone_select by auto
  next
    case False
    then have p: "job \<in> set (pending \<sigma>)" using job by (simp add: in_flight_def)
    then obtain spec where "job = new_job spec" using I(1) unfolding names_ok_def by blast
    then have "\<not> m_finished job" by (simp add: new_job_def)
    with pending_silent [OF I(4) p] show ?thesis by simp
  qed
  have gone: "spec_id spec \<notin> job_id ` set (in_flight \<sigma>) \<longrightarrow>
       completed_once (events_of (spec_id spec) \<sigma>) \<and>
       (ev_status (last (events_of (spec_id spec) \<sigma>)) = RestStatus_Ok \<longrightarrow>
          delivered_as_asked spec (sy_wires \<sigma> (spec_id spec)) (events_of (spec_id spec) \<sigma>))"
    if "spec \<in> set (sy_submitted \<sigma>)" for spec
  proof
    assume "spec_id spec \<notin> job_id ` set (in_flight \<sigma>)"
    with that I(6) obtain fs s where r: "job_reach spec fs s (sy_wires \<sigma> (spec_id spec))" "m_finished s"
        "posted s = events_of (spec_id spec) \<sigma>"
      unfolding gone_ok_def by blast
    from reach_stream [OF r(1)] r(2) show "completed_once (events_of (spec_id spec) \<sigma>) \<and>
       (ev_status (last (events_of (spec_id spec) \<sigma>)) = RestStatus_Ok \<longrightarrow>
          delivered_as_asked spec (sy_wires \<sigma> (spec_id spec)) (events_of (spec_id spec) \<sigma>))"
      unfolding r(3) by simp
  qed
  have known: "\<forall>e \<in> set (events \<sigma>). ev_jobId e \<in> spec_id ` set (sy_submitted \<sigma>)"
    using I(4) by (simp add: events_ok_def)
  show ?thesis by (rule conjI [OF known conjI]) (rule ballI, erule flight, rule ballI, erule gone)
qed

section \<open>One download from its submission to its removal\<close>

definition sys_calls :: "nat \<Rightarrow> job_input list \<Rightarrow> system \<Rightarrow> system" where
  "sys_calls k is = fold (\<lambda>i. sys_call i k) is"

lemma call_ctx:
  assumes "k < length (tt_active (sy_thread \<sigma>))"
  shows "ctx_at k (sy_thread (sys_call i k \<sigma>)) = job_step i (ctx_at k (sy_thread \<sigma>))"
    and "length (tt_active (sy_thread (sys_call i k \<sigma>))) = length (tt_active (sy_thread \<sigma>))"
    and "job_id (tt_active (sy_thread (sys_call i k \<sigma>)) ! k) = job_id (tt_active (sy_thread \<sigma>) ! k)"
    and "sy_wires (sys_call i k \<sigma>) (job_id (tt_active (sy_thread \<sigma>) ! k)) =
      wire_step i (ctx_at k (sy_thread \<sigma>)) (sy_wires \<sigma> (job_id (tt_active (sy_thread \<sigma>) ! k)))"
  using assms step_spec [of i "ctx_at k (sy_thread \<sigma>)"]
  by (simp_all add: sys_call_def Let_def ctx_at_def on_active_def call_at_def call_job_def split_beta job_id_def)

text \<open>Calls to one job of the system run it as it would run alone.\<close>

lemma sys_calls_run:
  assumes "k < length (tt_active (sy_thread \<sigma>))" and "job_id (tt_active (sy_thread \<sigma>) ! k) = jobId"
  shows "(ctx_at k (sy_thread (sys_calls k is \<sigma>)), sy_wires (sys_calls k is \<sigma>) jobId) =
    job_run is (ctx_at k (sy_thread \<sigma>), sy_wires \<sigma> jobId)"
  using assms
proof (induction "is" arbitrary: \<sigma>)
  case Nil
  show ?case by (simp add: sys_calls_def)
next
  case (Cons i "is")
  note c = call_ctx [OF Cons.prems(1), of i, unfolded Cons.prems(2)]
  have "k < length (tt_active (sy_thread (sys_call i k \<sigma>)))" using Cons.prems(1) c(2) by simp
  from Cons.IH [OF this c(3)] show ?case by (simp add: sys_calls_def c(1,4))
qed

lemma sys_calls_reach:
  assumes "sys_reach \<sigma>" "k < length (tt_active (sy_thread \<sigma>))" "job_id (tt_active (sy_thread \<sigma>) ! k) = jobId"
    and "job_run_enabled is (ctx_at k (sy_thread \<sigma>), sy_wires \<sigma> jobId)" and "list_all (\<lambda>i. \<not> is_request i) is"
  shows "sys_reach (sys_calls k is \<sigma>)"
  using assms
proof (induction "is" arbitrary: \<sigma>)
  case Nil
  then show ?case by (simp add: sys_calls_def)
next
  case (Cons i "is")
  note c = call_ctx [OF Cons.prems(2), of i, unfolded Cons.prems(3)]
  have "sys_enabled i k \<sigma>" using Cons.prems by (simp add: sys_enabled_def)
  then have "sys_reach (sys_call i k \<sigma>)" using Cons.prems(5) by (intro sys_reach_call [OF Cons.prems(1)]) simp_all
  moreover have "k < length (tt_active (sy_thread (sys_call i k \<sigma>)))" using Cons.prems(2) c(2) by simp
  ultimately have "sys_reach (sys_calls k is (sys_call i k \<sigma>))"
    using Cons.IH [OF _ _ c(3)] Cons.prems(4,5) by (simp add: c(1,4))
  then show ?case by (simp add: sys_calls_def)
qed

definition demo_new :: system where
  "demo_new = (sys_boot demo_files)\<lparr>sy_thread := (sy_thread (sys_boot demo_files))\<lparr>tt_active := [new_job demo_download]\<rparr>,
     sy_submitted := [demo_download]\<rparr>"

definition demo_admitted :: system where
  "demo_admitted = sys_call (InBegin partial_host) 0 demo_new"

definition demo_done :: system where
  "demo_done = sys_calls 0 (tl download_inputs) demo_admitted"

lemma demo_admitted_reach: "sys_reach demo_admitted"
proof -
  have id: "(\<lambda>_. wire_start)(n := wire_start) = (\<lambda>_. wire_start)" for n :: int by (rule fun_upd_triv)
  have "demo_admitted = sys_admit partial_host (sys_take (sys_submit demo_download (sys_boot demo_files)))"
    by (simp add: demo_admitted_def demo_new_def sys_admit_def sys_admitted_def sys_take_def sys_submit_def sys_boot_def
        enqueue_def take_pending_def Let_def id)
  moreover have fresh: "fresh_request demo_download (sys_boot demo_files)"
    by (simp add: fresh_request_def sys_boot_def in_flight_def pending_def)
  then have "sys_reach (sys_take (sys_submit demo_download (sys_boot demo_files)))"
    by (intro sys_reach_take sys_reach.submit sys_reach.boot) (simp_all add: sys_submit_def sys_boot_def)
  moreover have "sy_taken (sys_take (sys_submit demo_download (sys_boot demo_files))) \<noteq> []"
    by (simp add: sys_take_def sys_submit_def sys_boot_def enqueue_def take_pending_def)
  ultimately show ?thesis using sys_reach_admit by metis
qed

lemma demo_new_ctx:
  "ctx_at 0 (sy_thread demo_new) = download_start" "tt_active (sy_thread demo_new) = [new_job demo_download]"
  "sy_wires demo_new 8 = wire_start" "spec_id demo_download = 8"
  by (simp_all add: ctx_at_def demo_new_def sys_boot_def job_start_def) (simp add: demo_download_def request_spec_default_def)

lemma demo_admitted_ctx:
  "(ctx_at 0 (sy_thread demo_admitted), sy_wires demo_admitted 8) = job_run [InBegin partial_host] (download_start, wire_start)"
  "length (tt_active (sy_thread demo_admitted)) = 1" "job_id (tt_active (sy_thread demo_admitted) ! 0) = 8"
  using call_ctx [of 0 demo_new "InBegin partial_host"]
  by (simp_all add: demo_admitted_def demo_new_ctx)

lemma demo_done_ctx:
  "(ctx_at 0 (sy_thread demo_done), sy_wires demo_done 8) = demo_run demo_download download_inputs"
proof -
  have "(ctx_at 0 (sy_thread demo_done), sy_wires demo_done 8) =
      job_run (tl download_inputs) (ctx_at 0 (sy_thread demo_admitted), sy_wires demo_admitted 8)"
    using sys_calls_run [of 0 demo_admitted 8] demo_admitted_ctx(2,3) by (simp add: demo_done_def)
  also have "\<dots> = demo_run demo_download download_inputs"
    unfolding demo_admitted_ctx(1) by (simp add: download_inputs_def demo_run_def)
  finally show ?thesis .
qed

lemma demo_done_reach: "sys_reach demo_done"
  unfolding demo_done_def
proof (rule sys_calls_reach [OF demo_admitted_reach])
  have "job_run_enabled (tl download_inputs) (job_run [InBegin partial_host] (download_start, wire_start))"
    using download_enabled by (simp add: download_inputs_def)
  then show "job_run_enabled (tl download_inputs) (ctx_at 0 (sy_thread demo_admitted), sy_wires demo_admitted 8)"
    unfolding demo_admitted_ctx(1) .
qed (simp_all add: demo_admitted_ctx(2,3) download_inputs_def)

text \<open>The download after its removal: the queue holds its events, the disk its file.\<close>

definition demo_removed :: system where
  "demo_removed = demo_done\<lparr>sy_thread := remove_finished (sy_thread demo_done)\<rparr>"

lemma demo_removed_reach: "sys_reach demo_removed"
  unfolding demo_removed_def by (rule sys_reach_remove [OF demo_done_reach])

lemma sys_calls_rest:
  "sy_submitted (sys_calls k is \<sigma>) = sy_submitted \<sigma>" "pending (sys_calls k is \<sigma>) = pending \<sigma>"
  "length (tt_active (sy_thread (sys_calls k is \<sigma>))) = length (tt_active (sy_thread \<sigma>))"
  by (induction "is" arbitrary: \<sigma>)
    (simp_all add: sys_calls_def sys_call_def Let_def on_active_def call_at_def split_beta pending_def)

lemma demo_done_state:
  "\<exists>job. tt_active (sy_thread demo_done) = [job] \<and> pending demo_done = [] \<and> m_finished job \<and> m_spec job = demo_download"
  "sy_submitted demo_done = [demo_download]"
proof -
  have "pending demo_new = []" "sy_submitted demo_new = [demo_download]"
    by (simp_all add: demo_new_def sys_boot_def pending_def)
  then have "length (tt_active (sy_thread demo_done)) = 1" "pending demo_done = []"
      "sy_submitted demo_done = [demo_download]"
    using demo_admitted_ctx(2) by (simp_all add: demo_done_def sys_calls_rest demo_admitted_def)
  then show "sy_submitted demo_done = [demo_download]"
      "\<exists>job. tt_active (sy_thread demo_done) = [job] \<and> pending demo_done = [] \<and> m_finished job \<and> m_spec job = demo_download"
    using demo_done_ctx download_ends download_reach reach_spec [OF download_reach]
    by (auto simp: length_Suc_conv in_flight_def ctx_at_def prod_eq_iff)
       (metis job_ctx_select(1,2))+
qed

lemma every_request_completes_once_witness:
  "completed_once (events_of 8 demo_removed)"
proof -
  have "in_flight demo_removed = []" "sy_submitted demo_removed = [demo_download]"
    using demo_done_state by (auto simp: demo_removed_def in_flight_def remove_finished_def pending_def
        append_eq_Cons_conv)
  then show ?thesis using every_request_completes_once [OF demo_removed_reach] by (simp add: demo_new_ctx)
qed

end
