(* ===== verification/Rest_Rounds.thy ===== *)
theory Rest_Rounds
  imports Rest_Streams
begin

text \<open>
  The loop of \<open>Run\<close>, round by round, is a sequence of the steps of \<open>Rest_System\<close>: each phase of
  \<open>run_iteration\<close> is matched by steps that the guards of the step relation allow. What is shown for
  the step relation therefore holds of the program as the code schedules it.
\<close>

section \<open>Every phase is matched\<close>

text \<open>The system gets to \<open>\<tau>\<close>, whose thread is \<open>t\<close>, without the main thread taking part.\<close>

definition gets_to :: "system \<Rightarrow> transfer_thread \<Rightarrow> system \<Rightarrow> bool" where
  "gets_to \<sigma> t \<tau> \<longleftrightarrow> sys_reach \<tau> \<and> sy_thread \<tau> = t \<and> sy_submitted \<tau> = sy_submitted \<sigma> \<and> sy_log \<tau> = sy_log \<sigma>"

definition idle :: "system \<Rightarrow> bool" where
  "idle \<sigma> \<longleftrightarrow> sy_taken \<sigma> = [] \<and> sy_cancels \<sigma> = [] \<and> sy_credits \<sigma> = []"

text \<open>The job of an id is over when it is finished or gone; once over it stays so.\<close>

definition over :: "int \<Rightarrow> transfer_thread \<Rightarrow> bool" where
  "over jobId t \<longleftrightarrow> (\<forall>job \<in> set (tt_active t). job_id job = jobId \<longrightarrow> m_finished job)"

definition stays_over :: "system \<Rightarrow> system \<Rightarrow> bool" where
  "stays_over \<sigma> \<tau> \<longleftrightarrow> (\<forall>jobId. over jobId (sy_thread \<sigma>) \<longrightarrow> over jobId (sy_thread \<tau>))"

definition same_length :: "system \<Rightarrow> system \<Rightarrow> bool" where
  "same_length \<sigma> \<tau> \<longleftrightarrow>
     length (tt_active (sy_thread \<tau>)) = length (tt_active (sy_thread \<sigma>)) \<and> sy_taken \<tau> = sy_taken \<sigma> \<and>
     sy_cancels \<tau> = sy_cancels \<sigma> \<and> sy_credits \<tau> = sy_credits \<sigma> \<and> stays_over \<sigma> \<tau>"

lemma stays_over_refl [simp]: "stays_over \<sigma> \<sigma>"
  by (simp add: stays_over_def)

lemma stays_over_trans: "stays_over \<sigma> \<tau> \<Longrightarrow> stays_over \<tau> \<upsilon> \<Longrightarrow> stays_over \<sigma> \<upsilon>"
  by (simp add: stays_over_def)

lemma same_length_trans: "same_length \<sigma> \<tau> \<Longrightarrow> same_length \<tau> \<upsilon> \<Longrightarrow> same_length \<sigma> \<upsilon>"
  by (simp add: same_length_def stays_over_def)

lemma over_on_active:
  assumes "over jobId t" "k < length (tt_active t)" "\<not> m_finished (tt_active t ! k)" "\<And>s. m_spec (f s) = m_spec s"
  shows "over jobId (on_active f k t)"
proof -
  let ?job = "tt_active t ! k"
  have "job_id ?job \<noteq> jobId" using assms(1-3) by (auto simp: over_def)
  moreover have "job_id (fst (call_job f ?job (tt_world t))) = job_id ?job"
    by (simp add: call_job_def Let_def job_id_def assms(4))
  moreover have "set (tt_active (on_active f k t)) \<subseteq> insert (fst (call_job f ?job (tt_world t))) (set (tt_active t))"
    by (simp add: on_active_def call_at_def split_beta set_update_subset_insert)
  ultimately show ?thesis using assms(1) by (auto simp: over_def)
qed

lemma over_call:
  assumes "k < length (tt_active (sy_thread \<sigma>))" "\<not> m_finished (tt_active (sy_thread \<sigma>) ! k)" "sy_thread \<tau> = sy_thread \<sigma>"
  shows "stays_over \<sigma> (sys_call i k \<tau>)"
  using over_on_active [OF _ assms(1,2), of _ "job_step i"] step_spec
  by (simp add: stays_over_def sys_call_def Let_def assms(3))

lemma enabled_not_finished:
  assumes "sys_reach \<sigma>" "sys_enabled i k \<sigma>"
  shows "\<not> m_finished (tt_active (sy_thread \<sigma>) ! k)"
proof -
  let ?job = "tt_active (sy_thread \<sigma>) ! k"
  have "?job \<in> set (tt_active (sy_thread \<sigma>))" using assms(2) by (simp add: sys_enabled_def)
  then obtain fs where "job_reach (m_spec ?job) fs (alone \<sigma> ?job) (sy_wires \<sigma> (job_id ?job))"
    using sys_invD(5) [OF sys_reach_inv [OF assms(1)]] unfolding active_ok_def by blast
  then have "life_inv (alone \<sigma> ?job)" using reach_inv by blast
  then have "m_attached ?job \<Longrightarrow> \<not> m_finished ?job" by (simp add: life_inv_def alone_def)
  with assms(2) show ?thesis by (cases i) (auto simp: sys_enabled_def ctx_at_def)
qed

lemma gets_to_refl: "sys_reach \<sigma> \<Longrightarrow> gets_to \<sigma> (sy_thread \<sigma>) \<sigma> \<and> same_length \<sigma> \<sigma>"
  by (simp add: gets_to_def same_length_def)

lemma gets_to_call:
  assumes "sys_reach \<sigma>" "sys_enabled i k \<sigma>" "\<not> is_request i" "\<And>s. f s = job_step i s"
  shows "gets_to \<sigma> (on_active f k (sy_thread \<sigma>)) (sys_call i k \<sigma>) \<and> same_length \<sigma> (sys_call i k \<sigma>)"
proof -
  have "f = job_step i" using assms(4) by (rule ext)
  moreover have "k < length (tt_active (sy_thread \<sigma>))" using assms(2) by (simp add: sys_enabled_def)
  ultimately show ?thesis
    using sys_reach_call [OF assms(1-3)] over_call [of k \<sigma> \<sigma> i] enabled_not_finished [OF assms(1,2)]
    by (simp add: gets_to_def same_length_def sys_call_def Let_def on_active_def call_at_def split_beta)
qed

lemma gets_to_fold:
  assumes "\<And>x \<sigma>'. x \<in> set xs \<Longrightarrow> sys_reach \<sigma>' \<Longrightarrow> same_length \<sigma> \<sigma>' \<Longrightarrow>
      gets_to \<sigma>' (f x (sy_thread \<sigma>')) (g x \<sigma>') \<and> same_length \<sigma>' (g x \<sigma>')"
    and "sys_reach \<sigma>"
  shows "gets_to \<sigma> (fold f xs (sy_thread \<sigma>)) (fold g xs \<sigma>) \<and> same_length \<sigma> (fold g xs \<sigma>)"
  using assms
proof (induction xs arbitrary: \<sigma>)
  case Nil
  then show ?case using gets_to_refl by auto
next
  case (Cons x xs)
  have "same_length \<sigma> \<sigma>" by (simp add: same_length_def)
  then have r: "gets_to \<sigma> (f x (sy_thread \<sigma>)) (g x \<sigma>)" "same_length \<sigma> (g x \<sigma>)"
    using Cons.prems(1) [of x \<sigma>] Cons.prems(2) by auto
  then have "sys_reach (g x \<sigma>)" by (simp add: gets_to_def)
  moreover have "gets_to \<sigma>' (f y (sy_thread \<sigma>')) (g y \<sigma>') \<and> same_length \<sigma>' (g y \<sigma>')"
    if "y \<in> set xs" "sys_reach \<sigma>'" "same_length (g x \<sigma>) \<sigma>'" for y \<sigma>'
    using Cons.prems(1) [of y \<sigma>'] that same_length_trans [OF r(2)] by simp
  ultimately have "gets_to (g x \<sigma>) (fold f xs (sy_thread (g x \<sigma>))) (fold g xs (g x \<sigma>))"
      "same_length (g x \<sigma>) (fold g xs (g x \<sigma>))"
    using Cons.IH [of "g x \<sigma>"] by blast+
  with r same_length_trans [OF r(2)] show ?case by (simp add: gets_to_def)
qed

text \<open>\<open>StartDueRetries\<close> on the system.\<close>

definition sys_retry :: "(int \<Rightarrow> host) \<Rightarrow> int \<Rightarrow> nat \<Rightarrow> system \<Rightarrow> system" where
  "sys_retry env now k \<sigma> =
     (let job = tt_active (sy_thread \<sigma>) ! k
      in if is_retry_due job now then sys_call (InBegin (env (job_id job))) k \<sigma> else \<sigma>)"

lemma matched_retry:
  assumes "sys_reach \<sigma>" "k < length (tt_active (sy_thread \<sigma>))"
  shows "gets_to \<sigma> (start_retry env now k (sy_thread \<sigma>)) (sys_retry env now k \<sigma>) \<and>
    same_length \<sigma> (sys_retry env now k \<sigma>)"
proof (cases "is_retry_due (tt_active (sy_thread \<sigma>) ! k) now")
  case False
  then show ?thesis using gets_to_refl [OF assms(1)] by (simp add: start_retry_def sys_retry_def Let_def)
next
  case True
  let ?job = "tt_active (sy_thread \<sigma>) ! k"
  have "?job \<in> set (tt_active (sy_thread \<sigma>))" using assms(2) by simp
  then obtain fs where "job_reach (m_spec ?job) fs (alone \<sigma> ?job) (sy_wires \<sigma> (job_id ?job))"
    using sys_invD(5) [OF sys_reach_inv [OF assms(1)]] unfolding active_ok_def by blast
  then have "life_inv (alone \<sigma> ?job)" using reach_inv by blast
  then have "\<not> m_finished ?job" using True by (simp add: life_inv_def alone_def is_retry_due_def)
  then have "sys_enabled (InBegin (env (job_id ?job))) k \<sigma>"
    using True assms(2) by (simp add: sys_enabled_def ctx_at_def is_retry_due_def)
  from gets_to_call [OF assms(1) this, where f = "\<lambda>s. snd (begin_attempt (env (job_id ?job)) s)"] True
  show ?thesis by (simp add: start_retry_def sys_retry_def Let_def)
qed

text \<open>The three vectors of \<open>Run\<close> are worked off entry by entry.\<close>

lemma next_threads:
  "sy_taken \<sigma> = job # rest \<Longrightarrow> sy_thread (sys_admit (env (job_id job)) \<sigma>) = admit_job env job (sy_thread \<sigma>)"
  "sy_cancels \<sigma> = i # cs \<Longrightarrow> sy_thread (sys_cancel_next \<sigma>) = apply_cancellation i (sy_thread \<sigma>)"
  "sy_credits \<sigma> = r # rs \<Longrightarrow> sy_thread (sys_consume_next \<sigma>) = apply_consume r (sy_thread \<sigma>)"
proof -
  have c: "cancel = job_step InCancel" "(\<lambda>s. snd (on_stream_consumed n s)) = job_step (InConsumed n)" for n
    by (rule ext, simp)+
  show "sy_taken \<sigma> = job # rest \<Longrightarrow> sy_thread (sys_admit (env (job_id job)) \<sigma>) = admit_job env job (sy_thread \<sigma>)"
    by (simp add: sys_admit_def sys_admitted_def sys_call_def Let_def admit_job_def on_active_def call_at_def
        call_job_def nth_append)
  show "sy_cancels \<sigma> = i # cs \<Longrightarrow> sy_thread (sys_cancel_next \<sigma>) = apply_cancellation i (sy_thread \<sigma>)"
    by (simp add: sys_cancel_next_def sys_call_def Let_def apply_cancellation_def c split: option.split)
  show "sy_credits \<sigma> = r # rs \<Longrightarrow> sy_thread (sys_consume_next \<sigma>) = apply_consume r (sy_thread \<sigma>)"
    by (cases r) (simp add: sys_consume_next_def sys_call_def Let_def apply_consume_def c split: option.split)
qed

lemma next_rest:
  "sy_submitted (sys_admit h \<sigma>) = sy_submitted \<sigma>" "sy_log (sys_admit h \<sigma>) = sy_log \<sigma>"
  "sy_taken (sys_admit h \<sigma>) = tl (sy_taken \<sigma>)" "sy_cancels (sys_admit h \<sigma>) = sy_cancels \<sigma>"
  "sy_credits (sys_admit h \<sigma>) = sy_credits \<sigma>"
  "sy_submitted (sys_cancel_next \<sigma>) = sy_submitted \<sigma>" "sy_log (sys_cancel_next \<sigma>) = sy_log \<sigma>"
  "sy_taken (sys_cancel_next \<sigma>) = sy_taken \<sigma>" "sy_cancels (sys_cancel_next \<sigma>) = tl (sy_cancels \<sigma>)"
  "sy_credits (sys_cancel_next \<sigma>) = sy_credits \<sigma>"
  "sy_submitted (sys_consume_next \<sigma>) = sy_submitted \<sigma>" "sy_log (sys_consume_next \<sigma>) = sy_log \<sigma>"
  "sy_taken (sys_consume_next \<sigma>) = sy_taken \<sigma>" "sy_cancels (sys_consume_next \<sigma>) = sy_cancels \<sigma>"
  "sy_credits (sys_consume_next \<sigma>) = tl (sy_credits \<sigma>)"
  by (simp_all add: sys_admit_def sys_admitted_def sys_cancel_next_def sys_consume_next_def sys_call_def Let_def
      split_beta split: option.split)

lemma over_next:
  assumes "sys_reach \<sigma>"
  shows "stays_over \<sigma> (sys_cancel_next \<sigma>)" and "stays_over \<sigma> (sys_consume_next \<sigma>)"
    and "over (hd (sy_cancels \<sigma>)) (sy_thread (sys_cancel_next \<sigma>))"
proof -
  have same: "stays_over \<sigma> \<tau>" if "sy_thread \<tau> = sy_thread \<sigma>" for \<tau>
    using that by (simp add: stays_over_def)
  show "stays_over \<sigma> (sys_cancel_next \<sigma>)"
    by (auto simp: sys_cancel_next_def Let_def same dest!: find_active_SomeD intro!: over_call split: option.split)
  show "stays_over \<sigma> (sys_consume_next \<sigma>)"
    by (auto simp: sys_consume_next_def Let_def split_beta same dest!: find_active_SomeD intro!: over_call
        split: option.split)
  have "distinct (map job_id (tt_active (sy_thread \<sigma>)))"
    using sys_invD(1) [OF sys_reach_inv [OF assms]] by (simp add: names_ok_def in_flight_def)
  from apply_cancellation_one [OF this, of "hd (sy_cancels \<sigma>)"]
  have "over (hd (sy_cancels \<sigma>)) (apply_cancellation (hd (sy_cancels \<sigma>)) (sy_thread \<sigma>))"
    by (auto simp: over_def cancelled_by_def in_set_conv_nth)
  moreover have "sy_thread (sys_cancel_next \<sigma>) = apply_cancellation (hd (sy_cancels \<sigma>)) (sy_thread \<sigma>)"
  proof -
    have "cancel = job_step InCancel" by (rule ext) simp
    then show ?thesis
      by (simp add: sys_cancel_next_def sys_call_def Let_def apply_cancellation_def split: option.split)
  qed
  ultimately show "over (hd (sy_cancels \<sigma>)) (sy_thread (sys_cancel_next \<sigma>))" by simp
qed

lemma matched_admissions:
  "sys_reach \<sigma> \<Longrightarrow> sy_taken \<sigma> = jobs \<Longrightarrow> \<tau> = fold (\<lambda>job. sys_admit (env (job_id job))) jobs \<sigma> \<Longrightarrow>
     gets_to \<sigma> (admit_incoming env jobs (sy_thread \<sigma>)) \<tau> \<and> sy_taken \<tau> = [] \<and>
       sy_cancels \<tau> = sy_cancels \<sigma> \<and> sy_credits \<tau> = sy_credits \<sigma>"
proof (induction jobs arbitrary: \<sigma>)
  case Nil
  then show ?case by (simp add: admit_incoming_def gets_to_refl)
next
  case (Cons job rest)
  let ?\<rho> = "sys_admit (env (job_id job)) \<sigma>"
  have "sys_reach ?\<rho>" using Cons.prems by (simp add: sys_reach_admit)
  then have "gets_to ?\<rho> (admit_incoming env rest (sy_thread ?\<rho>)) \<tau>" "sy_taken \<tau> = []"
      "sy_cancels \<tau> = sy_cancels \<sigma>" "sy_credits \<tau> = sy_credits \<sigma>"
    using Cons.IH [of ?\<rho>] Cons.prems by (simp_all add: next_rest)
  then show ?case
    by (simp add: gets_to_def admit_incoming_def next_threads(1) [OF Cons.prems(2), of env] next_rest)
qed

lemma matched_cancellations:
  "sys_reach \<sigma> \<Longrightarrow> sy_taken \<sigma> = [] \<Longrightarrow> sy_cancels \<sigma> = ids \<Longrightarrow> \<tau> = fold (\<lambda>_. sys_cancel_next) ids \<sigma> \<Longrightarrow>
     gets_to \<sigma> (apply_cancellations ids (sy_thread \<sigma>)) \<tau> \<and> sy_taken \<tau> = [] \<and>
       sy_cancels \<tau> = [] \<and> sy_credits \<tau> = sy_credits \<sigma> \<and> stays_over \<sigma> \<tau> \<and> (\<forall>i \<in> set ids. over i (sy_thread \<tau>))"
proof (induction ids arbitrary: \<sigma>)
  case Nil
  then show ?case by (simp add: apply_cancellations_def gets_to_refl)
next
  case (Cons i ids)
  let ?\<rho> = "sys_cancel_next \<sigma>"
  have "sys_reach ?\<rho>" using Cons.prems by (simp add: sys_reach_cancel_next)
  then have "gets_to ?\<rho> (apply_cancellations ids (sy_thread ?\<rho>)) \<tau>" "sy_taken \<tau> = []"
      "sy_cancels \<tau> = []" "sy_credits \<tau> = sy_credits \<sigma>" "stays_over ?\<rho> \<tau>" "\<forall>i \<in> set ids. over i (sy_thread \<tau>)"
    using Cons.IH [of ?\<rho>] Cons.prems by (simp_all add: next_rest)
  moreover have "stays_over \<sigma> ?\<rho>" "over i (sy_thread ?\<rho>)"
    using over_next(1,3) [OF Cons.prems(1)] Cons.prems(3) by simp_all
  ultimately show ?case
    by (auto simp: gets_to_def apply_cancellations_def next_threads(2) [OF Cons.prems(3)] next_rest stays_over_def)
qed

lemma matched_consumes:
  "sys_reach \<sigma> \<Longrightarrow> sy_taken \<sigma> = [] \<Longrightarrow> sy_cancels \<sigma> = [] \<Longrightarrow> sy_credits \<sigma> = rs \<Longrightarrow>
     \<tau> = fold (\<lambda>_. sys_consume_next) rs \<sigma> \<Longrightarrow>
     gets_to \<sigma> (apply_consumed rs (sy_thread \<sigma>)) \<tau> \<and> idle \<tau> \<and> stays_over \<sigma> \<tau>"
proof (induction rs arbitrary: \<sigma>)
  case Nil
  then show ?case by (simp add: apply_consumed_def gets_to_refl idle_def)
next
  case (Cons r rs)
  let ?\<rho> = "sys_consume_next \<sigma>"
  have "sys_reach ?\<rho>" using Cons.prems by (simp add: sys_reach_consume_next)
  then have "gets_to ?\<rho> (apply_consumed rs (sy_thread ?\<rho>)) \<tau>" "idle \<tau>" "stays_over ?\<rho> \<tau>"
    using Cons.IH [of ?\<rho>] Cons.prems by (simp_all add: next_rest)
  with over_next(2) [OF Cons.prems(1)] show ?case
    by (auto simp: gets_to_def apply_consumed_def next_threads(3) [OF Cons.prems(4)] next_rest stays_over_def)
qed

section \<open>A round\<close>

text \<open>The part of a round before \<open>curl_multi_perform\<close>.\<close>

definition before_perform :: "(int \<Rightarrow> host) \<Rightarrow> int \<Rightarrow> transfer_thread \<Rightarrow> transfer_thread" where
  "before_perform env now t =
     start_due_retries env now
       (apply_consumed (tt_consumeRequests t)
         (apply_cancellations (tt_cancelRequests t) (admit_incoming env (tt_incoming t) (snd (take_pending t)))))"

text \<open>What libcurl reports as messages are calls too; libcurl makes only calls that are possible.\<close>

fun message_calls :: "curl_message list \<Rightarrow> (nat \<times> job_input) list" where
  "message_calls [] = []"
| "message_calls (MsgDone (Some k) h code # messages) = (k, InDone h code) # message_calls messages"
| "message_calls (_ # messages) = message_calls messages"

fun libcurl_ok :: "(nat \<times> job_input) list \<Rightarrow> system \<Rightarrow> bool" where
  "libcurl_ok [] \<sigma> \<longleftrightarrow> True"
| "libcurl_ok ((k, i) # calls) \<sigma> \<longleftrightarrow>
     sys_enabled i k \<sigma> \<and> \<not> is_request i \<and> libcurl_ok calls (sys_call i k \<sigma>)"

lemma reap_as_calls: "reap_completed messages t = curl_perform (message_calls messages) t"
proof -
  have "on_attempt_done h code = job_step (InDone h code)" for h code by (rule ext) simp
  then show ?thesis
    unfolding reap_completed_def curl_perform_def
    by (induction messages arbitrary: t rule: message_calls.induct) simp_all
qed

lemma run_iteration_phases:
  "fst (run_iteration env now calls messages later t) =
     remove_finished (curl_perform (calls @ message_calls messages) (before_perform env now t))"
  by (simp add: run_iteration_def take_pending_def before_perform_def Let_def reap_as_calls)
    (simp add: curl_perform_def)

text \<open>The system after that part, with its history.\<close>

definition sys_before :: "(int \<Rightarrow> host) \<Rightarrow> int \<Rightarrow> system \<Rightarrow> system" where
  "sys_before env now \<sigma> =
     (let \<sigma>0 = sys_take \<sigma>;
          \<sigma>1 = fold (\<lambda>job. sys_admit (env (job_id job))) (sy_taken \<sigma>0) \<sigma>0;
          \<sigma>2 = fold (\<lambda>_. sys_cancel_next) (sy_cancels \<sigma>0) \<sigma>1;
          \<sigma>3 = fold (\<lambda>_. sys_consume_next) (sy_credits \<sigma>0) \<sigma>2
      in fold (sys_retry env now) [0..<length (tt_active (sy_thread \<sigma>3))] \<sigma>3)"

lemma iteration_ids:
  "subseq (map job_id (tt_active (fst (run_iteration env now calls messages later t))))
     (map job_id (tt_active t @ tt_incoming t))"
  "tt_incoming (fst (run_iteration env now calls messages later t)) = []"
  "tt_cancelRequests (fst (run_iteration env now calls messages later t)) = []"
  "tt_consumeRequests (fst (run_iteration env now calls messages later t)) = []"
  "\<forall>job \<in> set (tt_active (fst (run_iteration env now calls messages later t))). \<not> m_finished job"
proof -
  let ?t1 = "t\<lparr>tt_incoming := [], tt_cancelRequests := [], tt_consumeRequests := []\<rparr>"
  define v where "v = admit_incoming env (tt_incoming t) ?t1"
  define u where "u = reap_completed messages (curl_perform calls (start_due_retries env now
      (apply_consumed (tt_consumeRequests t) (apply_cancellations (tt_cancelRequests t) v))))"
  have "same_jobs v u" unfolding u_def by (meson same_jobs_phases same_jobs_trans)
  then have u: "map job_id (tt_active u) = map job_id (tt_active t) @ map job_id (tt_incoming t)"
      "tt_incoming u = []" "tt_cancelRequests u = []" "tt_consumeRequests u = []"
    by (simp_all add: same_jobs_def v_def admit_ids)
  have r: "fst (run_iteration env now calls messages later t) = remove_finished u"
    by (simp add: run_iteration_def take_pending_def Let_def u_def v_def)
  have "subseq (map job_id (filter (\<lambda>job. \<not> m_finished job) (tt_active u))) (map job_id (tt_active u))"
    by (intro subseq_map subseq_filter_left)
  with u show
    "subseq (map job_id (tt_active (fst (run_iteration env now calls messages later t))))
       (map job_id (tt_active t @ tt_incoming t))"
    "tt_incoming (fst (run_iteration env now calls messages later t)) = []"
    "tt_cancelRequests (fst (run_iteration env now calls messages later t)) = []"
    "tt_consumeRequests (fst (run_iteration env now calls messages later t)) = []"
    "\<forall>job \<in> set (tt_active (fst (run_iteration env now calls messages later t))). \<not> m_finished job"
    unfolding r by (simp_all add: remove_finished_def)
qed

lemma matched_before_perform:
  assumes "sys_reach \<sigma>" "idle \<sigma>"
  shows "gets_to \<sigma> (before_perform env now (sy_thread \<sigma>)) (sys_before env now \<sigma>) \<and>
    idle (sys_before env now \<sigma>) \<and>
    (\<forall>i \<in> set (tt_cancelRequests (sy_thread \<sigma>)). over i (sy_thread (sys_before env now \<sigma>)))"
proof -
  let ?t = "sy_thread \<sigma>"
  define \<tau>1 where "\<tau>1 = fold (\<lambda>job. sys_admit (env (job_id job))) (tt_incoming ?t) (sys_take \<sigma>)"
  define \<tau>2 where "\<tau>2 = fold (\<lambda>_. sys_cancel_next) (tt_cancelRequests ?t) \<tau>1"
  define \<tau>3 where "\<tau>3 = fold (\<lambda>_. sys_consume_next) (tt_consumeRequests ?t) \<tau>2"
  define \<tau>4 where "\<tau>4 = fold (sys_retry env now) [0..<length (tt_active (sy_thread \<tau>3))] \<tau>3"
  have take: "sys_reach (sys_take \<sigma>)" "sy_taken (sys_take \<sigma>) = tt_incoming ?t"
      "sy_cancels (sys_take \<sigma>) = tt_cancelRequests ?t" "sy_credits (sys_take \<sigma>) = tt_consumeRequests ?t"
      "sy_thread (sys_take \<sigma>) = snd (take_pending ?t)" "sy_submitted (sys_take \<sigma>) = sy_submitted \<sigma>"
      "sy_log (sys_take \<sigma>) = sy_log \<sigma>"
    using assms by (simp_all add: sys_reach_take idle_def) (simp_all add: sys_take_def take_pending_def)
  have before: "sys_before env now \<sigma> = \<tau>4"
    by (simp add: sys_before_def Let_def take \<tau>1_def \<tau>2_def \<tau>3_def \<tau>4_def)
  have 1: "gets_to \<sigma> (admit_incoming env (tt_incoming ?t) (snd (take_pending ?t))) \<tau>1"
      "sy_taken \<tau>1 = []" "sy_cancels \<tau>1 = tt_cancelRequests ?t" "sy_credits \<tau>1 = tt_consumeRequests ?t"
    using matched_admissions [OF take(1,2) \<tau>1_def] take by (simp_all add: gets_to_def)
  then have "sys_reach \<tau>1" by (simp add: gets_to_def)
  from matched_cancellations [OF this 1(2,3) \<tau>2_def] 1(4) have 2: "gets_to \<tau>1 (apply_cancellations (tt_cancelRequests ?t) (sy_thread \<tau>1)) \<tau>2"
      "sy_taken \<tau>2 = []" "sy_cancels \<tau>2 = []" "sy_credits \<tau>2 = tt_consumeRequests ?t"
      "\<forall>i \<in> set (tt_cancelRequests ?t). over i (sy_thread \<tau>2)"
    by simp_all
  then have "sys_reach \<tau>2" by (simp add: gets_to_def)
  from matched_consumes [OF this 2(2-4) \<tau>3_def] have 3: "gets_to \<tau>2 (apply_consumed (tt_consumeRequests ?t) (sy_thread \<tau>2)) \<tau>3" "idle \<tau>3" "stays_over \<tau>2 \<tau>3"
    by simp_all
  then have "sys_reach \<tau>3" by (simp add: gets_to_def)
  then have "gets_to \<tau>3 (start_due_retries env now (sy_thread \<tau>3)) \<tau>4 \<and> same_length \<tau>3 \<tau>4"
    unfolding start_due_retries_def \<tau>4_def by (intro gets_to_fold matched_retry) (auto simp: same_length_def)
  with 1 2 3 show ?thesis
    unfolding before by (auto simp: gets_to_def same_length_def before_perform_def idle_def stays_over_def)
qed

lemma matched_perform:
  "sys_reach \<sigma> \<Longrightarrow> libcurl_ok calls \<sigma> \<Longrightarrow> \<exists>\<tau>. gets_to \<sigma> (curl_perform calls (sy_thread \<sigma>)) \<tau> \<and> same_length \<sigma> \<tau>"
proof (induction calls \<sigma> rule: libcurl_ok.induct)
  case (1 \<sigma>)
  then show ?case using gets_to_refl by (auto simp: curl_perform_def)
next
  case (2 k i calls \<sigma>)
  have c: "gets_to \<sigma> (on_active (job_step i) k (sy_thread \<sigma>)) (sys_call i k \<sigma>)" "same_length \<sigma> (sys_call i k \<sigma>)"
    using gets_to_call [OF 2(2), of i k "job_step i"] 2(3) by simp_all
  then obtain \<tau> where "gets_to (sys_call i k \<sigma>) (curl_perform calls (sy_thread (sys_call i k \<sigma>))) \<tau>"
      "same_length (sys_call i k \<sigma>) \<tau>"
    using 2(1,3) by (auto simp: gets_to_def)
  with c same_length_trans [OF c(2)] show ?case by (auto simp: gets_to_def curl_perform_def)
qed

text \<open>The whole round, from a state in which libcurl may make the calls it makes.\<close>

lemma matched_round:
  assumes "sys_reach \<tau>" "idle \<tau>" "sy_thread \<tau> = before_perform env now t" "libcurl_ok (calls @ message_calls messages) \<tau>"
  shows "\<exists>\<upsilon>. sys_reach \<upsilon> \<and> idle \<upsilon> \<and> sy_submitted \<upsilon> = sy_submitted \<tau> \<and> sy_log \<upsilon> = sy_log \<tau> \<and> stays_over \<tau> \<upsilon> \<and>
    sy_thread \<upsilon> = fst (run_iteration env now calls messages later t)"
proof -
  obtain \<rho> where r: "gets_to \<tau> (curl_perform (calls @ message_calls messages) (sy_thread \<tau>)) \<rho>" "same_length \<tau> \<rho>"
    using matched_perform [OF assms(1,4)] by blast
  let ?\<upsilon> = "\<rho>\<lparr>sy_thread := remove_finished (sy_thread \<rho>)\<rparr>"
  have "sys_reach ?\<upsilon>" using r(1) by (intro sys_reach_remove) (simp add: gets_to_def)
  moreover have "stays_over \<rho> ?\<upsilon>"
    by (auto simp: stays_over_def over_def remove_finished_def)
  ultimately show ?thesis using r assms(2,3)
    by (intro exI [of _ ?\<upsilon>])
      (auto simp: gets_to_def same_length_def run_iteration_phases idle_def stays_over_def)
qed



text \<open>Of a job that is in flight and not finished, and of one that is gone, as in \<open>Rest_Streams\<close>.\<close>

lemma flight_silent:
  assumes "sys_reach \<sigma>" "job \<in> set (in_flight \<sigma>)" "\<not> m_finished job"
  shows "completes (events_of (job_id job) \<sigma>) = []"
proof -
  note I = sys_invD [OF sys_reach_inv [OF assms(1)]]
  show ?thesis
  proof (cases "job \<in> set (tt_active (sy_thread \<sigma>))")
    case True
    then obtain fs where "job_reach (m_spec job) fs (alone \<sigma> job) (sy_wires \<sigma> (job_id job))"
      using I(5) by (auto simp: active_ok_def)
    from reach_stream [OF this] show ?thesis using assms(3) unfolding posted_alone alone_select by simp
  next
    case False
    then have "job \<in> set (pending \<sigma>)" using assms(2) by (simp add: in_flight_def)
    with pending_silent [OF I(4)] show ?thesis by simp
  qed
qed

lemma gone_completed:
  assumes "sys_reach \<sigma>" "spec \<in> set (sy_submitted \<sigma>)" "spec_id spec \<notin> job_id ` set (in_flight \<sigma>)"
  shows "completed_once (events_of (spec_id spec) \<sigma>)"
proof -
  obtain fs s where "job_reach spec fs s (sy_wires \<sigma> (spec_id spec))" "m_finished s" "posted s = events_of (spec_id spec) \<sigma>"
    using sys_invD(6) [OF sys_reach_inv [OF assms(1)]] assms(2,3) unfolding gone_ok_def by blast
  from reach_stream [OF this(1)] this(2,3) show ?thesis by simp
qed

text \<open>
  C26: A round loses no job. When a round starts in a reachable state and libcurl makes only calls it may
  make, then after the round every job that was active or incoming either is an active job still, begun,
  not finished and without a \<open>Complete\<close> event; or it is gone, and the events posted for it, those that
  the main thread has drained and those in the queue, end with exactly one \<open>Complete\<close>. The remaining
  jobs are in their order, each once; nothing that the main thread had queued is left over; and no job
  whose cancellation was requested before the round remains.
\<close>

theorem iteration_accounts_for_jobs:
  fixes later :: int
  assumes "sys_reach \<sigma>" and "idle \<sigma>" and "libcurl_ok (calls @ message_calls messages) (sys_before env now \<sigma>)"
  defines "t \<equiv> sy_thread \<sigma>"
  defines "u \<equiv> fst (run_iteration env now calls messages later t)"
  defines "told \<equiv> \<lambda>jobId. filter (\<lambda>e. ev_jobId e = jobId) (sy_log \<sigma> @ mq_events (snd (tt_world u)))"
  shows "(\<forall>job \<in> set (tt_active t @ tt_incoming t).
       (\<exists>job' \<in> set (tt_active u). m_spec job' = m_spec job \<and> 0 < m_attempt job' \<and> \<not> m_finished job' \<and>
          completes (told (job_id job)) = []) \<or>
       job_id job \<notin> job_id ` set (tt_active u) \<and> completed_once (told (job_id job))) \<and>
    subseq (map job_id (tt_active u)) (map job_id (tt_active t @ tt_incoming t)) \<and>
    distinct (map job_id (tt_active u)) \<and>
    tt_incoming u = [] \<and> tt_cancelRequests u = [] \<and> tt_consumeRequests u = [] \<and>
    (\<forall>jobId \<in> set (tt_cancelRequests t). jobId \<notin> job_id ` set (tt_active u))"
proof -
  let ?\<tau> = "sys_before env now \<sigma>"
  have b: "sys_reach ?\<tau>" "idle ?\<tau>" "sy_thread ?\<tau> = before_perform env now t" "sy_submitted ?\<tau> = sy_submitted \<sigma>"
      "sy_log ?\<tau> = sy_log \<sigma>" "\<forall>i \<in> set (tt_cancelRequests t). over i (sy_thread ?\<tau>)"
    using matched_before_perform [OF assms(1,2), of env now] by (auto simp: gets_to_def t_def)
  obtain \<upsilon> where v: "sys_reach \<upsilon>" "idle \<upsilon>" "sy_submitted \<upsilon> = sy_submitted \<sigma>" "sy_log \<upsilon> = sy_log \<sigma>" "stays_over ?\<tau> \<upsilon>"
      "sy_thread \<upsilon> = u"
    using matched_round [OF b(1-3) assms(3), of later] b(4,5) unfolding u_def by auto
  have ids: "subseq (map job_id (tt_active u)) (map job_id (tt_active t @ tt_incoming t))"
      "tt_incoming u = []" "tt_cancelRequests u = []" "tt_consumeRequests u = []" "\<forall>job \<in> set (tt_active u). \<not> m_finished job"
    using iteration_ids [of env now calls messages later t] by (simp_all add: u_def)
  have flight: "in_flight \<upsilon> = tt_active u" using v(2,6) ids(2) by (simp add: in_flight_def pending_def idle_def)
  have told: "told jobId = events_of jobId \<upsilon>" for jobId
    by (simp add: told_def events_of_def events_def v(4,6))
  note I = sys_invD [OF sys_reach_inv [OF v(1)]] and J = sys_invD [OF sys_reach_inv [OF assms(1)]]
  have names: "distinct (map job_id (tt_active u))" using I(1) by (simp add: names_ok_def flight)
  have "(\<exists>job' \<in> set (tt_active u). m_spec job' = m_spec job \<and> 0 < m_attempt job' \<and> \<not> m_finished job' \<and>
        completes (told (job_id job)) = []) \<or>
      job_id job \<notin> job_id ` set (tt_active u) \<and> completed_once (told (job_id job))"
    if job: "job \<in> set (tt_active t @ tt_incoming t)" for job
  proof -
    have spec: "m_spec job \<in> set (sy_submitted \<upsilon>)" "job_id job = spec_id (m_spec job)"
      using J(1) job assms(2) unfolding v(3) names_ok_def
      by (auto simp: t_def in_flight_def pending_def idle_def job_id_def)
    show ?thesis
    proof (cases "job_id job \<in> job_id ` set (tt_active u)")
      case False
      then show ?thesis using gone_completed [OF v(1) spec(1)] by (simp add: told flight spec(2) [symmetric])
    next
      case True
      then obtain job' where j: "job' \<in> set (tt_active u)" "job_id job' = job_id job" by (metis imageE)
      have "m_spec job' = m_spec job" using flight_spec [OF I(1) spec(1), of job'] j spec(2) by (simp add: flight)
      moreover have "0 < m_attempt job'" using sys_reach_kept [OF v(1)] j(1) by (simp add: kept_def flow_ok_def started_ok_def v(6))
      moreover have "completes (told (job_id job)) = []"
        using flight_silent [OF v(1), of job'] j ids(5) by (simp add: told flight)
      ultimately show ?thesis using j(1) ids(5) by blast
    qed
  qed
  moreover have "jobId \<notin> job_id ` set (tt_active u)" if "jobId \<in> set (tt_cancelRequests t)" for jobId
  proof -
    have "over jobId u" using b(6) v(5,6) that by (simp add: stays_over_def)
    then show ?thesis using ids(5) by (auto simp: over_def)
  qed
  ultimately show ?thesis using ids names by blast
qed

lemma iteration_accounts_for_jobs_witness:
  "tt_incoming (fst (run_iteration (\<lambda>_. partial_host) 5 [] [] 5 (sy_thread demo_admitted))) = []"
proof -
  have "idle demo_admitted"
    by (simp add: idle_def demo_admitted_def demo_new_def sys_boot_def sys_call_def Let_def)
  from iteration_accounts_for_jobs [OF demo_admitted_reach this, of "[]" "[]" "\<lambda>_. partial_host" 5 5]
  show ?thesis by simp
qed

end
