(* ===== verification/Rest_Asks.thy ===== *)
theory Rest_Asks
  imports Rest_Dispatch
begin

text \<open>
  What the main thread asks of the transfer thread. Whatever a plugin does, inside a callback or not,
  the transfer thread only gets new jobs under fresh ids and requests to cancel, appended in order;
  and a job leaves the table, or is marked as dropped, only together with a request to cancel it.
\<close>

text \<open>The record of a job that has not been dropped, whether or not its callback is running.\<close>

definition row :: "rest_state \<Rightarrow> int \<Rightarrow> job_record option" where
  "row st i =
     (case map_of (x_jobs st) i of
        None \<Rightarrow> None
      | Some r \<Rightarrow> if jr_dropped r then None else Some (r\<lparr>jr_dispatching := False\<rparr>))"

definition alive :: "rest_state \<Rightarrow> int \<Rightarrow> bool" where
  "alive st i \<longleftrightarrow> row st i \<noteq> None"

lemma row_cong: "map_of (x_jobs u) i = map_of (x_jobs st) i \<Longrightarrow> row u i = row st i"
  by (simp add: row_def)

definition same_beside_requests :: "transfer_thread \<Rightarrow> transfer_thread \<Rightarrow> bool" where
  "same_beside_requests t u \<longleftrightarrow>
     tt_active u = tt_active t \<and> tt_world u = tt_world t \<and> tt_running u = tt_running t \<and> tt_multi u = tt_multi t"

definition asks :: "request_spec list \<Rightarrow> int list \<Rightarrow> rest_state \<Rightarrow> rest_state \<Rightarrow> bool" where
  "asks specs cancels st u \<longleftrightarrow>
     tt_incoming (x_thread u) = tt_incoming (x_thread st) @ map new_job specs \<and>
     tt_cancelRequests (x_thread u) = tt_cancelRequests (x_thread st) @ cancels \<and>
     same_beside_requests (x_thread st) (x_thread u) \<and>
     x_nextJobId st \<le> x_nextJobId u \<and>
     distinct (map spec_id specs) \<and>
     (\<forall>spec \<in> set specs. x_nextJobId st \<le> spec_id spec \<and> spec_id spec < x_nextJobId u) \<and>
     (\<forall>i r. row u i = Some r \<longrightarrow> row st i = Some r \<or> i \<in> spec_id ` set specs) \<and>
     (\<forall>i. (alive st i \<or> i \<in> spec_id ` set specs) \<and> \<not> alive u i \<longrightarrow> i \<in> set cancels)"

definition sends :: "rest_state \<Rightarrow> rest_state \<Rightarrow> bool" where
  "sends st u \<longleftrightarrow> (\<exists>specs cancels. asks specs cancels st u)"

lemma asks_alive: "asks specs cancels st u \<Longrightarrow> alive u i \<Longrightarrow> alive st i \<or> i \<in> spec_id ` set specs"
  unfolding asks_def alive_def by (metis option.exhaust option.distinct(1))

named_theorems sends_rules \<open>operations that ask the transfer thread properly\<close>

lemma asks_trans:
  assumes "asks s1 c1 st u" and "asks s2 c2 u v"
  shows "asks (s1 @ s2) (c1 @ c2) st v"
proof -
  have "tt_incoming (x_thread v) = tt_incoming (x_thread st) @ map new_job (s1 @ s2)"
      "tt_cancelRequests (x_thread v) = tt_cancelRequests (x_thread st) @ c1 @ c2"
      "same_beside_requests (x_thread st) (x_thread v)"
    using assms by (simp_all add: asks_def same_beside_requests_def)
  moreover have "distinct (map spec_id (s1 @ s2))" using assms by (fastforce simp: asks_def)
  moreover have "\<forall>i r. row v i = Some r \<longrightarrow> row st i = Some r \<or> i \<in> spec_id ` set (s1 @ s2)"
    using assms unfolding asks_def by (metis UnCI image_Un set_append)
  moreover have "\<forall>i. (alive st i \<or> i \<in> spec_id ` set (s1 @ s2)) \<and> \<not> alive v i \<longrightarrow> i \<in> set (c1 @ c2)"
    using assms unfolding asks_def by (metis UnCI UnE image_Un set_append)
  moreover have "\<forall>spec \<in> set (s1 @ s2). x_nextJobId st \<le> spec_id spec \<and> spec_id spec < x_nextJobId v"
    using assms by (fastforce simp: asks_def)
  moreover have "x_nextJobId st \<le> x_nextJobId v" using assms by (simp add: asks_def)
  ultimately show ?thesis by (simp add: asks_def)
qed

lemma sends_trans: "sends st u \<Longrightarrow> sends u v \<Longrightarrow> sends st v"
  unfolding sends_def using asks_trans by blast

lemma asks_sends: "asks specs cancels st u \<Longrightarrow> sends st u"
  by (auto simp: sends_def)

lemma asks_same:
  "x_thread u = x_thread st \<Longrightarrow> x_nextJobId u = x_nextJobId st \<Longrightarrow> (\<And>i. row u i = row st i) \<Longrightarrow> asks [] [] st u"
  by (auto simp: asks_def same_beside_requests_def alive_def)

lemma sends_refl [sends_rules]: "sends st st"
  unfolding sends_def using asks_same [of st st] by blast

lemma sends_frame:
  "sends st u \<Longrightarrow> x_thread v = x_thread u \<Longrightarrow> x_nextJobId v = x_nextJobId u \<Longrightarrow>
     (\<And>i. row v i = row u i) \<Longrightarrow> sends st v"
  by (rule sends_trans [of st u v]) (auto simp: sends_def intro: asks_same)

lemma sends_effects [sends_rules]:
  assumes "sends st u"
  shows "sends st (write_object h obj u)" "sends st (write_config h config u)"
    "sends st (snd (release_forward f u))" "sends st (snd (release_record r u))"
    "sends st (sm_log fx u)" "sends st (snd (create_handle sm obj u))" "sends st (set_objects objs u)"
proof -
  have w: "sends st (write_object h obj u)" for obj
    by (rule sends_frame [OF assms]; simp add: write_object_def row_def)
  then show "sends st (write_object h obj u)" "sends st (write_config h config u)"
    using assms by (simp_all add: write_config_def split: option.split)
  have r: "sends st v \<Longrightarrow> sends st (snd (release_forward f v))" for f v
    by (rule sends_frame [of st v]) (simp_all add: row_def)
  then show "sends st (snd (release_forward f u))" "sends st (snd (release_record r u))"
    using assms by (simp_all add: release_record_def split_beta)
  show "sends st (sm_log fx u)" "sends st (set_objects objs u)"
    by (rule sends_frame [OF assms]; simp add: row_def)+
  show "sends st (snd (create_handle sm obj u))"
    by (rule sends_frame [OF assms]; simp add: create_handle_def row_def)
qed

lemma asks_cancel: "asks [] [i] st (on_thread (tt_cancel i) st)"
  by (auto simp: asks_def tt_cancel_def alive_def row_def same_beside_requests_def)

lemma sends_cancel [sends_rules]: "sends st u \<Longrightarrow> sends st (on_thread (tt_cancel i) u)"
  by (rule sends_trans [OF _ asks_sends [OF asks_cancel]])

lemma asks_drop_job: "asks [] [i] st (drop_job i st)"
proof -
  let ?s = "on_thread (tt_cancel i) st"
  have t: "x_thread (drop_job i st) = x_thread ?s" "x_nextJobId (drop_job i st) = x_nextJobId ?s"
    by (simp_all add: drop_job_def Let_def split: option.split)
  have a: "j \<noteq> i \<Longrightarrow> row (drop_job i st) j = row st j" for j
    by (rule row_cong) (simp add: drop_job_def Let_def delete_conv' update_record_def update_conv' split: option.split)
  have b: "row (drop_job i st) i = None"
    by (auto simp: drop_job_def Let_def row_def delete_conv' update_record_def update_conv' split: option.split)
  have "tt_incoming (x_thread ?s) = tt_incoming (x_thread st) @ map new_job []"
      "tt_cancelRequests (x_thread ?s) = tt_cancelRequests (x_thread st) @ [i]"
      "same_beside_requests (x_thread st) (x_thread ?s)" "x_nextJobId st \<le> x_nextJobId ?s"
    using asks_cancel [of i st] by (simp_all add: asks_def)
  moreover have "row (drop_job i st) j = Some r \<longrightarrow> row st j = Some r" for j r using a [of j] b by (metis option.distinct(1))
  moreover have "alive st j \<and> \<not> alive (drop_job i st) j \<longrightarrow> j = i" for j unfolding alive_def using a [of j] by metis
  ultimately show ?thesis unfolding asks_def t by simp
qed

lemma sends_drop_job [sends_rules]: "sends st u \<Longrightarrow> sends st (drop_job i u)"
  by (rule sends_trans [OF _ asks_sends [OF asks_drop_job]])

lemma sends_drop_matching [sends_rules]: "sends st u \<Longrightarrow> sends st (drop_matching P u)"
proof -
  have "sends st v \<Longrightarrow> sends st (fold (\<lambda>(i, record) st. if \<not> P record then st else drop_job i st) js v)" for js v
    by (induction js arbitrary: v) (simp_all add: sends_drop_job split_beta)
  then show "sends st u \<Longrightarrow> sends st (drop_matching P u)" by (simp add: drop_matching_def)
qed

lemma sends_destroy_object [sends_rules]: "sends st u \<Longrightarrow> sends st (destroy_object h u)"
proof -
  have "sends st v \<Longrightarrow> sends st (on_handle_destroy obj v)" for obj v
    by (cases obj) (auto simp: drop_jobs_for_client_def Let_def split_beta intro!: sends_rules)
  then show "sends st u \<Longrightarrow> sends st (destroy_object h u)"
    by (auto simp: destroy_object_def intro: sends_rules split: option.split)
qed

lemma sends_free_handle [sends_rules]: "sends st u \<Longrightarrow> sends st (free_handle sm h u)"
  by (simp add: free_handle_def sends_destroy_object)

lemma sends_free_owned [sends_rules]: "sends st u \<Longrightarrow> sends st (free_owned_handle sm h u)"
  by (simp add: free_owned_handle_def sends_free_handle)

lemma sends_cancel_job [sends_rules]: "sends st u \<Longrightarrow> sends st (snd (cancel_job i who u))"
  by (auto simp: cancel_job_def intro: sends_rules split: option.split)

lemma sends_cancel_jobs [sends_rules]: "sends st u \<Longrightarrow> sends st (snd (cancel_jobs_for_client h who u))"
proof -
  have "sends st v \<Longrightarrow> sends st (snd (fold (\<lambda>(jobId, record) (cancelled, st).
        if jr_clientHandle record \<noteq> h \<or> jr_owner record \<noteq> who then (cancelled, st)
        else (cancelled + 1, on_thread (tt_cancel jobId) st)) js (n, v)))" for js v and n :: int
    by (induction js arbitrary: v n) (simp_all add: split_beta sends_cancel)
  then show "sends st u \<Longrightarrow> sends st (snd (cancel_jobs_for_client h who u))"
    by (simp add: cancel_jobs_for_client_def)
qed

lemma sends_submit_job:
  assumes "sends st u" and "0 < x_nextJobId u" and "x_nextJobId u < 2147483647" and "\<not> jr_dropped r"
  shows "sends st (snd (submit_job spec r u))"
proof -
  let ?i = "x_nextJobId u"
  let ?spec = "spec\<lparr>spec_id := ?i, spec_caBundle := x_caBundlePath u, spec_verbose := x_verbose u\<rparr>"
  have "to_i32 (?i + 1) = ?i + 1" using assms(2,3) by (simp add: is_i32_def)
  then have "asks [?spec] [] u (snd (submit_job spec r u))"
    using assms(4) by (auto simp: submit_job_def Let_def asks_def enqueue_def alive_def row_def update_conv' same_beside_requests_def)
  then show ?thesis using sends_trans [OF assms(1)] unfolding sends_def by blast
qed

lemma sends_create_callback [sends_rules]:
  "sends st u \<Longrightarrow> sends st (snd (create_callback_forward sig sm func u))"
  by (auto simp: create_callback_forward_def intro: sends_rules split: option.split)

lemma sent_not_dropped: "\<not> jr_dropped (sent_record who context f r)"
  by (simp add: sent_record_def job_record_default_def)

lemma sends_natives:
  assumes "0 < x_nextJobId st" and "answers_ok sm st" and "(name, native) \<in> set g_natives"
  shows "sends st (snd (native sm px p st))"
proof -
  note q = sends_refl [of st]
  have send: "sends st (snd (native_request_send sm px p st))"
    using assms(1,2)
    by (cases rule: create_callback_cases [of sig_completed sm "p 2" st])
      (auto simp: native_request_send_eq sent_not_dropped create_forward_defs answers_ok_def write_object_def split_beta Let_def
        split: sum.split intro!: sends_free_handle sends_submit_job
        intro: sends_rules sends_effects(1) [unfolded write_object_def])
  have cb: "sends st (snd (native_request_on_headers sm px p st))" "sends st (snd (native_request_on_data sm px p st))"
    "sends st (snd (native_request_on_progress sm px p st))"
    using create_callback_cases [of _ sm "p 2" st]
    by (auto simp: native_request_on_headers_def native_request_on_data_def native_request_on_progress_def
        create_forward_defs create_callback_forward_def split_beta Let_def split: sum.split option.split
        intro!: sends_rules)
  have "list_all (\<lambda>(n, f). sends st (snd (f sm px p st))) g_natives"
    unfolding g_natives_def
    by (simp add: send cb config_natives request_natives native_client_create_def native_client_request_def
        native_client_set_base_url_def native_client_cancel_def native_client_cancel_all_def Let_def split_beta
        sends_rules response_natives_pure native_response_get_status_def native_response_get_http_status_def
        native_response_get_content_length_def native_response_get_body_length_def
        native_response_get_elapsed_ms_def native_response_get_header_count_def split: sum.split)
  then show ?thesis using assms(3) by (auto simp: list_all_iff)
qed

section \<open>Plugins and events\<close>

lemma sends_run_action: "0 < x_nextJobId st \<Longrightarrow> sends st (run_action act st)"
  by (cases act) (auto simp: on_plugin_unloaded_def sends_rules intro: sends_natives dest: map_of_SomeD split: option.split)

lemma sends_next: "sends st u \<Longrightarrow> 0 < x_nextJobId st \<Longrightarrow> 0 < x_nextJobId u"
  by (auto simp: sends_def asks_def)

lemma sends_actions: "0 < x_nextJobId st \<Longrightarrow> sends st (fold run_action actions st)"
proof (induction actions arbitrary: st)
  case Nil
  show ?case by (simp add: sends_refl)
next
  case (Cons act actions)
  note one = sends_run_action [OF Cons.prems, of act]
  from sends_trans [OF one Cons.IH [OF sends_next [OF one Cons.prems]]] show ?case by simp
qed

lemma sends_execute: "sends st u \<Longrightarrow> 0 < x_nextJobId st \<Longrightarrow> sends st (snd (execute (plugin_of script) i call u))"
proof -
  assume u: "sends st u" and n: "0 < x_nextJobId st"
  let ?l = "sm_log (Fx_Call i call) u"
  have l: "sends st ?l" by (rule sends_effects(5) [OF u])
  have "sends ?l (snd (plugin_of script call ?l))"
    using sends_actions [OF sends_next [OF l n]] by (simp add: plugin_of_def split_beta)
  then show ?thesis using sends_trans [OF l] by (simp add: execute_def)
qed

lemma sends_create_response: "sends st u \<Longrightarrow> sends st (snd (create_response_handle sm event u))"
  by (simp add: create_response_handle_def Let_def split_beta sends_effects)

lemma asks_consume: "sends st u \<Longrightarrow> sends st (on_thread (tt_consume i n) u)"
proof -
  have "asks [] [] u (on_thread (tt_consume i n) u)"
    by (auto simp: asks_def tt_consume_def alive_def row_def same_beside_requests_def)
  then show "sends st u \<Longrightarrow> ?thesis" using sends_trans asks_sends by blast
qed

lemma sends_dispatch:
  assumes n: "0 < x_nextJobId st" and u: "sends st u"
  shows "sends st (dispatch_kind kind sm (plugin_of script) r event u)"
    and "sends st (dispatch_complete sm (plugin_of script) r event u)"
proof -
  have "sends st (dispatch_progress sm (plugin_of script) r event u)"
    using u sends_execute [OF u n] by (simp add: dispatch_progress_def split: option.split)
  moreover have "sends st (dispatch_headers sm (plugin_of script) r event u)"
    using u sends_create_response [OF u] sends_execute [OF _ n]
    by (auto simp: dispatch_headers_def Let_def split_beta intro!: sends_cancel sends_free_owned split: option.split)
  moreover have "sends st (dispatch_data sm (plugin_of script) r event u)"
    using u sends_execute [OF u n]
    by (auto simp: dispatch_data_def Let_def intro!: asks_consume split: option.split)
  ultimately show "sends st (dispatch_kind kind sm (plugin_of script) r event u)"
    using u by (cases kind) simp_all
  show "sends st (dispatch_complete sm (plugin_of script) r event u)"
    using u sends_create_response [OF u] sends_execute [OF _ n]
    by (auto simp: dispatch_complete_def Let_def split_beta intro!: sends_free_owned split: option.split)
qed

lemma row_dispatching: "row (update_record i (\<lambda>r. r\<lparr>jr_dispatching := d\<rparr>) st) j = row st j"
  by (auto simp: row_def update_record_def update_conv' split: option.split)

text \<open>Handling an event: only the completion of a job removes a record that nobody has dropped.\<close>

lemma sends_handle_event:
  assumes n: "0 < x_nextJobId st"
  shows "sends (if ev_kind event = Kind_Complete then erase_record (ev_jobId event) st else st)
    (handle_event sm (plugin_of script) event st)"
proof (cases "map_of (x_jobs st) (ev_jobId event)")
  case None
  moreover have "x_jobs (erase_record (ev_jobId event) st) = x_jobs st" using None by (simp add: delete_absent)
  then have "sends (erase_record (ev_jobId event) st) st"
    by (intro sends_frame [OF sends_refl]) (simp_all add: row_def)
  ultimately show ?thesis by (simp add: handle_event_def sends_refl)
next
  case (Some r)
  show ?thesis
  proof (cases "ev_kind event = Kind_Complete")
    case True
    let ?e = "erase_record (ev_jobId event) st"
    have "sends ?e (dispatch_complete sm (plugin_of script) r event ?e)"
      by (rule sends_dispatch(2)) (simp_all add: n sends_refl)
    with True Some show ?thesis by (simp add: handle_event_def Let_def sends_effects)
  next
    case False
    let ?on = "update_record (ev_jobId event) (\<lambda>r. r\<lparr>jr_dispatching := True\<rparr>) st"
    let ?d = "dispatch_kind (ev_kind event) sm (plugin_of script) (r\<lparr>jr_dispatching := True\<rparr>) event ?on"
    let ?off = "update_record (ev_jobId event) (\<lambda>r. r\<lparr>jr_dispatching := False\<rparr>) ?d"
    have "sends st ?on" by (rule sends_frame [OF sends_refl]) (simp_all add: row_dispatching)
    then have "sends st ?d" by (rule sends_dispatch(1) [OF n])
    then have off: "sends st ?off" by (rule sends_frame) (simp_all add: row_dispatching)
    have "sends st (erase_record (ev_jobId event) (snd (release_record q ?off)))"
      if q: "map_of (x_jobs ?off) (ev_jobId event) = Some q" "jr_dropped q" for q
      using q by (intro sends_frame [OF off]) (auto simp: row_def delete_conv')
    with off False Some show ?thesis
      by (auto simp: handle_event_def handle_intermediate_def Let_def split: option.split)
  qed
qed

end
