(* ===== verification/Rest_Program.thy ===== *)
theory Rest_Program
  imports Rest_Asks Rest_Main Rest_Streams
begin

text \<open>
  The whole program: the state of the main thread, the events of the current frame that it has not
  handled yet, and the system of \<open>Rest_System\<close>, whose transfer thread is the one the main thread
  calls. Between two events of a frame, and between any two actions of plugins, the transfer thread
  may take any number of steps; handling one event is one step.
\<close>

section \<open>The program\<close>

text \<open>The system after the main thread has gone from \<open>st\<close> to \<open>u\<close>.\<close>

definition follow :: "rest_state \<Rightarrow> rest_state \<Rightarrow> system \<Rightarrow> system" where
  "follow st u \<sigma> =
     \<sigma>\<lparr>sy_thread := x_thread u,
       sy_submitted := sy_submitted \<sigma> @
         map m_spec (drop (length (tt_incoming (x_thread st))) (tt_incoming (x_thread u)))\<rparr>"

inductive program ::
  "(plugin_call \<Rightarrow> rest_state \<Rightarrow> plugin_action list \<times> int) \<Rightarrow> rest_state \<Rightarrow> transfer_event list \<Rightarrow>
     system \<Rightarrow> bool" for script where
  load: "fst (sdk_on_load la sm maxlength (rest_start fs)) = None \<Longrightarrow>
     program script (snd (sdk_on_load la sm maxlength (rest_start fs))) [] (sys_boot fs)"
| act: "program script st [] \<sigma> \<Longrightarrow> apart_ok (follow st (run_action action st) \<sigma>) \<Longrightarrow>
     program script (run_action action st) [] (follow st (run_action action st) \<sigma>)"
| drain: "program script st [] \<sigma> \<Longrightarrow> mq_hasEvents (main_queue st) \<Longrightarrow>
     program script (set_main_queue (snd (queue_drain (main_queue st))) st)
       (fst (queue_drain (main_queue st))) (sys_drain \<sigma>)"
| handle: "program script st (event # es) \<sigma> \<Longrightarrow> event_answers_ok sm st \<Longrightarrow>
     apart_ok (follow st (handle_event sm (plugin_of script) event st) \<sigma>) \<Longrightarrow>
     program script (handle_event sm (plugin_of script) event st) es
       (follow st (handle_event sm (plugin_of script) event st) \<sigma>)"
| thread: "program script st es \<sigma> \<Longrightarrow> thread_step \<sigma> \<tau> \<Longrightarrow> program script (st\<lparr>x_thread := sy_thread \<tau>\<rparr>) es \<tau>"

section \<open>What the main thread asks for are steps of the system\<close>

definition with_requests :: "request_spec list \<Rightarrow> int list \<Rightarrow> (int \<times> int) list \<Rightarrow> system \<Rightarrow> system" where
  "with_requests specs cancels credits \<sigma> =
     \<sigma>\<lparr>sy_thread := (sy_thread \<sigma>)
         \<lparr>tt_incoming := tt_incoming (sy_thread \<sigma>) @ map new_job specs,
          tt_cancelRequests := tt_cancelRequests (sy_thread \<sigma>) @ cancels,
          tt_consumeRequests := tt_consumeRequests (sy_thread \<sigma>) @ credits\<rparr>,
       sy_submitted := sy_submitted \<sigma> @ specs\<rparr>"

lemma with_requests_select [simp]:
  "in_flight (with_requests specs cancels credits \<sigma>) = in_flight \<sigma> @ map new_job specs"
  "sy_submitted (with_requests specs cancels credits \<sigma>) = sy_submitted \<sigma> @ specs"
  "sy_applied (with_requests specs cancels credits \<sigma>) = sy_applied \<sigma>"
  "sy_log (with_requests specs cancels credits \<sigma>) = sy_log \<sigma>"
  "given i (with_requests specs cancels credits \<sigma>) = given i \<sigma>"
  "asked i (with_requests specs cancels credits \<sigma>) =
     asked i \<sigma> + sum_list (map snd (filter (\<lambda>r. fst r = i) credits))"
  by (simp_all add: with_requests_def in_flight_def pending_def given_def asked_def)

lemma apart_okD:
  "apart_ok \<sigma> \<Longrightarrow> a \<in> set (in_flight \<sigma>) \<Longrightarrow> b \<in> set (in_flight \<sigma>) \<Longrightarrow> job_id a \<noteq> job_id b \<Longrightarrow>
     \<not> (own_path (m_spec a) p \<and> own_path (m_spec b) p)"
  unfolding apart_ok_def by blast

lemma reach_submits:
  "sys_reach \<sigma> \<Longrightarrow> distinct (map spec_id specs) \<Longrightarrow> spec_id ` set specs \<inter> spec_id ` set (sy_submitted \<sigma>) = {} \<Longrightarrow>
     apart_ok (with_requests specs [] [] \<sigma>) \<Longrightarrow> sys_reach (with_requests specs [] [] \<sigma>)"
proof (induction specs rule: rev_induct)
  case Nil
  then show ?case by (simp add: with_requests_def)
next
  case (snoc spec specs)
  let ?\<tau> = "with_requests specs [] [] \<sigma>"
  have "apart_ok ?\<tau>" using snoc.prems(4) by (simp add: apart_ok_def)
  then have r: "sys_reach ?\<tau>" using snoc.IH snoc.prems(1-3) by auto
  note names = sys_invD(1) [OF sys_reach_inv [OF r]]
  have fid: "spec_id spec \<notin> spec_id ` set (sy_submitted ?\<tau>)" using snoc.prems(2,3) by auto
  have "\<not> (own_path spec p \<and> own_path (m_spec job) p)" if job: "job \<in> set (in_flight ?\<tau>)" for job p
  proof -
    have "job_id job \<in> spec_id ` set (sy_submitted ?\<tau>)" using names job by (auto simp: names_ok_def job_id_def)
    then have "job_id (new_job spec) \<noteq> job_id job" using fid by auto
    then show ?thesis using apart_okD [OF snoc.prems(4), of "new_job spec" job p] job by simp
  qed
  then have "sys_reach (sys_submit spec ?\<tau>)" using fid by (intro sys_reach.submit [OF r]) (simp add: fresh_request_def)
  then show ?case by (simp add: sys_submit_def enqueue_def with_requests_def)
qed

lemma reach_cancels: "sys_reach \<sigma> \<Longrightarrow> sys_reach (with_requests [] cancels [] \<sigma>)"
proof (induction cancels rule: rev_induct)
  case Nil
  then show ?case by (simp add: with_requests_def)
next
  case (snoc i cancels)
  from sys_reach.cancel [OF snoc.IH [OF snoc.prems], of i] show ?case
    by (simp add: tt_cancel_def with_requests_def)
qed

lemma reach_credit:
  assumes "sys_reach \<sigma>" "snd r \<ge> 0" "sy_applied \<sigma> (fst r) + asked (fst r) \<sigma> + snd r \<le> given (fst r) \<sigma>"
  shows "sys_reach (with_requests [] [] [r] \<sigma>)"
  using sys_reach.consume [OF assms] by (simp add: tt_consume_def with_requests_def)

lemma reach_requests:
  assumes "sys_reach \<sigma>" "distinct (map spec_id specs)" "spec_id ` set specs \<inter> spec_id ` set (sy_submitted \<sigma>) = {}"
    and "apart_ok (with_requests specs cancels credits \<sigma>)"
    and "credits = [] \<or> (\<exists>r. credits = [r] \<and> snd r \<ge> 0 \<and> sy_applied \<sigma> (fst r) + asked (fst r) \<sigma> + snd r \<le> given (fst r) \<sigma>)"
  shows "sys_reach (with_requests specs cancels credits \<sigma>)"
proof -
  have "apart_ok (with_requests specs [] [] \<sigma>)" using assms(4) by (simp add: apart_ok_def)
  then have "sys_reach (with_requests [] cancels [] (with_requests specs [] [] \<sigma>))"
    by (intro reach_cancels reach_submits assms(1-3))
  moreover have "with_requests [] cancels [] (with_requests specs [] [] \<sigma>) = with_requests specs cancels [] \<sigma>"
    by (simp add: with_requests_def)
  ultimately have r: "sys_reach (with_requests specs cancels [] \<sigma>)" by simp
  show ?thesis
  proof (cases "credits = []")
    case False
    then obtain c where c: "credits = [c]" "snd c \<ge> 0" "sy_applied \<sigma> (fst c) + asked (fst c) \<sigma> + snd c \<le> given (fst c) \<sigma>"
      using assms(5) by blast
    then have "sys_reach (with_requests [] [] [c] (with_requests specs cancels [] \<sigma>))"
      by (intro reach_credit [OF r]) simp_all
    moreover have "with_requests [] [] [c] (with_requests specs cancels [] \<sigma>) = with_requests specs cancels credits \<sigma>"
      by (simp add: with_requests_def c(1))
    ultimately show ?thesis by simp
  qed (use r in simp)
qed

lemma follow_requests:
  assumes "x_thread st = sy_thread \<sigma>" and "asks specs cancels st0 u" and "x_thread st0 = x_thread st"
    and "tt_consumeRequests (x_thread u) = tt_consumeRequests (x_thread st) @ credits"
  shows "follow st u \<sigma> = with_requests specs cancels credits \<sigma>"
proof -
  have "map (m_spec \<circ> new_job) specs = specs" by (induction specs) simp_all
  moreover have "x_thread u = (sy_thread \<sigma>)
       \<lparr>tt_incoming := tt_incoming (sy_thread \<sigma>) @ map new_job specs,
        tt_cancelRequests := tt_cancelRequests (sy_thread \<sigma>) @ cancels,
        tt_consumeRequests := tt_consumeRequests (sy_thread \<sigma>) @ credits\<rparr>"
    using assms by (intro transfer_thread.equality) (simp_all add: asks_def same_beside_requests_def)
  ultimately show ?thesis using assms(1) by (simp add: follow_def with_requests_def)
qed

section \<open>The invariant of the program\<close>

definition data_of :: "int \<Rightarrow> transfer_event list \<Rightarrow> int" where
  "data_of i es = int (length (data_bytes (filter (\<lambda>e. ev_jobId e = i) es)))"

lemma data_of_append [simp]: "data_of i (es @ fs) = data_of i es + data_of i fs"
  by (simp add: data_of_def)

lemma data_of_Nil [simp]: "data_of i [] = 0"
  by (simp add: data_of_def)

lemma data_of_Cons: "data_of i (e # es) = (if ev_jobId e = i \<and> ev_kind e = Kind_Data then int (length (ev_body e)) else 0) + data_of i es"
  using data_of_append [of i "[e]" es] by (simp add: data_of_def)

lemma data_of_nonneg [simp]: "0 \<le> data_of i es"
  by (simp add: data_of_def)

lemma given_eq: "given i \<sigma> = data_of i (sy_log \<sigma>)"
  by (simp add: given_def data_of_def)

text \<open>
  Credit: the bytes of the events that are still to be handled have not been given back, all others
  of a job in the table have.
\<close>

definition credit_due :: "rest_state \<Rightarrow> transfer_event list \<Rightarrow> system \<Rightarrow> bool" where
  "credit_due st es \<sigma> \<longleftrightarrow>
     (\<forall>i. sy_applied \<sigma> i + asked i \<sigma> + data_of i es \<le> given i \<sigma>) \<and>
     (\<forall>i. alive st i \<longrightarrow> sy_applied \<sigma> i + asked i \<sigma> + data_of i es = given i \<sigma>)"

text \<open>A job that is running although its record is gone is about to be cancelled.\<close>

definition cancel_due :: "rest_state \<Rightarrow> system \<Rightarrow> bool" where
  "cancel_due st \<sigma> \<longleftrightarrow>
     (\<forall>job \<in> set (tt_active (sy_thread \<sigma>) @ sy_taken \<sigma>). \<not> m_finished job \<longrightarrow> alive st (job_id job) \<or>
        job_id job \<in> set (sy_cancels \<sigma> @ tt_cancelRequests (sy_thread \<sigma>))) \<and>
     (\<forall>job \<in> set (tt_incoming (sy_thread \<sigma>)). alive st (job_id job) \<or>
        job_id job \<in> set (tt_cancelRequests (sy_thread \<sigma>)))"

text \<open>
  No job is forgotten: a record in the table is of a submitted request, and goes when the completion
  of its job is handled.
\<close>

definition answers_due :: "rest_state \<Rightarrow> transfer_event list \<Rightarrow> system \<Rightarrow> bool" where
  "answers_due st es \<sigma> \<longleftrightarrow>
     (\<forall>i. alive st i \<longrightarrow> i \<in> spec_id ` set (sy_submitted \<sigma>)) \<and>
     (\<exists>past. sy_log \<sigma> = past @ es \<and> (\<forall>e \<in> set past. ev_kind e = Kind_Complete \<longrightarrow> \<not> alive st (ev_jobId e)))"

definition program_inv :: "rest_state \<Rightarrow> transfer_event list \<Rightarrow> system \<Rightarrow> bool" where
  "program_inv st es \<sigma> \<longleftrightarrow>
     sys_reach \<sigma> \<and> x_thread st = sy_thread \<sigma> \<and> main_inv {#} None st \<and>
     (\<forall>spec \<in> set (sy_submitted \<sigma>). spec_id spec < x_nextJobId st) \<and>
     answers_due st es \<sigma> \<and> credit_due st es \<sigma> \<and> cancel_due st \<sigma>"

text \<open>Whatever the main thread does between two states, in terms of what it asked for.\<close>

lemma fresh_silent:
  assumes "sys_reach \<sigma>" and "\<forall>spec \<in> set (sy_submitted \<sigma>). spec_id spec < n" and "n \<le> i"
  shows "given i \<sigma> = 0" and "sy_applied \<sigma> i + asked i \<sigma> = 0"
proof -
  note k = sys_reach_kept [OF assms(1)]
  have "events_ok \<sigma>" "credit_ok \<sigma>" using k by (simp_all add: kept_def sys_inv_def flow_ok_def)
  have "ev_jobId e \<noteq> i" if "e \<in> set (sy_log \<sigma>)" for e
  proof -
    have "e \<in> set (events \<sigma>)" using that by (simp add: events_def)
    then have "ev_jobId e \<in> spec_id ` set (sy_submitted \<sigma>)" using \<open>events_ok \<sigma>\<close> unfolding events_ok_def by blast
    then show ?thesis using assms(2,3) by auto
  qed
  then have "filter (\<lambda>e. ev_jobId e = i) (sy_log \<sigma>) = []" by (simp add: filter_empty_conv)
  then show g: "given i \<sigma> = 0" by (simp add: given_def)
  have "0 \<le> sy_applied \<sigma> i" "sy_applied \<sigma> i + asked i \<sigma> \<le> given i \<sigma>" "0 \<le> asked i \<sigma>"
    using \<open>credit_ok \<sigma>\<close> asked_nonneg [OF \<open>credit_ok \<sigma>\<close>] by (simp_all add: credit_ok_def)
  then show "sy_applied \<sigma> i + asked i \<sigma> = 0" using g by linarith
qed

lemma new_unfinished: "\<not> m_finished (new_job spec)"
  by (simp add: new_job_def)

lemma main_thread_step:
  assumes inv: "program_inv st es0 \<sigma>" and asks: "asks specs cancels st0 u" and st0: "x_thread st0 = x_thread st"
      "x_nextJobId st0 = x_nextJobId st" and main: "main_inv {#} None u"
    and consume: "tt_consumeRequests (x_thread u) = tt_consumeRequests (x_thread st) @ credits"
    and apart: "apart_ok (follow st u \<sigma>)"
    and credits: "credits = [] \<or> (\<exists>r. credits = [r] \<and> snd r \<ge> 0 \<and> sy_applied \<sigma> (fst r) + asked (fst r) \<sigma> + snd r \<le> given (fst r) \<sigma>)"
    and past: "sy_log \<sigma> = past @ es" "\<forall>e \<in> set past. ev_kind e = Kind_Complete \<longrightarrow> \<not> alive st0 (ev_jobId e)"
    and due: "\<And>i. sum_list (map snd (filter (\<lambda>r. fst r = i) credits)) + data_of i es \<le> data_of i es0"
      "\<And>i. alive st0 i \<Longrightarrow> alive st i \<and> sum_list (map snd (filter (\<lambda>r. fst r = i) credits)) + data_of i es = data_of i es0"
    and lost: "\<And>job. job \<in> set (in_flight \<sigma>) \<Longrightarrow> \<not> m_finished job \<Longrightarrow> alive st (job_id job) \<Longrightarrow> alive st0 (job_id job)"
  shows "program_inv u es (follow st u \<sigma>)"
proof -
  let ?\<tau> = "with_requests specs cancels credits \<sigma>"
  have I: "sys_reach \<sigma>" "x_thread st = sy_thread \<sigma>" "\<forall>spec \<in> set (sy_submitted \<sigma>). spec_id spec < x_nextJobId st"
      "credit_due st es0 \<sigma>" "cancel_due st \<sigma>" "answers_due st es0 \<sigma>"
    using inv by (simp_all add: program_inv_def)
  have eq: "follow st u \<sigma> = ?\<tau>" by (rule follow_requests [OF I(2) asks st0(1) consume])
  have A: "distinct (map spec_id specs)" "\<forall>spec \<in> set specs. x_nextJobId st \<le> spec_id spec \<and> spec_id spec < x_nextJobId u"
      "x_nextJobId st \<le> x_nextJobId u" "\<And>i. alive u i \<Longrightarrow> alive st0 i \<or> i \<in> spec_id ` set specs"
      "\<And>i. alive st0 i \<or> i \<in> spec_id ` set specs \<Longrightarrow> \<not> alive u i \<Longrightarrow> i \<in> set cancels"
    using asks asks_alive [OF asks] st0(2) by (simp_all add: asks_def)
  have "spec_id ` set specs \<inter> spec_id ` set (sy_submitted \<sigma>) = {}" using A(2) I(3) by fastforce
  then have reach: "sys_reach ?\<tau>" using apart credits unfolding eq by (intro reach_requests I(1) A(1))
  have thread: "x_thread u = sy_thread ?\<tau>" using arg_cong [OF eq, of sy_thread] by (simp add: follow_def)
  have ids: "\<forall>spec \<in> set (sy_submitted ?\<tau>). spec_id spec < x_nextJobId u" using A(2,3) I(3) by fastforce
  have "credit_due u es ?\<tau>"
    unfolding credit_due_def
  proof (intro conjI allI impI)
    fix i
    show "sy_applied ?\<tau> i + asked i ?\<tau> + data_of i es \<le> given i ?\<tau>"
      using I(4) due(1) [of i] unfolding credit_due_def with_requests_select by (smt (verit))
    assume a: "alive u i"
    show "sy_applied ?\<tau> i + asked i ?\<tau> + data_of i es = given i ?\<tau>"
    proof (cases "alive st0 i")
      case True
      then have "sy_applied \<sigma> i + asked i \<sigma> + data_of i es0 = given i \<sigma>"
        using due(2) I(4) by (simp add: credit_due_def)
      then show ?thesis using due(2) [OF True] by simp
    next
      case False
      then have n: "x_nextJobId st \<le> i" using A(4) [OF a] A(2) by auto
      note f = fresh_silent [OF I(1,3) n]
      have "data_of i es0 \<le> 0" using I(4) f by (simp add: credit_due_def) (metis add_0)
      then have "sum_list (map snd (filter (\<lambda>r. fst r = i) credits)) + data_of i es \<le> 0" using due(1) [of i] by linarith
      moreover have "0 \<le> sum_list (map snd (filter (\<lambda>r. fst r = i) credits))" using credits by (auto split: if_splits)
      moreover have "0 \<le> data_of i es" by (rule data_of_nonneg)
      ultimately show ?thesis using f unfolding with_requests_select by linarith
    qed
  qed
  moreover have "cancel_due u ?\<tau>"
    unfolding cancel_due_def
  proof (intro conjI ballI impI)
    fix job
    assume j: "job \<in> set (tt_active (sy_thread ?\<tau>) @ sy_taken ?\<tau>)" "\<not> m_finished job"
    then have old: "job \<in> set (tt_active (sy_thread \<sigma>) @ sy_taken \<sigma>)" by (simp add: with_requests_def)
    then have "alive st (job_id job) \<Longrightarrow> alive st0 (job_id job)" using lost [of job] j(2) by (auto simp: in_flight_def pending_def)
    then show "alive u (job_id job) \<or> job_id job \<in> set (sy_cancels ?\<tau> @ tt_cancelRequests (sy_thread ?\<tau>))"
      using I(5) old j(2) A(5) [of "job_id job"] by (auto simp: cancel_due_def with_requests_def)
  next
    fix job
    assume "job \<in> set (tt_incoming (sy_thread ?\<tau>))"
    then consider "job \<in> set (tt_incoming (sy_thread \<sigma>))" | spec where "spec \<in> set specs" "job = new_job spec"
      by (auto simp: with_requests_def)
    then show "alive u (job_id job) \<or> job_id job \<in> set (tt_cancelRequests (sy_thread ?\<tau>))"
    proof cases
      case 1
      then have fl: "job \<in> set (in_flight \<sigma>)" "job \<in> set (pending \<sigma>)" by (simp_all add: in_flight_def pending_def)
      have "job = new_job (m_spec job)"
        using sys_invD(1) [OF sys_reach_inv [OF I(1)]] fl(2) by (simp add: names_ok_def)
      then have "\<not> m_finished job" using new_unfinished [of "m_spec job"] by simp
      with lost [OF fl(1)] have "alive st (job_id job) \<Longrightarrow> alive st0 (job_id job)" by blast
      then show ?thesis using I(5) 1 A(5) [of "job_id job"] by (auto simp: cancel_due_def with_requests_def)
    next
      case 2
      then show ?thesis using A(5) [of "spec_id spec"] by (auto simp: with_requests_def)
    qed
  qed
  moreover have "answers_due u es ?\<tau>"
  proof -
    have "i \<in> spec_id ` set (sy_submitted ?\<tau>)" if "alive u i" for i
      using A(4) [OF that] due(2) [of i] I(6) by (auto simp: answers_due_def)
    moreover have "\<not> alive u (ev_jobId e)" if e: "e \<in> set past" "ev_kind e = Kind_Complete" for e
    proof
      assume "alive u (ev_jobId e)"
      then have "ev_jobId e \<in> spec_id ` set specs" using A(4) past(2) e by blast
      moreover have "e \<in> set (events \<sigma>)" using e(1) past(1) by (simp add: events_def)
      then have "ev_jobId e \<in> spec_id ` set (sy_submitted \<sigma>)"
        using sys_invD(4) [OF sys_reach_inv [OF I(1)]] unfolding events_ok_def by blast
      ultimately show False using A(2) I(3) by fastforce
    qed
    ultimately show ?thesis using past(1) unfolding answers_due_def with_requests_select by blast
  qed
  ultimately show ?thesis
    unfolding program_inv_def eq using reach thread main ids by simp
qed

section \<open>Every step keeps the invariant\<close>

lemma main_inv_alive:
  "main_inv {#} None st \<Longrightarrow> map_of (x_jobs st) i = Some r \<Longrightarrow> alive st i"
  using jobs_okD(4,5) [of None st i r] by (auto simp: main_inv_def alive_def row_def)

lemma load_thread:
  "fst (sdk_on_load la sm n (rest_start fs)) = None \<Longrightarrow>
     x_thread (snd (sdk_on_load la sm n (rest_start fs))) = sy_thread (sys_boot fs) \<and>
     x_jobs (snd (sdk_on_load la sm n (rest_start fs))) = []"
  by (auto simp: sdk_on_load_def Let_def split_beta tt_start_def detect_ca_bundle_def rest_start_def sys_boot_def
      split: if_splits)

lemma program_load:
  assumes "fst (sdk_on_load la sm n (rest_start fs)) = None"
  shows "program_inv (snd (sdk_on_load la sm n (rest_start fs))) [] (sys_boot fs)"
proof -
  note l = load_thread [OF assms]
  have "main_inv {#} None (snd (sdk_on_load la sm n (rest_start fs)))"
    by (intro main_inv_load main_inv_start_state)
  moreover have "\<not> alive (snd (sdk_on_load la sm n (rest_start fs))) i" for i using l by (simp add: alive_def row_def)
  ultimately show ?thesis
    using l sys_reach.boot [of fs]
    by (simp add: program_inv_def answers_due_def credit_due_def cancel_due_def)
       (simp add: sys_boot_def given_def asked_def)
qed

lemma program_act:
  assumes inv: "program_inv st [] \<sigma>" and apart: "apart_ok (follow st (run_action action st) \<sigma>)"
  shows "program_inv (run_action action st) [] (follow st (run_action action st) \<sigma>)"
proof -
  have main: "main_inv {#} None st" using inv by (simp add: program_inv_def)
  note n = main_inv_next [OF main]
  obtain specs cancels where a: "asks specs cancels st (run_action action st)"
    using sends_run_action [OF n, of action] unfolding sends_def by blast
  have q: "tt_consumeRequests (x_thread (run_action action st)) = tt_consumeRequests (x_thread st) @ []"
    using quiet_run_action [OF n, of action] by (simp add: quiet_def)
  obtain past where "sy_log \<sigma> = past @ []" "\<forall>e \<in> set past. ev_kind e = Kind_Complete \<longrightarrow> \<not> alive st (ev_jobId e)"
    using inv by (auto simp: program_inv_def answers_due_def)
  from main_thread_step [OF inv a refl refl main_inv_run_action [OF main] q apart _ this] show ?thesis by simp
qed

lemma queue_events: "sys_reach \<sigma> \<Longrightarrow>
    snd (tt_world (sy_thread \<sigma>)) = queue_of (mq_events (snd (tt_world (sy_thread \<sigma>))))"
  using sys_invD(3) [OF sys_reach_inv] by (simp add: queue_ok_def)

lemma alive_thread [simp]: "alive (st\<lparr>x_thread := t\<rparr>) i = alive st i" "alive (set_main_queue q st) i = alive st i"
  by (simp_all add: alive_def row_def)

lemma sys_drain_select [simp]:
  "sy_submitted (sys_drain \<sigma>) = sy_submitted \<sigma>" "sy_applied (sys_drain \<sigma>) = sy_applied \<sigma>"
  "asked i (sys_drain \<sigma>) = asked i \<sigma>" "sy_taken (sys_drain \<sigma>) = sy_taken \<sigma>" "sy_cancels (sys_drain \<sigma>) = sy_cancels \<sigma>"
  "tt_active (sy_thread (sys_drain \<sigma>)) = tt_active (sy_thread \<sigma>)"
  "tt_incoming (sy_thread (sys_drain \<sigma>)) = tt_incoming (sy_thread \<sigma>)"
  "tt_cancelRequests (sy_thread (sys_drain \<sigma>)) = tt_cancelRequests (sy_thread \<sigma>)"
  "sy_log (sys_drain \<sigma>) = sy_log \<sigma> @ mq_events (snd (tt_world (sy_thread \<sigma>)))"
  by (simp_all add: sys_drain_def Let_def split_beta asked_def queue_drain_def)

lemma program_drain:
  assumes inv: "program_inv st [] \<sigma>"
  shows "program_inv (set_main_queue (snd (queue_drain (main_queue st))) st)
    (fst (queue_drain (main_queue st))) (sys_drain \<sigma>)"
proof -
  let ?u = "set_main_queue (snd (queue_drain (main_queue st))) st"
  have t: "x_thread st = sy_thread \<sigma>" and main: "main_inv {#} None st" and reach: "sys_reach \<sigma>"
    using inv by (simp_all add: program_inv_def)
  have "x_thread ?u = sy_thread (sys_drain \<sigma>)"
    by (simp add: set_main_queue_def sys_drain_def Let_def split_beta main_queue_def t)
  moreover have "fst (queue_drain (main_queue st)) = mq_events (snd (tt_world (sy_thread \<sigma>)))"
    by (simp add: queue_drain_def main_queue_def t)
  moreover have "main_inv {#} None ?u" using main by blast
  ultimately show ?thesis
    using inv sys_reach.drain [OF reach]
    by (simp add: program_inv_def answers_due_def credit_due_def cancel_due_def given_eq)
qed

text \<open>The completion of a job that still runs has not been posted.\<close>

lemma running_no_complete:
  assumes "sys_reach \<sigma>" and "job \<in> set (in_flight \<sigma>)" and "\<not> m_finished job"
    and "e \<in> set (events \<sigma>)" and "ev_kind e = Kind_Complete"
  shows "ev_jobId e \<noteq> job_id job"
proof
  assume id: "ev_jobId e = job_id job"
  note I = sys_invD [OF sys_reach_inv [OF assms(1)]]
  have mem: "e \<in> set (completes (events_of (job_id job) \<sigma>))"
    using assms(4,5) id by (simp add: completes_def events_of_def is_kind_def)
  show False
  proof (cases "job \<in> set (tt_active (sy_thread \<sigma>))")
    case True
    then obtain fs where "job_reach (m_spec job) fs (alone \<sigma> job) (sy_wires \<sigma> (job_id job))"
      using I(5) by (auto simp: active_ok_def)
    from reach_stream [OF this] have "completes (events_of (job_id job) \<sigma>) = []"
      using assms(3) unfolding posted_alone alone_select by simp
    with mem show False by simp
  next
    case False
    then have "job \<in> set (pending \<sigma>)" using assms(2) by (simp add: in_flight_def)
    from pending_silent [OF I(4) this] mem show False by (simp add: completes_def)
  qed
qed

lemma expected_credit_sum:
  "sum_list (map snd (filter (\<lambda>r. fst r = i) (expected_credit event))) + data_of i es = data_of i (event # es)"
  by (simp add: expected_credit_def data_of_Cons)

lemma expected_credit_kind: "ev_kind event \<noteq> Kind_Data \<Longrightarrow> expected_credit event = []"
  by (simp add: expected_credit_def)

lemma program_handle:
  assumes inv: "program_inv st (event # es) \<sigma>" and ans: "event_answers_ok sm st"
    and apart: "apart_ok (follow st (handle_event sm (plugin_of script) event st) \<sigma>)"
  shows "program_inv (handle_event sm (plugin_of script) event st) es
    (follow st (handle_event sm (plugin_of script) event st) \<sigma>)"
proof -
  let ?i = "ev_jobId event" and ?u = "handle_event sm (plugin_of script) event st"
  define st0 where "st0 = (if ev_kind event = Kind_Complete then erase_record ?i st else st)"
  define credits where "credits = (if alive st ?i then expected_credit event else [])"
  have main: "main_inv {#} None st" and reach: "sys_reach \<sigma>"
      and cd: "credit_due st (event # es) \<sigma>" using inv by (simp_all add: program_inv_def)
  obtain past where log: "sy_log \<sigma> = past @ event # es"
      and past: "\<forall>e \<in> set past. ev_kind e = Kind_Complete \<longrightarrow> \<not> alive st (ev_jobId e)"
    using inv by (auto simp: program_inv_def answers_due_def)
  have "sends st0 ?u" unfolding st0_def by (rule sends_handle_event [OF main_inv_next [OF main]])
  then obtain specs cancels where a: "asks specs cancels st0 ?u" unfolding sends_def by blast
  have same: "x_thread st0 = x_thread st" "x_nextJobId st0 = x_nextJobId st" by (simp_all add: st0_def)
  have alive0: "alive st0 i \<longleftrightarrow> alive st i \<and> (ev_kind event = Kind_Complete \<longrightarrow> i \<noteq> ?i)" for i
    by (auto simp: st0_def alive_def row_def delete_conv')
  note ok = ph.handle_event_ok [OF main ans, of script event]
  have consume: "tt_consumeRequests (x_thread ?u) = tt_consumeRequests (x_thread st) @ credits"
  proof (cases "map_of (x_jobs st) ?i")
    case None
    with ok show ?thesis by (simp add: event_adds_def credits_def alive_def row_def)
  next
    case (Some r)
    with ok main_inv_alive [OF main Some] show ?thesis by (simp add: event_adds_def adds_def credits_def)
  qed
  have total: "sum_list (map snd (filter (\<lambda>r. fst r = i) credits)) + data_of i es =
      (if alive st ?i then data_of i (event # es) else data_of i es)" for i
    using expected_credit_sum [of i event es] by (simp add: credits_def)
  have le: "data_of i es \<le> data_of i (event # es)" for i by (simp add: data_of_Cons)
  have credits: "credits = [] \<or> (\<exists>r. credits = [r] \<and> snd r \<ge> 0 \<and>
      sy_applied \<sigma> (fst r) + asked (fst r) \<sigma> + snd r \<le> given (fst r) \<sigma>)"
  proof (cases "credits = []")
    case False
    then have c: "credits = [(?i, int (length (ev_body event)))]" "ev_kind event = Kind_Data"
      by (auto simp: credits_def expected_credit_def split: if_splits)
    have "sy_applied \<sigma> ?i + asked ?i \<sigma> + data_of ?i (event # es) \<le> given ?i \<sigma>" using cd by (simp add: credit_due_def)
    moreover have "data_of ?i (event # es) = int (length (ev_body event)) + data_of ?i es" by (simp add: data_of_Cons c(2))
    moreover have "0 \<le> data_of ?i es" by (rule data_of_nonneg)
    ultimately have "sy_applied \<sigma> ?i + asked ?i \<sigma> + int (length (ev_body event)) \<le> given ?i \<sigma>" by linarith
    then show ?thesis using c(1) by simp
  qed simp
  have due1: "sum_list (map snd (filter (\<lambda>r. fst r = i) credits)) + data_of i es \<le> data_of i (event # es)" for i
    using total [of i] le [of i] by simp
  have due2: "alive st i \<and> sum_list (map snd (filter (\<lambda>r. fst r = i) credits)) + data_of i es = data_of i (event # es)"
    if "alive st0 i" for i
    using that alive0 [of i] total [of i] by (auto simp: data_of_Cons split: if_splits)
  have lost: "alive st0 (job_id job)"
    if "job \<in> set (in_flight \<sigma>)" "\<not> m_finished job" "alive st (job_id job)" for job
    using that running_no_complete [OF reach that(1,2), of event] by (auto simp: alive0 events_def log)
  have log': "sy_log \<sigma> = (past @ [event]) @ es" using log by simp
  have past': "\<forall>e \<in> set (past @ [event]). ev_kind e = Kind_Complete \<longrightarrow> \<not> alive st0 (ev_jobId e)"
    using past by (auto simp: alive0)
  show ?thesis
    using ok by (intro main_thread_step [OF inv a same _ consume apart credits log' past' due1 due2 lost]) simp_all
qed

text \<open>The transfer thread\<close>

lemma thread_keeps:
  assumes "thread_step \<sigma> \<tau>"
  shows "sy_submitted \<tau> = sy_submitted \<sigma>" "sy_log \<tau> = sy_log \<sigma>"
    "sy_applied \<tau> i + asked i \<tau> = sy_applied \<sigma> i + asked i \<sigma>"
proof -
  have log: "sy_log (sys_call inp k \<rho>) = sy_log \<rho>" for inp k \<rho> by (simp add: sys_call_def Let_def)
  have "sy_submitted \<tau> = sy_submitted \<sigma> \<and> sy_log \<tau> = sy_log \<sigma> \<and>
      sy_applied \<tau> i + asked i \<tau> = sy_applied \<sigma> i + asked i \<sigma>"
    using assms
  proof cases
    case take
    then show ?thesis by (simp add: sys_take_def take_pending_def asked_def)
  next
    case (admit h)
    then show ?thesis by (simp add: sys_admit_def log call_credit) (simp add: sys_admitted_def Let_def asked_def)
  next
    case cancel_next
    have "asked i (\<sigma>\<lparr>sy_cancels := cs\<rparr>) = asked i \<sigma>" for cs by (simp add: asked_def)
    then show ?thesis unfolding cancel_next(1)
      by (cases "find_active (hd (sy_cancels \<sigma>)) (sy_thread \<sigma>)") (simp_all add: sys_cancel_next_def log call_credit)
  next
    case consume_next
    obtain jobId bytes rest where r: "sy_credits \<sigma> = (jobId, bytes) # rest"
      using consume_next(4) by (cases "sy_credits \<sigma>") auto
    show ?thesis unfolding consume_next(1)
      by (cases "find_active jobId (sy_thread \<sigma>)")
        (simp_all add: sys_consume_next_def r log call_credit, simp_all add: asked_def r)
  next
    case (call inp k)
    then show ?thesis by (simp add: log call_credit)
  next
    case remove
    then show ?thesis by (simp add: remove_finished_def asked_def)
  qed
  then show "sy_submitted \<tau> = sy_submitted \<sigma>" "sy_log \<tau> = sy_log \<sigma>"
    "sy_applied \<tau> i + asked i \<tau> = sy_applied \<sigma> i + asked i \<sigma>" by simp_all
qed

lemma call_select:
  "sy_taken (sys_call i k \<sigma>) = sy_taken \<sigma>" "sy_cancels (sys_call i k \<sigma>) = sy_cancels \<sigma>"
  "tt_incoming (sy_thread (sys_call i k \<sigma>)) = tt_incoming (sy_thread \<sigma>)"
  "tt_cancelRequests (sy_thread (sys_call i k \<sigma>)) = tt_cancelRequests (sy_thread \<sigma>)"
  by (simp_all add: sys_call_def Let_def)

lemma cancel_due_call:
  assumes "cancel_due st \<sigma>" and "sys_inv \<sigma>" and "sys_enabled i k \<sigma>"
  shows "cancel_due st (sys_call i k \<sigma>)"
proof -
  let ?A = "tt_active (sy_thread \<sigma>)" and ?j = "job_of (job_step i (ctx_at k (sy_thread \<sigma>)))"
  have k: "k < length ?A" using assms(3) by (simp add: sys_enabled_def)
  have "m_spec (ctx_at k (sy_thread \<sigma>)) = m_spec (?A ! k)" by (simp add: ctx_at_def)
  then have "job_id ?j = job_id (?A ! k)" using step_spec [of i "ctx_at k (sy_thread \<sigma>)"] by (simp add: job_id_def)
  moreover have "\<not> m_finished (?A ! k)" by (rule enabled_running [OF assms(2,3)])
  moreover have "set (?A[k := ?j]) \<subseteq> insert ?j (set ?A)" by (rule set_update_subset_insert)
  moreover have "?A ! k \<in> set ?A" using k by simp
  ultimately show ?thesis
    using assms(1) unfolding cancel_due_def call_select call_thread [OF k] by (auto dest!: subsetD)
qed

lemma cancel_due_frame:
  "cancel_due st \<sigma> \<Longrightarrow> tt_active (sy_thread \<tau>) @ sy_taken \<tau> = tt_active (sy_thread \<sigma>) @ sy_taken \<sigma> \<Longrightarrow>
     tt_incoming (sy_thread \<tau>) = tt_incoming (sy_thread \<sigma>) \<Longrightarrow> sy_cancels \<tau> = sy_cancels \<sigma> \<Longrightarrow>
     tt_cancelRequests (sy_thread \<tau>) = tt_cancelRequests (sy_thread \<sigma>) \<Longrightarrow> cancel_due st \<tau>"
  by (simp add: cancel_due_def del: set_append)

lemma cancel_due_cancel_next:
  assumes due: "cancel_due st \<sigma>" and inv: "kept \<sigma>" and ne: "sy_taken \<sigma> = []" "sy_cancels \<sigma> \<noteq> []"
  shows "cancel_due st (sys_cancel_next \<sigma>)"
proof -
  obtain i cs where cs: "sy_cancels \<sigma> = i # cs" using ne(2) by (cases "sy_cancels \<sigma>") auto
  let ?A = "tt_active (sy_thread \<sigma>)" and ?\<tau> = "\<sigma>\<lparr>sy_cancels := cs\<rparr>"
  have names: "distinct (map job_id ?A)"
    using inv by (simp add: kept_def sys_inv_def names_ok_def in_flight_def)
  show ?thesis
  proof (cases "find_active i (sy_thread \<sigma>)")
    case None
    then have other: "b \<in> set ?A \<Longrightarrow> \<not> m_finished b \<Longrightarrow> job_id b \<noteq> i" for b by (auto simp: find_active_None)
    have "cancel_due st ?\<tau>"
      unfolding cancel_due_def
    proof (intro conjI ballI impI)
      fix b
      assume "b \<in> set (tt_active (sy_thread ?\<tau>) @ sy_taken ?\<tau>)" "\<not> m_finished b"
      then show "alive st (job_id b) \<or> job_id b \<in> set (sy_cancels ?\<tau> @ tt_cancelRequests (sy_thread ?\<tau>))"
        using due other [of b] ne(1) cs by (simp add: cancel_due_def) blast
    qed (use due in \<open>simp add: cancel_due_def\<close>)
    then show ?thesis using None cs by (simp add: sys_cancel_next_def)
  next
    case (Some k)
    note k = find_active_SomeD [OF Some]
    let ?j = "job_of (cancel (ctx_at k (sy_thread \<sigma>)))"
    have active: "tt_active (sy_thread (sys_call InCancel k ?\<tau>)) = ?A[k := ?j]"
      using call_thread [of k ?\<tau> InCancel] k by simp
    have fin: "m_finished ?j" by (simp add: cancel_done)
    have "b \<in> set ?A \<and> job_id b \<noteq> i" if "b \<in> set (?A[k := ?j])" "\<not> m_finished b" for b
    proof -
      have "\<exists>m < length (?A[k := ?j]). (?A[k := ?j]) ! m = b" using that(1) by (rule in_set_conv_nth [THEN iffD1])
      then obtain m where m: "m < length ?A" "b = (?A[k := ?j]) ! m" unfolding length_list_update by blast
      then have "m \<noteq> k" using that(2) fin by auto
      moreover from this m have "b = ?A ! m" by simp
      ultimately show ?thesis using names m(1) k by (auto simp: distinct_conv_nth)
    qed
    then have "cancel_due st (sys_call InCancel k ?\<tau>)"
      using due ne(1) cs unfolding cancel_due_def call_select active by (auto simp: call_select)
    then show ?thesis by (simp add: sys_cancel_next_def cs Some)
  qed
qed

lemma cancel_due_thread:
  assumes "thread_step \<sigma> \<tau>" and due: "cancel_due st \<sigma>" and kept: "kept \<sigma>"
  shows "cancel_due st \<tau>"
  using assms(1)
proof cases
  case take
  with due show ?thesis by (auto simp: cancel_due_def sys_take_def take_pending_def)
next
  case (admit h)
  have inv: "sys_inv \<sigma>" using kept by (simp add: kept_def)
  have "cancel_due st (sys_admitted \<sigma>)"
    using admit by (intro cancel_due_frame [OF due]) (cases "sy_taken \<sigma>"; simp add: sys_admitted_def Let_def)+
  with admit show ?thesis
    using cancel_due_call sys_inv_admitted(1,2) [OF inv admit(2)] by (simp add: sys_admit_def)
next
  case cancel_next
  with due kept show ?thesis by (simp add: cancel_due_cancel_next)
next
  case consume_next
  obtain jobId bytes rest where r: "sy_credits \<sigma> = (jobId, bytes) # rest"
    using consume_next(4) by (cases "sy_credits \<sigma>") auto
  let ?\<tau> = "\<sigma>\<lparr>sy_credits := rest, sy_applied := (sy_applied \<sigma>)(jobId := sy_applied \<sigma> jobId + bytes)\<rparr>"
  have inv: "sys_inv \<sigma>" and flow: "started_ok \<sigma>" and "0 \<le> bytes"
    using kept r by (auto simp: kept_def flow_ok_def credit_ok_def credits_of_def)
  have t: "sys_inv ?\<tau>" by (rule sys_inv_locals(2) [OF inv])
  have c: "cancel_due st ?\<tau>" by (rule cancel_due_frame [OF due]) simp_all
  show ?thesis
  proof (cases "find_active jobId (sy_thread \<sigma>)")
    case None
    with c consume_next r show ?thesis by (simp add: sys_consume_next_def)
  next
    case (Some k)
    have "started_ok ?\<tau>" using flow by (simp add: started_ok_def)
    then have "sys_enabled (InConsumed bytes) k ?\<tau>"
      using Some \<open>0 \<le> bytes\<close> by (intro enabled_active(2) [of _ jobId]) simp_all
    with c consume_next r Some cancel_due_call [OF c t] show ?thesis by (simp add: sys_consume_next_def)
  qed
next
  case (call i k)
  with due kept show ?thesis by (simp add: cancel_due_call kept_def)
next
  case remove
  with due show ?thesis by (auto simp: cancel_due_def remove_finished_def)
qed

lemma program_thread:
  assumes inv: "program_inv st es \<sigma>" and step: "thread_step \<sigma> \<tau>"
  shows "program_inv (st\<lparr>x_thread := sy_thread \<tau>\<rparr>) es \<tau>"
proof -
  note k = thread_keeps [OF step]
  have g: "given i \<tau> = given i \<sigma>" for i by (simp add: given_eq k)
  have reach: "sys_reach \<sigma>" using inv by (simp add: program_inv_def)
  have "cancel_due st \<tau>"
    using inv by (intro cancel_due_thread [OF step _ sys_reach_kept [OF reach]]) (simp add: program_inv_def)
  then have "cancel_due (st\<lparr>x_thread := sy_thread \<tau>\<rparr>) \<tau>" unfolding cancel_due_def alive_thread .
  moreover have "main_inv {#} None (st\<lparr>x_thread := sy_thread \<tau>\<rparr>)"
    using inv by - (rule main_inv_frame [of _ st], simp_all add: program_inv_def)
  moreover have "answers_due (st\<lparr>x_thread := sy_thread \<tau>\<rparr>) es \<tau>" "credit_due (st\<lparr>x_thread := sy_thread \<tau>\<rparr>) es \<tau>"
    using inv unfolding program_inv_def answers_due_def credit_due_def alive_thread g k by auto
  moreover have "\<forall>spec \<in> set (sy_submitted \<tau>). spec_id spec < x_nextJobId st"
    using inv unfolding program_inv_def k by simp
  ultimately show ?thesis
    using sys_reach.thread [OF reach step] by (simp add: program_inv_def)
qed

lemma program_kept: "program script st es \<sigma> \<Longrightarrow> program_inv st es \<sigma>"
  by (induction rule: program.induct)
    (simp_all add: program_load program_act program_drain program_handle program_thread)

section \<open>A frame of the code is a run of the program\<close>

fun events_apart ::
  "nat \<Rightarrow> (nat \<Rightarrow> sourcemod) \<Rightarrow> plugin_code \<Rightarrow> transfer_event list \<Rightarrow> rest_state \<Rightarrow> system \<Rightarrow> bool" where
  "events_apart i sms plugin [] st \<sigma> \<longleftrightarrow> True"
| "events_apart i sms plugin (event # es) st \<sigma> \<longleftrightarrow>
     (let u = handle_event (sms i) plugin event st; \<tau> = follow st u \<sigma>
      in apart_ok \<tau> \<and> events_apart (i + 1) sms plugin es u \<tau>)"

lemma program_events:
  "program script st es \<sigma> \<Longrightarrow> events_answers_ok i sms (plugin_of script) es st \<Longrightarrow>
     events_apart i sms (plugin_of script) es st \<sigma> \<Longrightarrow>
     \<exists>\<tau>. program script (handle_events i sms (plugin_of script) es st) [] \<tau>"
proof (induction es arbitrary: i st \<sigma>)
  case (Cons event es)
  then show ?case using Cons.IH [OF program.handle [OF Cons.prems(1)]] by (simp add: Let_def)
qed auto

lemma program_frame:
  assumes "program script st [] \<sigma>" and "frame_answers_ok sms (plugin_of script) st"
    and "events_apart 0 sms (plugin_of script) (fst (queue_drain (main_queue st)))
      (set_main_queue (snd (queue_drain (main_queue st))) st) (sys_drain \<sigma>)"
  shows "\<exists>\<tau>. program script (on_game_frame sms (plugin_of script) st) [] \<tau>"
proof (cases "mq_hasEvents (main_queue st)")
  case True
  from program_events [OF program.drain [OF assms(1) True] _ assms(3)] assms(2) True
  show ?thesis by (simp add: on_game_frame_def frame_answers_ok_def split_beta)
qed (use assms(1) in \<open>auto simp: on_game_frame_def\<close>)

end
