(* ===== verification/Rest_Told.thy ===== *)
theory Rest_Told
  imports Rest_Program
begin

text \<open>
  What a plugin is told over the whole program: the calls to the callbacks of a job are, in order, the
  calls its events ask for. The statements are about the history of a run: the events that have been
  handled, each with the answers SourceMod gave while it was handled and with the record that the job
  had in the table when it came.
\<close>

section \<open>The history of a run\<close>

record handled =
  hd_event :: transfer_event
  hd_answers :: sourcemod
  hd_record :: "job_record option"

text \<open>\<open>observed\<close> is \<open>program\<close> with the history of the handled events, which influences nothing.\<close>

inductive observed ::
  "(plugin_call \<Rightarrow> rest_state \<Rightarrow> plugin_action list \<times> int) \<Rightarrow> handled list \<Rightarrow> rest_state \<Rightarrow> transfer_event list \<Rightarrow> system \<Rightarrow> bool"
  for script where
  load: "fst (sdk_on_load la sm maxlength (rest_start fs)) = None \<Longrightarrow>
     observed script [] (snd (sdk_on_load la sm maxlength (rest_start fs))) [] (sys_boot fs)"
| act: "observed script hs st [] \<sigma> \<Longrightarrow> apart_ok (follow st (run_action action st) \<sigma>) \<Longrightarrow>
     observed script hs (run_action action st) [] (follow st (run_action action st) \<sigma>)"
| drain: "observed script hs st [] \<sigma> \<Longrightarrow> mq_hasEvents (main_queue st) \<Longrightarrow>
     observed script hs (set_main_queue (snd (queue_drain (main_queue st))) st)
       (fst (queue_drain (main_queue st))) (sys_drain \<sigma>)"
| handle: "observed script hs st (event # es) \<sigma> \<Longrightarrow> event_answers_ok sm st \<Longrightarrow>
     apart_ok (follow st (handle_event sm (plugin_of script) event st) \<sigma>) \<Longrightarrow>
     observed script
       (hs @ [\<lparr>hd_event = event, hd_answers = sm, hd_record = map_of (x_jobs st) (ev_jobId event)\<rparr>])
       (handle_event sm (plugin_of script) event st) es
       (follow st (handle_event sm (plugin_of script) event st) \<sigma>)"
| thread: "observed script hs st es \<sigma> \<Longrightarrow> thread_step \<sigma> \<tau> \<Longrightarrow>
     observed script hs (st\<lparr>x_thread := sy_thread \<tau>\<rparr>) es \<tau>"

lemma observed_program: "observed script hs st es \<sigma> \<Longrightarrow> program script st es \<sigma>"
  by (induction rule: observed.induct) (auto intro: program.intros)

lemma program_observed: "program script st es \<sigma> \<Longrightarrow> \<exists>hs. observed script hs st es \<sigma>"
  by (induction rule: program.induct) (blast intro: observed.intros)+

section \<open>The calls of a job and its events\<close>

definition of_job :: "int \<Rightarrow> handled list \<Rightarrow> handled list" where
  "of_job i hs = filter (\<lambda>h. ev_jobId (hd_event h) = i) hs"

text \<open>The calls an event asks for when it is handled: none when its job has no record any more.\<close>

definition asked_by :: "handled \<Rightarrow> (int \<times> plugin_call) list" where
  "asked_by h = (case hd_record h of None \<Rightarrow> [] | Some r \<Rightarrow> expected_calls (hd_answers h) r (hd_event h))"

text \<open>The events of the job that its record met are \<open>heard\<close>; the \<open>rest\<close> came when there was none any more.\<close>

definition told :: "rest_state \<Rightarrow> handled list \<Rightarrow> int \<Rightarrow> bool" where
  "told st hs i \<longleftrightarrow>
     calls_for i st = concat (map asked_by (of_job i hs)) \<and>
     (\<exists>r heard rest. of_job i hs = heard @ rest \<and> (\<forall>h \<in> set heard. hd_record h = Some r) \<and>
        (\<forall>h \<in> set rest. hd_record h = None) \<and> (\<forall>q. row st i = Some q \<longrightarrow> rest = [] \<and> q = r))"

lemma told_same:
  "told st hs i \<Longrightarrow> calls_for i u = calls_for i st \<Longrightarrow> (\<And>q. row u i = Some q \<Longrightarrow> row st i = Some q) \<Longrightarrow> told u hs i"
  unfolding told_def by metis

lemma told_new:
  assumes "\<forall>h \<in> set hs. ev_jobId (hd_event h) \<noteq> i" and "calls_for i u = []"
  shows "told u hs i"
proof -
  have "of_job i hs = []" using assms(1) by (simp add: of_job_def filter_empty_conv)
  then show ?thesis using assms(2) by (cases "row u i") (auto simp: told_def)
qed

lemma told_skip:
  assumes "told st hs i" and "ev_jobId (hd_event h) \<noteq> i \<or> row st i = None" and "hd_record h = row st (ev_jobId (hd_event h))"
    and "calls_for i u = calls_for i st" and "\<And>q. row u i = Some q \<Longrightarrow> row st i = Some q"
  shows "told u (hs @ [h]) i"
proof (cases "ev_jobId (hd_event h) = i")
  case False
  with told_same [OF assms(1,4,5)] show ?thesis by (simp add: told_def of_job_def)
next
  case True
  with assms(2,3,5) have none: "row u i = None" "hd_record h = None" by (cases "row u i"; auto)+
  moreover obtain r heard rest where "of_job i hs = heard @ rest" "\<forall>h \<in> set heard. hd_record h = Some r"
      "\<forall>h \<in> set rest. hd_record h = None" "calls_for i u = concat (map asked_by (of_job i hs))"
    using assms(1,4) unfolding told_def by metis
  moreover have "of_job i (hs @ [h]) = of_job i hs @ [h]" using True by (simp add: of_job_def)
  ultimately show ?thesis
    unfolding told_def by (intro conjI exI [of _ r] exI [of _ heard] exI [of _ "rest @ [h]"]) (simp_all add: asked_by_def)
qed

lemma told_heard:
  assumes "told st hs i" and "ev_jobId (hd_event h) = i" and "row st i = Some q" and "hd_record h = Some q"
    and "calls_for i u = calls_for i st @ asked_by h"
    and "\<And>q. row u i = Some q \<Longrightarrow> row st i = Some q"
  shows "told u (hs @ [h]) i"
proof -
  have "of_job i (hs @ [h]) = of_job i hs @ [h]" using assms(2) by (simp add: of_job_def)
  moreover have "\<forall>h \<in> set (of_job i hs). hd_record h = Some q" "calls_for i st = concat (map asked_by (of_job i hs))"
    using assms(1,3) by (auto simp: told_def)
  ultimately show ?thesis
    unfolding told_def using assms(3-6)
    by (intro conjI exI [of _ q] exI [of _ "of_job i hs @ [h]"] exI [of _ "[]"]) auto
qed

text \<open>Between two events no record is marked, so a row is the record itself.\<close>

lemma row_main: "main_inv {#} None st \<Longrightarrow> row st i = map_of (x_jobs st) i"
proof (cases "map_of (x_jobs st) i")
  case (Some r)
  assume "main_inv {#} None st"
  then have "\<not> jr_dispatching r" "\<not> jr_dropped r" using jobs_okD(4,5) [of None st i r] Some by (auto simp: main_inv_def)
  moreover from this have "r\<lparr>jr_dispatching := False\<rparr> = r" by (cases r) simp
  ultimately show ?thesis using Some by (simp add: row_def)
qed (simp add: row_def)

definition told_ok :: "rest_state \<Rightarrow> handled list \<Rightarrow> transfer_event list \<Rightarrow> system \<Rightarrow> bool" where
  "told_ok st hs es \<sigma> \<longleftrightarrow> sy_log \<sigma> = map hd_event hs @ es \<and> (\<forall>i. told st hs i)"

section \<open>Every step tells what it has to\<close>

lemma fresh_calls:
  assumes "main_inv {#} None st" and "x_nextJobId st \<le> i"
  shows "calls_for i st = []"
proof -
  have "(j, call) \<in> set (calls log) \<Longrightarrow> Fx_Call j call \<in> set log" for j call log
    by (auto simp: calls_def split: sm_effect.splits)
  then show ?thesis
    using assms by (fastforce simp: calls_for_def filter_empty_conv main_inv_def ids_ok_def)
qed

lemma fresh_events:
  assumes "program_inv st es \<sigma>" and "x_nextJobId st \<le> i" and "e \<in> set (sy_log \<sigma>)"
  shows "ev_jobId e \<noteq> i"
proof -
  have I: "sys_reach \<sigma>" "\<forall>spec \<in> set (sy_submitted \<sigma>). spec_id spec < x_nextJobId st"
    using assms(1) by (simp_all add: program_inv_def)
  have "e \<in> set (events \<sigma>)" using assms(3) by (simp add: events_def)
  then have "ev_jobId e \<in> spec_id ` set (sy_submitted \<sigma>)"
    using sys_invD(4) [OF sys_reach_inv [OF I(1)]] unfolding events_ok_def by blast
  then show ?thesis using I(2) assms(2) by auto
qed

lemma asks_row: "asks specs cancels st u \<Longrightarrow> row u i = Some q \<Longrightarrow> i < x_nextJobId st \<Longrightarrow> row st i = Some q"
  unfolding asks_def by fastforce

lemma calls_for_cong: "calls (x_log u) = calls (x_log st) \<Longrightarrow> calls_for i u = calls_for i st"
  by (simp add: calls_for_def)

lemma told_load:
  "fst (sdk_on_load la sm n (rest_start fs)) = None \<Longrightarrow> told_ok (snd (sdk_on_load la sm n (rest_start fs))) [] [] (sys_boot fs)"
proof -
  have ca: "calls (x_log (detect_ca_bundle sm u)) = calls (x_log u)" for u by (simp add: detect_ca_bundle_def Let_def)
  have "calls (x_log (snd (sdk_on_load la sm n (rest_start fs)))) = []"
    by (auto simp: sdk_on_load_def Let_def split_beta ca rest_start_def split: if_split) (simp_all add: calls_def)
  then have "told (snd (sdk_on_load la sm n (rest_start fs))) [] i" for i by (intro told_new) (simp_all add: calls_for_def)
  then show ?thesis by (auto simp: told_ok_def sys_boot_def)
qed

lemma told_act:
  assumes inv: "program_inv st [] \<sigma>" and told: "told_ok st hs [] \<sigma>"
  shows "told_ok (run_action action st) hs [] (follow st (run_action action st) \<sigma>)"
proof -
  have main: "main_inv {#} None st" using inv by (simp add: program_inv_def)
  note n = main_inv_next [OF main]
  obtain specs cancels where a: "asks specs cancels st (run_action action st)"
    using sends_run_action [OF n, of action] unfolding sends_def by blast
  have c: "calls_for i (run_action action st) = calls_for i st" for i
    using quiet_run_action [OF n, of action] by (intro calls_for_cong) (simp add: quiet_def)
  have log: "\<forall>i. told st hs i" "sy_log \<sigma> = map hd_event hs" using told by (simp_all add: told_ok_def)
  have "told (run_action action st) hs i" for i
  proof (cases "i < x_nextJobId st")
    case True
    then show ?thesis using told_same [of st hs i] log(1) c asks_row [OF a] by blast
  next
    case False
    then show ?thesis using fresh_events [OF inv, of i] fresh_calls [OF main, of i] c [of i] log(2) by (intro told_new) auto
  qed
  then show ?thesis using log(2) by (simp add: told_ok_def follow_def)
qed

lemma expected_calls_other:
  assumes "main_inv {#} None st" and "map_of (x_jobs st) (ev_jobId event) = Some r"
  shows "filter (\<lambda>(j, call). j = i) (expected_calls sm r event) = (if i = ev_jobId event then expected_calls sm r event else [])"
proof -
  have r: "jr_id r = ev_jobId event" using assms jobs_okD(1) by (auto simp: main_inv_def)
  then show ?thesis
    by (auto simp: filter_empty_conv filter_id_conv dest!: expected_calls_ids)
qed

lemma told_handle:
  assumes inv: "program_inv st (event # es) \<sigma>" and ans: "event_answers_ok sm st" and told: "told_ok st hs (event # es) \<sigma>"
  shows "told_ok (handle_event sm (plugin_of script) event st)
    (hs @ [\<lparr>hd_event = event, hd_answers = sm, hd_record = map_of (x_jobs st) (ev_jobId event)\<rparr>]) es
    (follow st (handle_event sm (plugin_of script) event st) \<sigma>)"
proof -
  let ?u = "handle_event sm (plugin_of script) event st"
  let ?h = "\<lparr>hd_event = event, hd_answers = sm, hd_record = map_of (x_jobs st) (ev_jobId event)\<rparr>"
  have main: "main_inv {#} None st" using inv by (simp add: program_inv_def)
  note n = main_inv_next [OF main] and ok = ph.handle_event_ok [OF main ans, of script event]
  have log: "sy_log \<sigma> = map hd_event hs @ event # es" and t: "\<And>i. told st hs i" using told by (simp_all add: told_ok_def)
  have rec: "hd_record ?h = row st (ev_jobId (hd_event ?h))" using row_main [OF main] by simp
  define st0 where "st0 = (if ev_kind event = Kind_Complete then erase_record (ev_jobId event) st else st)"
  have "sends st0 ?u" unfolding st0_def by (rule sends_handle_event [OF n])
  then obtain specs cancels where "asks specs cancels st0 ?u" unfolding sends_def by blast
  moreover have "x_nextJobId st0 = x_nextJobId st" "row st0 i = Some q \<Longrightarrow> row st i = Some q" for i q
    by (auto simp: st0_def row_def delete_conv' split: if_splits)
  ultimately have rows: "row ?u i = Some q \<Longrightarrow> i < x_nextJobId st \<Longrightarrow> row st i = Some q" for i q
    using asks_row by metis
  have ev: "event \<in> set (sy_log \<sigma>)" by (simp add: log)
  have "ev_jobId event < x_nextJobId st" using fresh_events [OF inv _ ev, of "ev_jobId event"] by (auto simp: not_le [symmetric])
  have "told ?u (hs @ [?h]) i" for i
  proof (cases "i < x_nextJobId st")
    case False
    then have "calls_for i ?u = calls_for i st"
    proof (cases "map_of (x_jobs st) (ev_jobId event)")
      case None
      with ok show ?thesis by (simp add: event_adds_def)
    next
      case (Some r)
      have "i \<noteq> ev_jobId event" using False \<open>ev_jobId event < x_nextJobId st\<close> by auto
      with ok expected_calls_other [OF main Some, of i sm] Some show ?thesis
        by (simp add: event_adds_def adds_def calls_for_def)
    qed
    moreover have "\<forall>h \<in> set (hs @ [?h]). ev_jobId (hd_event h) \<noteq> i" using False fresh_events [OF inv, of i] log by auto
    ultimately show ?thesis using False fresh_calls [OF main, of i] by (intro told_new) simp_all
  next
    case True
    show ?thesis
    proof (cases "map_of (x_jobs st) (ev_jobId event)")
      case None
      with ok have "?u = st" by (simp add: event_adds_def)
      moreover have "row st (ev_jobId event) = None" using None by (simp add: row_def)
      ultimately show ?thesis using t [of i] rec by (intro told_skip [of st]) auto
    next
      case (Some r)
      have q: "row st (ev_jobId event) = Some r" using row_main [OF main] Some by simp
      have c: "calls_for i ?u = calls_for i st @ (if i = ev_jobId event then expected_calls sm r event else [])"
        using ok Some expected_calls_other [OF main Some, of i sm] by (simp add: event_adds_def adds_def calls_for_def)
      show ?thesis
      proof (cases "i = ev_jobId event")
        case True
        with c Some have "calls_for i ?u = calls_for i st @ asked_by ?h" by (simp add: asked_by_def)
        moreover have "row st i = Some p" if "row ?u i = Some p" for p using rows that \<open>i < x_nextJobId st\<close> .
        ultimately show ?thesis using q True Some by (intro told_heard [OF t]) simp_all
      next
        case False
        with c rows True t [of i] rec show ?thesis by (intro told_skip [of st]) auto
      qed
    qed
  qed
  then show ?thesis using log by (simp add: told_ok_def follow_def)
qed

lemma told_log:
  "told_ok st hs es \<sigma> \<Longrightarrow> sy_log \<tau> = sy_log \<sigma> \<Longrightarrow> x_jobs u = x_jobs st \<Longrightarrow> x_log u = x_log st \<Longrightarrow> told_ok u hs es \<tau>"
  by (simp add: told_ok_def told_def calls_for_def row_def)

lemma observed_told: "observed script hs st es \<sigma> \<Longrightarrow> told_ok st hs es \<sigma>"
proof (induction rule: observed.induct)
  case (load la sm n fs)
  then show ?case by (rule told_load)
next
  case (act hs st \<sigma> action)
  show ?case by (rule told_act [OF program_kept [OF observed_program [OF act.hyps(1)]] act.IH])
next
  case (drain hs st \<sigma>)
  have "x_thread st = sy_thread \<sigma>" using program_kept [OF observed_program [OF drain.hyps(1)]] by (simp add: program_inv_def)
  then have "sy_log (sys_drain \<sigma>) = sy_log \<sigma> @ fst (queue_drain (main_queue st))"
    by (simp add: queue_drain_def main_queue_def)
  with drain.IH show ?case by (simp add: told_ok_def told_def calls_for_def row_def)
next
  case (handle hs st event es \<sigma> sm)
  show ?case by (rule told_handle [OF program_kept [OF observed_program [OF handle.hyps(1)]] handle.hyps(2) handle.IH])
next
  case (thread hs st es \<sigma> \<tau>)
  show ?case by (rule told_log [OF thread.IH thread_keeps(2) [OF thread.hyps(2)]]) simp_all
qed

section \<open>The bytes a plugin is given\<close>

fun call_body :: "plugin_call \<Rightarrow> string" where
  "call_body (CallData f h body n context) = butlast body"
| "call_body _ = []"

definition given_bytes :: "int \<Rightarrow> rest_state \<Rightarrow> string" where
  "given_bytes i st = concat (map (call_body \<circ> snd) (calls_for i st))"

lemma expected_bytes:
  assumes "jr_data r = Some f" and "sm_function_count sm f \<noteq> 0"
  shows "concat (map (call_body \<circ> snd) (expected_calls sm r e)) = (if ev_kind e = Kind_Data then ev_body e else [])"
  using assms by (auto simp: expected_calls_def Let_def split: event_kind.split option.split)

lemma asked_by_bytes:
  assumes "jr_data r = Some f" and "\<forall>h \<in> set hs. hd_record h = Some r \<and> sm_function_count (hd_answers h) f \<noteq> 0"
  shows "concat (map (call_body \<circ> snd) (concat (map asked_by hs))) = data_bytes (map hd_event hs)"
  using assms(2)
proof (induction hs)
  case Nil
  show ?case by (simp add: data_bytes_def)
next
  case (Cons h hs)
  have "concat (map (call_body \<circ> snd) (concat (map asked_by hs))) = data_bytes (map hd_event hs)"
    by (rule Cons.IH) (use Cons.prems in simp)
  moreover have "concat (map (call_body \<circ> snd) (asked_by h)) = (if ev_kind (hd_event h) = Kind_Data then ev_body (hd_event h) else [])"
    using Cons.prems expected_bytes [OF assms(1)] by (simp add: asked_by_def)
  moreover have "data_bytes (map hd_event (h # hs)) =
      (if ev_kind (hd_event h) = Kind_Data then ev_body (hd_event h) else []) @ data_bytes (map hd_event hs)"
    by (simp add: data_bytes_def is_kind_def)
  ultimately show ?case by (simp only: list.map concat.simps map_append concat_append)
qed

end
