(* ===== verification/Rest_Promises.thy ===== *)
theory Rest_Promises
  imports Rest_Told Rest_Main_Facts
begin

text \<open>
  What the whole program promises a plugin: a request that was sent is answered, and a download that
  is streamed does not stall. Both hold in every state of the program, whatever plugins, SourceMod
  and libcurl do, and in whatever order the two threads run.
\<close>

section \<open>Every request is answered\<close>

lemma program_queue:
  assumes "program_inv st es \<sigma>"
  shows "main_queue st = queue_of (mq_events (main_queue st))"
    and "\<exists>past. events \<sigma> = past @ es @ mq_events (main_queue st) \<and>
      (\<forall>e \<in> set past. ev_kind e = Kind_Complete \<longrightarrow> \<not> alive st (ev_jobId e))"
proof -
  have I: "sys_reach \<sigma>" "x_thread st = sy_thread \<sigma>" "answers_due st es \<sigma>"
    using assms by (simp_all add: program_inv_def)
  show "main_queue st = queue_of (mq_events (main_queue st))" unfolding main_queue_def I(2) by (rule queue_events [OF I(1)])
  show "\<exists>past. events \<sigma> = past @ es @ mq_events (main_queue st) \<and>
      (\<forall>e \<in> set past. ev_kind e = Kind_Complete \<longrightarrow> \<not> alive st (ev_jobId e))"
    using I(3) by (auto simp: answers_due_def events_def main_queue_def I(2))
qed

lemma alive_iff: "main_inv {#} None st \<Longrightarrow> alive st i \<longleftrightarrow> i \<in> fst ` set (x_jobs st)"
  by (simp add: alive_def row_main map_of_eq_None_iff)

text \<open>A completed stream ends with its completion.\<close>

lemma completed_once_mem: "completed_once (events_of i \<sigma>) \<Longrightarrow> \<exists>e \<in> set (events \<sigma>). ev_jobId e = i \<and> ev_kind e = Kind_Complete"
proof -
  assume "completed_once (events_of i \<sigma>)"
  then obtain ds e where e: "events_of i \<sigma> = ds @ [e]" "ev_kind e = Kind_Complete" by (auto simp: completed_once_def)
  then have "e \<in> set (events_of i \<sigma>)" by simp
  then show ?thesis using e(2) by (auto simp: events_of_def)
qed

lemma finished_stream:
  assumes "sys_reach \<sigma>" and "spec \<in> set (sy_submitted \<sigma>)"
    and "\<not> (\<exists>job \<in> set (in_flight \<sigma>). job_id job = spec_id spec \<and> \<not> m_finished job)"
  shows "completed_once (events_of (spec_id spec) \<sigma>) \<and>
    (ev_status (last (events_of (spec_id spec) \<sigma>)) = RestStatus_Ok \<longrightarrow>
       delivered_as_asked spec (sy_wires \<sigma> (spec_id spec)) (events_of (spec_id spec) \<sigma>))"
proof -
  note I = sys_invD [OF sys_reach_inv [OF assms(1)]]
  have "\<exists>fs s. job_reach spec fs s (sy_wires \<sigma> (spec_id spec)) \<and> m_finished s \<and> posted s = events_of (spec_id spec) \<sigma>"
  proof (cases "spec_id spec \<in> job_id ` set (in_flight \<sigma>)")
    case True
    then obtain job where job: "job \<in> set (in_flight \<sigma>)" "job_id job = spec_id spec" "m_finished job"
      using assms(3) by fastforce
    have "job \<notin> set (pending \<sigma>)" using I(1) job(3) new_unfinished unfolding names_ok_def by metis
    then have "job \<in> set (tt_active (sy_thread \<sigma>))" using job(1) by (simp add: in_flight_def)
    then obtain fs where "job_reach (m_spec job) fs (alone \<sigma> job) (sy_wires \<sigma> (job_id job))"
      using I(5) by (auto simp: active_ok_def)
    moreover have "m_spec job = spec" by (rule flight_spec [OF I(1) assms(2) job(1,2)])
    ultimately show ?thesis using job(2,3) posted_alone [of \<sigma> job] alone_select(2) [of \<sigma> job] by auto
  next
    case False
    with assms(2) I(6) show ?thesis unfolding gone_ok_def by blast
  qed
  then obtain fs s where r: "job_reach spec fs s (sy_wires \<sigma> (spec_id spec))" "m_finished s"
      "posted s = events_of (spec_id spec) \<sigma>" by blast
  from reach_stream [OF r(1)] r(2,3) show ?thesis by simp
qed

text \<open>
  C4: No request is forgotten. For every job in the table of the main thread, either the transfer
  thread still works on it, or its completion is waiting: among the events of the current frame that
  are still to be handled, or in the queue, which then says that it has events, so the next frame
  takes them. Conversely, a job the transfer thread works on is in the table, or it is about to be
  cancelled. So no callback is lost between the threads, however they are interleaved.
\<close>

theorem no_request_is_forgotten:
  assumes "program script st es \<sigma>"
  shows "(\<forall>(i, r) \<in> set (x_jobs st).
      (\<exists>job \<in> set (in_flight \<sigma>). job_id job = i \<and> \<not> m_finished job) \<or>
      (\<exists>e \<in> set (es @ mq_events (main_queue st)). ev_jobId e = i \<and> ev_kind e = Kind_Complete)) \<and>
    (mq_hasEvents (main_queue st) \<longleftrightarrow> mq_events (main_queue st) \<noteq> []) \<and>
    (\<forall>job \<in> set (in_flight \<sigma>). m_finished job \<or> job_id job \<in> fst ` set (x_jobs st) \<or>
       job_id job \<in> set (sy_cancels \<sigma> @ tt_cancelRequests (x_thread st)))"
proof (intro conjI)
  have inv: "program_inv st es \<sigma>" by (rule program_kept [OF assms])
  then have I: "sys_reach \<sigma>" "x_thread st = sy_thread \<sigma>" "answers_due st es \<sigma>" "cancel_due st \<sigma>" "main_inv {#} None st"
    by (simp_all add: program_inv_def)
  note Q = program_queue [OF inv]
  show "\<forall>(i, r) \<in> set (x_jobs st).
      (\<exists>job \<in> set (in_flight \<sigma>). job_id job = i \<and> \<not> m_finished job) \<or>
      (\<exists>e \<in> set (es @ mq_events (main_queue st)). ev_jobId e = i \<and> ev_kind e = Kind_Complete)"
  proof (intro ballI, clarify)
    fix i r
    assume m: "(i, r) \<in> set (x_jobs st)"
      and e: "\<not> (\<exists>e \<in> set (es @ mq_events (main_queue st)). ev_jobId e = i \<and> ev_kind e = Kind_Complete)"
    have al: "alive st i" using m alive_iff [OF I(5)] by force
    then obtain spec where spec: "spec \<in> set (sy_submitted \<sigma>)" "i = spec_id spec"
      using I(3) by (auto simp: answers_due_def)
    show "\<exists>job \<in> set (in_flight \<sigma>). job_id job = i \<and> \<not> m_finished job"
    proof (rule ccontr)
      assume "\<not> ?thesis"
      then have "completed_once (events_of i \<sigma>)" using finished_stream [OF I(1) spec(1)] spec(2) by simp
      then obtain c where "c \<in> set (events \<sigma>)" "ev_jobId c = i" "ev_kind c = Kind_Complete"
        using completed_once_mem by blast
      with Q(2) e al show False by auto
    qed
  qed
  show "mq_hasEvents (main_queue st) \<longleftrightarrow> mq_events (main_queue st) \<noteq> []"
    by (subst Q(1)) (simp add: queue_of_def)
  show "\<forall>job \<in> set (in_flight \<sigma>). m_finished job \<or> job_id job \<in> fst ` set (x_jobs st) \<or>
       job_id job \<in> set (sy_cancels \<sigma> @ tt_cancelRequests (x_thread st))"
    using I(4) unfolding cancel_due_def alive_iff [OF I(5)] I(2) in_flight_def pending_def by auto
qed

section \<open>Streams do not stall\<close>

lemma active_flow:
  assumes "sys_reach \<sigma>" and "job \<in> set (tt_active (sy_thread \<sigma>))" and "m_attached job" and "m_paused job"
  shows "kStreamLowWater \<le> m_pendingStreamBytes job"
proof -
  obtain fs where "job_reach (m_spec job) fs (alone \<sigma> job) (sy_wires \<sigma> (job_id job))"
    using sys_invD(5) [OF sys_reach_inv [OF assms(1)]] assms(2) by (auto simp: active_ok_def)
  from reach_flow [OF this] assms(3,4) show ?thesis
    by (simp add: flow_inv_def alone_def job_ctx_of_def rest_job.extend_def)
qed

text \<open>
  C5: Back-pressure cannot deadlock. For every running job, the bytes it counts as outstanding are
  exactly those of its data events that are still to be handled, in this frame or in the queue, plus
  the credits on their way to it; none is counted twice and none is lost. A paused transfer always
  has at least a mebibyte outstanding, so there is always an event or a credit to come that wakes it
  up. The only exception is a job whose plugin has dropped it: that one is about to be cancelled.
\<close>

theorem streams_never_stall:
  assumes "program script st es \<sigma>" and "job \<in> set (tt_active (x_thread st))" and "\<not> m_finished job"
  shows "job_id job \<in> set (sy_cancels \<sigma> @ tt_cancelRequests (x_thread st)) \<or>
    m_pendingStreamBytes job = data_of (job_id job) (es @ mq_events (main_queue st)) + asked (job_id job) \<sigma> \<and>
    (m_attached job \<and> m_paused job \<longrightarrow> kStreamLowWater \<le> m_pendingStreamBytes job)"
proof (cases "job_id job \<in> set (sy_cancels \<sigma> @ tt_cancelRequests (x_thread st))")
  case False
  have inv: "program_inv st es \<sigma>" by (rule program_kept [OF assms(1)])
  then have I: "sys_reach \<sigma>" "x_thread st = sy_thread \<sigma>" "cancel_due st \<sigma>" "credit_due st es \<sigma>"
    by (simp_all add: program_inv_def)
  have job: "job \<in> set (tt_active (sy_thread \<sigma>))" using assms(2) I(2) by simp
  have "alive st (job_id job)"
    using I(3) job assms(3) False unfolding cancel_due_def I(2) by auto
  then have c: "sy_applied \<sigma> (job_id job) + asked (job_id job) \<sigma> + data_of (job_id job) es = data_of (job_id job) (sy_log \<sigma>)"
    using I(4) by (simp add: credit_due_def given_eq)
  have "balance_ok \<sigma>" using sys_reach_kept [OF I(1)] by (simp add: kept_def flow_ok_def)
  then have "m_pendingStreamBytes job = data_of (job_id job) (events \<sigma>) - sy_applied \<sigma> (job_id job)"
    using job assms(3) by (simp add: balance_ok_def data_of_def events_of_def)
  then have "m_pendingStreamBytes job = data_of (job_id job) (es @ mq_events (main_queue st)) + asked (job_id job) \<sigma>"
    using c by (simp add: events_def main_queue_def I(2))
  with active_flow [OF I(1) job] show ?thesis by blast
qed simp

section \<open>A plugin hears all of its stream\<close>

text \<open>A stream that completes once holds nothing after its completion.\<close>

lemma heard_all:
  assumes "completes (heard @ rest) = [] \<or> completed_once (heard @ rest)" and "completes heard \<noteq> []"
  shows "rest = []"
proof (rule ccontr)
  assume ne: "rest \<noteq> []"
  have "completes (heard @ rest) \<noteq> []" using assms(2) by (simp add: completes_def)
  with assms(1) obtain ds e where d: "heard @ rest = ds @ [e]" "completes ds = []" by (auto simp: completed_once_def)
  then have "ds = heard @ butlast rest" using ne by (metis butlast_append butlast_snoc)
  with d(2) assms(2) show False by (simp add: completes_def)
qed

lemma stream_completes:
  assumes "sys_reach \<sigma>" and "spec \<in> set (sy_submitted \<sigma>)"
  shows "completes (events_of (spec_id spec) \<sigma>) = [] \<or>
    completed_once (events_of (spec_id spec) \<sigma>) \<and>
    (ev_status (last (events_of (spec_id spec) \<sigma>)) = RestStatus_Ok \<longrightarrow>
       delivered_as_asked spec (sy_wires \<sigma> (spec_id spec)) (events_of (spec_id spec) \<sigma>))"
proof (cases "\<exists>job \<in> set (in_flight \<sigma>). job_id job = spec_id spec \<and> \<not> m_finished job")
  case True
  then obtain job where "job \<in> set (in_flight \<sigma>)" "job_id job = spec_id spec" "\<not> m_finished job" by blast
  from running_no_complete [OF assms(1) this(1,3)] this(2) show ?thesis
    by (auto simp: completes_def events_of_def filter_empty_conv is_kind_def)
next
  case False
  from finished_stream [OF assms False] show ?thesis by blast
qed

text \<open>
  C6: A plugin hears all of its stream, in order and once. In every run, the events of a request are
  handled in the order they were posted; those not handled yet are in this frame or in the queue. The
  calls made to its callbacks so far are exactly those that the handled events ask for, one after the
  other, under the answers SourceMod gave at each of them and for the record the job had then. That
  record is always the same one, from the first event up to the one at which the job left the table,
  and the others have none; a job that is still in the table has had it at every event. Nothing comes
  after the completion. So if the completion of a streamed request met the record and said \<open>Ok\<close>, and
  the data callback was there at each of its events, then the pieces the plugin was given, put together,
  are exactly the bytes that libcurl delivered.
\<close>

theorem plugin_hears_its_stream:
  assumes "observed script hs st es \<sigma>" and "spec \<in> set (sy_submitted \<sigma>)"
  defines "i \<equiv> spec_id spec"
  defines "mine \<equiv> of_job i hs" and "ahead \<equiv> filter (\<lambda>e. ev_jobId e = i) (es @ mq_events (main_queue st))"
  shows "events_of i \<sigma> = map hd_event mine @ ahead \<and>
    calls_for i st =
      concat (map (\<lambda>h. case hd_record h of None \<Rightarrow> [] | Some r \<Rightarrow> expected_calls (hd_answers h) r (hd_event h)) mine) \<and>
    (\<exists>r heard rest. mine = heard @ rest \<and> (\<forall>h \<in> set heard. hd_record h = Some r) \<and>
       (\<forall>h \<in> set rest. hd_record h = None) \<and>
       (i \<in> fst ` set (x_jobs st) \<longrightarrow> map_of (x_jobs st) i = Some r \<and> rest = [])) \<and>
    (\<forall>h \<in> set mine. ev_kind (hd_event h) = Kind_Complete \<longrightarrow> h = last mine \<and> ahead = []) \<and>
    (\<forall>r f. mine \<noteq> [] \<and> ev_kind (hd_event (last mine)) = Kind_Complete \<and>
       ev_status (hd_event (last mine)) = RestStatus_Ok \<and> hd_record (last mine) = Some r \<and>
       spec_streamData spec \<and> spec_outputPath spec = [] \<and>
       jr_data r = Some f \<and> (\<forall>h \<in> set mine. sm_function_count (hd_answers h) f \<noteq> 0) \<longrightarrow>
       given_bytes i st = wr_taken (sy_wires \<sigma> i))"
proof -
  have "program script st es \<sigma>" by (rule observed_program [OF assms(1)])
  then have inv: "program_inv st es \<sigma>" by (rule program_kept)
  then have I: "sys_reach \<sigma>" "x_thread st = sy_thread \<sigma>" "main_inv {#} None st" by (simp_all add: program_inv_def)
  have log: "sy_log \<sigma> = map hd_event hs @ es" and t: "told st hs i"
    using observed_told [OF assms(1)] by (simp_all add: told_ok_def)
  have ev: "events_of i \<sigma> = map hd_event mine @ ahead"
    by (simp add: events_of_def events_def log mine_def of_job_def ahead_def main_queue_def I(2) filter_map o_def)
  have calls: "calls_for i st =
      concat (map (\<lambda>h. case hd_record h of None \<Rightarrow> [] | Some r \<Rightarrow> expected_calls (hd_answers h) r (hd_event h)) mine)"
    using t by (simp add: told_def mine_def asked_by_def [abs_def])
  obtain r0 heard rest where h: "mine = heard @ rest" "\<forall>h \<in> set heard. hd_record h = Some r0" "\<forall>h \<in> set rest. hd_record h = None"
      "\<forall>q. row st i = Some q \<longrightarrow> rest = [] \<and> q = r0"
    using t unfolding told_def mine_def by blast
  have tab: "i \<in> fst ` set (x_jobs st) \<longrightarrow> map_of (x_jobs st) i = Some r0 \<and> rest = []"
  proof
    assume "i \<in> fst ` set (x_jobs st)"
    then obtain q where q: "row st i = Some q" using alive_iff [OF I(3), of i] by (auto simp: alive_def)
    with h(4) have "rest = []" "q = r0" by simp_all
    with q row_main [OF I(3), of i] show "map_of (x_jobs st) i = Some r0 \<and> rest = []" by simp
  qed
  note S = stream_completes [OF I(1) assms(2), folded i_def, unfolded ev]
  have last: "h = last mine \<and> ahead = []" if "h \<in> set mine" "ev_kind (hd_event h) = Kind_Complete" for h
  proof -
    from that(1) obtain xs ys where m: "mine = xs @ h # ys" by (meson split_list)
    have "completes (map hd_event (xs @ [h])) \<noteq> []" using that(2) by (simp add: completes_def is_kind_def)
    with S have "map hd_event ys @ ahead = []"
      using heard_all [of "map hd_event (xs @ [h])" "map hd_event ys @ ahead"] by (auto simp: m)
    then show ?thesis by (simp add: m)
  qed
  have bytes: "given_bytes i st = wr_taken (sy_wires \<sigma> i)"
    if ok: "mine \<noteq> []" "ev_kind (hd_event (last mine)) = Kind_Complete" "ev_status (hd_event (last mine)) = RestStatus_Ok"
      "hd_record (last mine) = Some r" "spec_streamData spec" "spec_outputPath spec = []"
      and f: "jr_data r = Some f" "\<forall>h \<in> set mine. sm_function_count (hd_answers h) f \<noteq> 0" for r f
  proof -
    have l: "last mine \<in> set mine" using ok(1) by simp
    have ahead: "ahead = []" using last [OF l ok(2)] by blast
    have "completes (map hd_event mine) \<noteq> []" using l ok(2) by (auto simp: completes_def is_kind_def filter_empty_conv)
    with S ok ahead have d: "data_bytes (map hd_event mine) = wr_taken (sy_wires \<sigma> i)"
      by (auto simp: delivered_as_asked_def last_map)
    have "rest = []" using ok(1,4) h(1,3) by (cases rest rule: rev_cases) auto
    then have "\<forall>h \<in> set mine. hd_record h = Some r" using h(1,2) ok(4) l by auto
    with f have "concat (map (call_body \<circ> snd) (concat (map asked_by mine))) = data_bytes (map hd_event mine)"
      by (intro asked_by_bytes) auto
    with d calls show ?thesis by (simp add: given_bytes_def asked_by_def [abs_def])
  qed
  show ?thesis
  proof (intro conjI)
    show "\<exists>r heard rest. mine = heard @ rest \<and> (\<forall>h \<in> set heard. hd_record h = Some r) \<and>
       (\<forall>h \<in> set rest. hd_record h = None) \<and>
       (i \<in> fst ` set (x_jobs st) \<longrightarrow> map_of (x_jobs st) i = Some r \<and> rest = [])"
      using h(1-3) tab by blast
  qed (use ev calls last bytes in auto)
qed

section \<open>A concrete program\<close>

text \<open>A plugin creates a client and a request with a data callback, and sends it as job 1.\<close>

definition stream_actions :: "plugin_action list" where
  "stream_actions =
     [ActNative ''RESTClient.RESTClient'' (demo_sm 1 None) demo_px (\<lambda>_. 100),
      ActNative ''RESTClient.Request'' (demo_sm 2 None) demo_px (\<lambda>i. if i = 1 then 1 else if i = 2 then 0 else 200),
      ActNative ''RESTRequest.OnData'' (demo_sm 3 (Some 10)) demo_px (\<lambda>i. if i = 1 then 2 else 7),
      ActNative ''RESTRequest.Send'' (demo_sm 3 (Some 11)) demo_px (\<lambda>i. if i = 1 then 2 else 9)]"

definition demo_load :: load_answers where
  "demo_load = \<lparr>la_curl_init = True, la_create_type = \<lambda>_. True, la_multi_init = True\<rparr>"

definition demo_loaded :: rest_state where
  "demo_loaded = snd (sdk_on_load demo_load (demo_sm 1 None) 256 (rest_start Map.empty))"

definition demo_sent :: rest_state where
  "demo_sent = fold run_action stream_actions demo_loaded"

definition thread_jobs :: "rest_state \<Rightarrow> rest_job list" where
  "thread_jobs st = tt_active (x_thread st) @ tt_incoming (x_thread st)"

lemma apart_few: "length (in_flight \<sigma>) \<le> 1 \<Longrightarrow> apart_ok \<sigma>"
  by (cases "in_flight \<sigma>") (auto simp: apart_ok_def)

lemma program_actions:
  assumes "program script st [] \<sigma>" and "sy_taken \<sigma> = []" and "x_thread st = sy_thread \<sigma>"
    and "list_all (\<lambda>n. length (thread_jobs (fold run_action (take n actions) st)) \<le> 1) [0..<Suc (length actions)]"
  shows "\<exists>\<tau>. program script (fold run_action actions st) [] \<tau> \<and> sy_taken \<tau> = [] \<and>
    x_thread (fold run_action actions st) = sy_thread \<tau> \<and> sy_cancels \<tau> = sy_cancels \<sigma> \<and> sy_credits \<tau> = sy_credits \<sigma>"
  using assms
proof (induction actions arbitrary: st \<sigma>)
  case Nil
  then show ?case by auto
next
  case (Cons action actions)
  let ?u = "run_action action st" and ?\<tau> = "follow st (run_action action st) \<sigma>"
  have all: "n \<le> Suc (length actions) \<Longrightarrow> length (thread_jobs (fold run_action (take n (action # actions)) st)) \<le> 1" for n
    using Cons.prems(4) by (simp add: list_all_iff del: upt_Suc take_Suc_Cons)
  have \<tau>: "sy_taken ?\<tau> = []" "x_thread ?u = sy_thread ?\<tau>" "sy_cancels ?\<tau> = sy_cancels \<sigma>" "sy_credits ?\<tau> = sy_credits \<sigma>"
    using Cons.prems(2) by (simp_all add: follow_def)
  have "length (in_flight ?\<tau>) \<le> 1"
    using all [of 1] Cons.prems(2) by (simp add: in_flight_def pending_def follow_def thread_jobs_def)
  then have p: "program script ?u [] ?\<tau>" by (intro program.act [OF Cons.prems(1)] apart_few)
  have "list_all (\<lambda>n. length (thread_jobs (fold run_action (take n actions) ?u)) \<le> 1) [0..<Suc (length actions)]"
    using all [of "Suc _"] by (simp add: list_all_iff del: upt_Suc)
  from Cons.IH [OF p \<tau>(1,2) this] \<tau>(3,4) show ?case by simp
qed

lemma demo_sent_checks:
  "fst (sdk_on_load demo_load (demo_sm 1 None) 256 (rest_start Map.empty)) = None"
  "list_all (\<lambda>n. length (thread_jobs (fold run_action (take n stream_actions) demo_loaded)) \<le> 1)
     [0..<Suc (length stream_actions)]"
  "map fst (x_jobs demo_sent) = [1]" "map job_id (tt_incoming (x_thread demo_sent)) = [1]"
  "tt_active (x_thread demo_sent) = []" "mq_events (main_queue demo_sent) = []"
  by code_simp+

lemma demo_sent_program:
  "\<exists>\<sigma>. program script demo_sent [] \<sigma> \<and> sy_taken \<sigma> = [] \<and> x_thread demo_sent = sy_thread \<sigma> \<and>
     sy_cancels \<sigma> = [] \<and> sy_credits \<sigma> = []"
proof -
  have l: "program script demo_loaded [] (sys_boot Map.empty)" "x_thread demo_loaded = sy_thread (sys_boot Map.empty)"
    unfolding demo_loaded_def using demo_sent_checks(1) load_thread by (auto intro: program.load)
  have "sy_taken (sys_boot Map.empty) = []" "sy_cancels (sys_boot Map.empty) = []" "sy_credits (sys_boot Map.empty) = []"
    by (simp_all add: sys_boot_def)
  with program_actions [OF l(1) _ l(2) demo_sent_checks(2)] show ?thesis by (simp add: demo_sent_def)
qed

lemma no_request_is_forgotten_witness:
  "\<exists>\<sigma>. program demo_script demo_sent [] \<sigma> \<and> (\<exists>job \<in> set (in_flight \<sigma>). job_id job = 1 \<and> \<not> m_finished job)"
proof -
  obtain \<sigma> where p: "program demo_script demo_sent [] \<sigma>" using demo_sent_program by blast
  have "1 \<in> fst ` set (x_jobs demo_sent)" using demo_sent_checks(3) by (metis list.set_intros(1) set_map)
  with no_request_is_forgotten [OF p] demo_sent_checks(6) p show ?thesis by fastforce
qed

text \<open>The transfer thread takes the job and begins its attempt; the server sends more than the client takes.\<close>

definition big_chunk :: string where
  "big_chunk = replicate 4194304 (CHR ''x'')"

definition stream_writes :: "job_input list" where
  "stream_writes = [InWrite host_default 200 big_chunk, InWrite host_default 200 ''y'']"

definition sent_spec :: request_spec where
  "sent_spec = m_spec (hd (tt_incoming (x_thread demo_sent)))"

lemma big_chunk_length: "length big_chunk = 4194304" "big_chunk \<noteq> []"
proof -
  show l: "length big_chunk = 4194304" unfolding big_chunk_def by (rule length_replicate)
  then show "big_chunk \<noteq> []" by auto
qed

lemma sent_spec_checks:
  "spec_id sent_spec = 1" "spec_outputPath sent_spec = []" "spec_streamData sent_spec"
  "to_u32 (cfg_chunkSize (spec_config sent_spec)) = 16384"
  "fst (open_files host_default ((attempt_base (job_start sent_spec Map.empty))\<lparr>m_easy := Some []\<rparr>))"
  "tt_cancelRequests (x_thread demo_sent) = []" "tt_consumeRequests (x_thread demo_sent) = []"
  by code_simp+

lemma stream_begins:
  "begin_attempt host_default (job_start sent_spec Map.empty) = (True, begun_state host_default (job_start sent_spec Map.empty))"
  by (rule begin_attempt_ok) (simp_all add: start_fields demo_hosts sent_spec_checks)

abbreviation sent_begun :: job_ctx where
  "sent_begun \<equiv> begun_state host_default (job_start sent_spec Map.empty)"

lemma sent_writes:
  "write_callback host_default 200 data (s :: job_ctx) = write_stream data s" if "m_spec s = sent_spec"
  using that sent_spec_checks by (simp add: write_callback_def sink_for_def is_success_def)

lemma stream_fills:
  "fst (write_stream big_chunk sent_begun) = Wrote 4194304"
  "m_spec (snd (write_stream big_chunk sent_begun)) = sent_spec"
  "m_attached (snd (write_stream big_chunk sent_begun))" "\<not> m_paused (snd (write_stream big_chunk sent_begun))"
  "\<not> m_finished (snd (write_stream big_chunk sent_begun))"
  "kStreamHighWater \<le> m_pendingStreamBytes (snd (write_stream big_chunk sent_begun))"
  "\<exists>e. posted (snd (write_stream big_chunk sent_begun)) = [e] \<and> ev_kind e = Kind_Data \<and> ev_jobId e = 1"
  using sent_spec_checks(1,4) big_chunk_length
  by (simp_all add: write_stream_def flush_stream_def post_event_def queue_default_def queue_post_def frame_simps start_fields kStreamHighWater_def Let_def)

lemma stream_pauses:
  "kStreamHighWater \<le> m_pendingStreamBytes s \<Longrightarrow> write_stream data s = (WritePause, s\<lparr>m_paused := True\<rparr>)"
  by (simp add: write_stream_def)

lemma stream_run:
  assumes "w = wire_step (InBegin host_default) (job_start sent_spec Map.empty) v"
  shows "job_run_enabled stream_writes (sent_begun, w)"
    and "m_paused (fst (job_run stream_writes (sent_begun, w)))" "m_attached (fst (job_run stream_writes (sent_begun, w)))"
      "\<not> m_finished (fst (job_run stream_writes (sent_begun, w)))"
      "m_spec (fst (job_run stream_writes (sent_begun, w))) = sent_spec"
      "\<exists>e. posted (fst (job_run stream_writes (sent_begun, w))) = [e] \<and> ev_kind e = Kind_Data \<and> ev_jobId e = 1"
  by (simp_all add: stream_writes_def assms big_chunk_length sent_writes stream_fills stream_pauses frame_simps
      start_fields Let_def)

lemma program_calls:
  assumes "program script st es \<sigma>" and "x_thread st = sy_thread \<sigma>"
    and "k < length (tt_active (sy_thread \<sigma>))" "job_id (tt_active (sy_thread \<sigma>) ! k) = jobId"
    and "job_run_enabled is (ctx_at k (sy_thread \<sigma>), sy_wires \<sigma> jobId)" and "list_all (\<lambda>i. \<not> is_request i) is"
  shows "program script (st\<lparr>x_thread := sy_thread (sys_calls k is \<sigma>)\<rparr>) es (sys_calls k is \<sigma>)"
  using assms
proof (induction "is" arbitrary: st \<sigma>)
  case Nil
  then show ?case using Nil(1) by (simp add: sys_calls_def flip: Nil(2))
next
  case (Cons i "is")
  note c = call_ctx [OF Cons.prems(3), of i, unfolded Cons.prems(4)]
  have "sys_enabled i k \<sigma>" using Cons.prems by (simp add: sys_enabled_def)
  then have "thread_step \<sigma> (sys_call i k \<sigma>)" using Cons.prems(6) by (intro thread_step.call) simp_all
  note p = program.thread [OF Cons.prems(1) this]
  have "k < length (tt_active (sy_thread (sys_call i k \<sigma>)))" using Cons.prems(3) c(2) by simp
  from Cons.IH [OF p _ this c(3)] Cons.prems(5,6) show ?case by (simp add: c(1,4) sys_calls_def)
qed

lemma demo_sent_world: "tt_world (x_thread demo_sent) = (Map.empty, queue_default)"
proof -
  have l: "x_thread demo_loaded = sy_thread (sys_boot Map.empty)"
    unfolding demo_loaded_def using demo_sent_checks(1) load_thread by blast
  have "main_inv {#} None demo_loaded" unfolding demo_loaded_def by (intro main_inv_load main_inv_start_state)
  then have "sends demo_loaded demo_sent" unfolding demo_sent_def by (intro sends_actions main_inv_next)
  then show ?thesis by (auto simp: sends_def asks_def same_beside_requests_def l sys_boot_def)
qed

lemma sys_calls_requests:
  "credits_of (sys_calls k is \<sigma>) = credits_of \<sigma>" "sy_cancels (sys_calls k is \<sigma>) = sy_cancels \<sigma>"
  "tt_cancelRequests (sy_thread (sys_calls k is \<sigma>)) = tt_cancelRequests (sy_thread \<sigma>)"
  by (induction "is" arbitrary: \<sigma>) (simp_all add: sys_calls_def call_credit call_select)

lemma demo_streaming:
  "\<exists>\<sigma> job. program script (demo_sent\<lparr>x_thread := sy_thread \<sigma>\<rparr>) [] \<sigma> \<and> tt_active (sy_thread \<sigma>) = [job] \<and>
     m_spec job = sent_spec \<and> m_attached job \<and> m_paused job \<and> \<not> m_finished job \<and>
     asked 1 \<sigma> = 0 \<and> sy_cancels \<sigma> = [] \<and> tt_cancelRequests (sy_thread \<sigma>) = [] \<and> pending \<sigma> = [] \<and>
     (\<exists>e. mq_events (snd (tt_world (sy_thread \<sigma>))) = [e] \<and> ev_kind e = Kind_Data \<and> ev_jobId e = 1)"
proof -
  obtain \<sigma> where p: "program script demo_sent [] \<sigma>" and \<sigma>: "sy_taken \<sigma> = []" "x_thread demo_sent = sy_thread \<sigma>"
      "sy_cancels \<sigma> = []" "sy_credits \<sigma> = []"
    using demo_sent_program by blast
  have reach: "sys_reach \<sigma>" using program_kept [OF p] by (simp add: program_inv_def)
  have "tt_incoming (sy_thread \<sigma>) = [hd (tt_incoming (sy_thread \<sigma>))]"
    using demo_sent_checks(4) \<sigma>(2) by (cases "tt_incoming (sy_thread \<sigma>)") auto
  moreover from this have "hd (tt_incoming (sy_thread \<sigma>)) \<in> set (pending \<sigma>)" by (metis UnCI list.set_intros(1) pending_def set_append)
  then have "hd (tt_incoming (sy_thread \<sigma>)) = new_job sent_spec"
    using sys_invD(1) [OF sys_reach_inv [OF reach]] by (simp add: names_ok_def sent_spec_def \<sigma>(2))
  ultimately have incoming: "tt_incoming (sy_thread \<sigma>) = [new_job sent_spec]" by simp
  let ?t = "sys_take \<sigma>" and ?a = "sys_admitted (sys_take \<sigma>)"
  have taken: "sy_taken ?t = [new_job sent_spec]" "tt_active (sy_thread ?t) = []"
      "tt_active (sy_thread ?a) = [new_job sent_spec]" "sy_wires ?a 1 = wire_start"
      "ctx_at 0 (sy_thread ?a) = job_start sent_spec Map.empty"
    using incoming demo_sent_checks(5) demo_sent_world sent_spec_checks(1)
    by (simp_all add: sys_take_def take_pending_def sys_admitted_def Let_def ctx_at_def job_start_def flip: \<sigma>(2))
  let ?b = "sys_admit host_default ?t"
  have "thread_step \<sigma> ?t" "thread_step ?t ?b" using \<sigma> taken(1) by (auto intro: thread_step.intros)
  from program.thread [OF program.thread [OF p this(1)] this(2)]
  have pb: "program script (demo_sent\<lparr>x_thread := sy_thread ?b\<rparr>) [] ?b" by simp
  note c = call_ctx [of 0 ?a "InBegin host_default"]
  have b: "length (tt_active (sy_thread ?b)) = 1" "job_id (tt_active (sy_thread ?b) ! 0) = 1"
      "ctx_at 0 (sy_thread ?b) = sent_begun"
      "sy_wires ?b 1 = wire_step (InBegin host_default) (job_start sent_spec Map.empty) wire_start"
    using c taken sent_spec_checks(1) stream_begins by (simp_all add: sys_admit_def)
  let ?c = "sys_calls 0 stream_writes ?b"
  have run: "(ctx_at 0 (sy_thread ?c), sy_wires ?c 1) = job_run stream_writes (sent_begun, sy_wires ?b 1)"
    using sys_calls_run [of 0 ?b 1 stream_writes] b by simp
  have "list_all (\<lambda>i. \<not> is_request i) stream_writes" by (simp add: stream_writes_def)
  with program_calls [OF pb _ _ b(2), of stream_writes] b stream_run(1) [OF b(4)]
  have pc: "program script (demo_sent\<lparr>x_thread := sy_thread ?c\<rparr>) [] ?c" by simp
  have requests: "credits_of ?c = []" "sy_cancels ?c = []" "tt_cancelRequests (sy_thread ?c) = []"
    using sent_spec_checks(6,7)
    by (simp_all add: sys_calls_requests sys_admit_def call_credit call_select)
       (simp_all add: credits_of_def sys_admitted_def sys_take_def take_pending_def Let_def flip: \<sigma>(2))
  have "length (tt_active (sy_thread ?c)) = 1" using b(1) by (simp add: sys_calls_rest)
  then obtain job where job: "tt_active (sy_thread ?c) = [job]" by (auto simp: length_Suc_conv)
  then have sel: "m_paused (ctx_at 0 (sy_thread ?c)) = m_paused job" "m_attached (ctx_at 0 (sy_thread ?c)) = m_attached job"
      "m_finished (ctx_at 0 (sy_thread ?c)) = m_finished job" "m_spec (ctx_at 0 (sy_thread ?c)) = m_spec job"
    by (simp_all add: ctx_at_def job_ctx_of_def rest_job.extend_def)
  have "m_paused job \<and> m_attached job \<and> \<not> m_finished job \<and> m_spec job = sent_spec"
    unfolding sel [symmetric] arg_cong [OF run, of fst, unfolded fst_conv] by (intro conjI stream_run [OF b(4)])
  moreover have "\<exists>e. mq_events (snd (tt_world (sy_thread ?c))) = [e] \<and> ev_kind e = Kind_Data \<and> ev_jobId e = 1"
    using stream_run(6) [OF b(4)] arg_cong [OF run, of fst, unfolded fst_conv, symmetric] by (simp add: ctx_at_def)
  moreover have "pending ?c = []" using taken(1)
    by (simp add: sys_calls_rest sys_admit_def) (simp add: pending_def sys_admitted_def sys_take_def take_pending_def Let_def incoming)
  ultimately show ?thesis using pc job requests by (intro exI [of _ ?c] exI [of _ job]) (simp add: asked_eq)
qed

lemma streams_never_stall_witness:
  "\<exists>st \<sigma> job. program demo_script st [] \<sigma> \<and> tt_active (x_thread st) = [job] \<and> m_attached job \<and> m_paused job \<and>
     kStreamLowWater \<le> data_of 1 (mq_events (main_queue st))"
proof -
  obtain \<sigma> job where p: "program demo_script (demo_sent\<lparr>x_thread := sy_thread \<sigma>\<rparr>) [] \<sigma>"
      and j: "tt_active (sy_thread \<sigma>) = [job]" "m_spec job = sent_spec" "m_attached job" "m_paused job" "\<not> m_finished job"
      and a: "asked 1 \<sigma> = 0" "sy_cancels \<sigma> = []" "tt_cancelRequests (sy_thread \<sigma>) = []"
    using demo_streaming by blast
  have "job_id job = 1" using j(2) sent_spec_checks(1) by (simp add: job_id_def)
  with streams_never_stall [OF p, of job] j a p show ?thesis
    by (intro exI [of _ "demo_sent\<lparr>x_thread := sy_thread \<sigma>\<rparr>"] exI [of _ \<sigma>] exI [of _ job]) simp
qed

text \<open>The next frame, with a plugin that only listens.\<close>

definition listening_script :: "plugin_call \<Rightarrow> rest_state \<Rightarrow> plugin_action list \<times> int" where
  "listening_script call st = ([], 0)"

lemma listening_handle:
  assumes "map_of (x_jobs st) (ev_jobId e) = Some r" and "ev_kind e = Kind_Data"
  shows "tt_incoming (x_thread (handle_event sm (plugin_of listening_script) e st)) = tt_incoming (x_thread st)"
    and "tt_active (x_thread (handle_event sm (plugin_of listening_script) e st)) = tt_active (x_thread st)"
  using assms
  by (auto simp: handle_event_def handle_intermediate_def dispatch_data_def execute_def plugin_of_def listening_script_def
      Let_def tt_consume_def split: option.split)

lemma listening_checks:
  "event_answers_ok (demo_sm 3 None) demo_sent"
  "map_option (\<lambda>r. (jr_id r, jr_data r)) (map_of (x_jobs demo_sent) 1) = Some (1, Some 10)"
  by code_simp+

lemma plugin_hears_its_stream_witness:
  "\<exists>hs st \<sigma>. observed listening_script hs st [] \<sigma> \<and> calls_for 1 st \<noteq> [] \<and>
     calls_for 1 st =
       concat (map (\<lambda>h. case hd_record h of None \<Rightarrow> [] | Some r \<Rightarrow> expected_calls (hd_answers h) r (hd_event h)) (of_job 1 hs))"
proof -
  obtain \<sigma> job e where p: "program listening_script (demo_sent\<lparr>x_thread := sy_thread \<sigma>\<rparr>) [] \<sigma>"
      and j: "tt_active (sy_thread \<sigma>) = [job]" "m_spec job = sent_spec" "pending \<sigma> = []"
      and e: "mq_events (snd (tt_world (sy_thread \<sigma>))) = [e]" "ev_kind e = Kind_Data" "ev_jobId e = 1"
    using demo_streaming by blast
  let ?st = "demo_sent\<lparr>x_thread := sy_thread \<sigma>\<rparr>"
  define st1 where "st1 = set_main_queue (snd (queue_drain (main_queue ?st))) ?st"
  define u where "u = handle_event (demo_sm 3 None) (plugin_of listening_script) e st1"
  have q: "mq_events (main_queue ?st) = [e]" using e(1) by (simp add: main_queue_def)
  have "mq_hasEvents (main_queue ?st)"
    using program_queue(1) [OF program_kept [OF p]] unfolding q by (simp add: queue_of_def)
  from program.drain [OF p this] have p1: "program listening_script st1 [e] (sys_drain \<sigma>)"
    by (simp add: st1_def queue_drain_def q)
  obtain r where r: "map_of (x_jobs st1) (ev_jobId e) = Some r" "jr_data r = Some 10"
    using listening_checks(2) by (auto simp: st1_def e(3))
  have ans: "event_answers_ok (demo_sm 3 None) st1" using listening_checks(1) by (simp add: event_answers_ok_def st1_def)
  have "length (in_flight (follow st1 u (sys_drain \<sigma>))) \<le> 1"
    using j(1,3) listening_handle [OF r(1) e(2), of "demo_sm 3 None"]
    by (simp add: in_flight_def pending_def follow_def u_def st1_def set_main_queue_def)
  then have p2: "program listening_script u [] (follow st1 u (sys_drain \<sigma>))"
    unfolding u_def by (intro program.handle [OF p1 ans] apart_few) (simp add: u_def)
  have main: "main_inv {#} None st1" using program_kept [OF p1] by (simp add: program_inv_def)
  have "calls_for 1 u \<noteq> []"
    using ph.handle_event_ok [OF main ans, of listening_script e] r e(2)
      expected_calls_other [OF main r(1), of 1 "demo_sm 3 None"]
    by (auto simp: event_adds_def adds_def u_def calls_for_def e(3) expected_calls_def demo_sm_def Let_def)
  moreover have "sent_spec \<in> set (sy_submitted (follow st1 u (sys_drain \<sigma>)))"
  proof -
    have "names_ok \<sigma>" using program_kept [OF p] sys_invD(1) [OF sys_reach_inv] by (simp add: program_inv_def)
    then show ?thesis using j by (simp add: names_ok_def in_flight_def follow_def)
  qed
  moreover obtain hs where o: "observed listening_script hs u [] (follow st1 u (sys_drain \<sigma>))"
    using program_observed [OF p2] by blast
  ultimately show ?thesis
    using plugin_hears_its_stream [OF o, of sent_spec, THEN conjunct2, THEN conjunct1] o
    by (intro exI [of _ hs] exI [of _ u] exI [of _ "follow st1 u (sys_drain \<sigma>)"]) (simp add: sent_spec_checks(1))
qed

end
