(* ===== verification/Spec2Isabelle.thy ===== *)
theory Spec2Isabelle
  imports Rest_Guarantees Rest_Resources Rest_Send Rest_Rounds Rest_Promises
begin

text \<open>
  A verification library for \<open>sm-rest\<close>, the HTTP client extension for SourceMod: the C++ code under
  \<open>src/\<close> of the repository.

  \<^bold>\<open>The program.\<close> A plugin configures a client and a request through natives (\<open>natives.cpp\<close>) and sends
  it. The extension (\<open>extension.cpp\<close>) gives the request an id, keeps a record with the callbacks of
  the plugin, and hands the request as a job to the transfer thread (\<open>transfer_thread.cpp\<close>). The
  thread begins and retries attempts, lets libcurl drive them, and removes finished jobs; the job
  (\<open>job.cpp\<close>) configures the libcurl handle, takes the response from the callbacks of libcurl and
  decides what the end of an attempt means. What the plugin has to hear travels as events through a
  locked queue (\<open>main_thread_queue.cpp\<close>), which the main thread drains every game frame to execute the
  callbacks; the bytes of data events are credited back to the job, which pauses a transfer that
  runs ahead. \<open>text.cpp\<close> and \<open>uri.cpp\<close> are helpers, \<open>request.h\<close> is the data.

  \<^bold>\<open>The theories\<close>, in the order of the code's layers.

  \<^item> \<open>Rest_Prelude\<close>: integers of the C++ types with their wrap-around, C strings, list lemmas.
  \<^item> \<open>Rest_Text\<close>, \<open>Rest_Uri\<close>, \<open>Rest_Request\<close>: \<open>text.cpp\<close>, \<open>uri.cpp\<close>, \<open>request.h\<close>. Header lists refine a map on
    case-folded names; percent encoding has an inverse; URLs join with one slash.
  \<^item> \<open>Rest_Queue\<close>: \<open>main_thread_queue.cpp\<close>, with the contract of a FIFO as a locale.
  \<^item> \<open>Rest_Host\<close>: files as a map from paths to contents, with streams that are buffered until \<open>fclose\<close>, which
    can lose what the device does not take; and the answers of the environment.
  \<^item> \<open>Rest_Job\<close>, \<open>Rest_Setup\<close>, \<open>Rest_Callbacks\<close>, \<open>Rest_Lifecycle\<close>: the record \<open>rest_job\<close> has the members of
    \<open>class RestJob\<close> under their names; one definition per member function. \<open>Rest_Setup\<close> also shows what the
    configured handle makes libcurl do, for every combination of method, body and options.
  \<^item> \<open>Rest_Machine\<close>: a job as a state machine whose inputs are the calls of the thread and of libcurl
    (\<open>job_reach\<close>). \<open>Rest_Events\<close> says what the operations leave alone, and the invariants follow by rule
    induction: the life cycle and the events (\<open>Rest_Life\<close>), the bytes (\<open>Rest_Delivery\<close>), the flow
    control (\<open>Rest_Flow\<close>), the files (\<open>Rest_Files\<close>). \<open>Rest_Demo\<close> has concrete runs, \<open>Rest_Guarantees\<close> the
    properties of a job, \<open>Rest_Resources\<close> that no handle, form or file is leaked.
  \<^item> \<open>Rest_Local\<close>: a job does not look at the queue it posts to. \<open>Rest_Transfer\<close> is \<open>transfer_thread.cpp\<close>,
    with the contract between the thread and its jobs as a locale; \<open>Rest_Thread\<close> has the properties of
    the phases of its loop and of \<open>Stop\<close>.
  \<^item> \<open>Rest_System\<close>: all jobs, the queue, the files and the main thread's calls interleaved
    (\<open>sys_reach\<close>); its invariant carries every statement about one job over to the jobs of the thread.
    \<open>Rest_Balance\<close> and \<open>Rest_Credit\<close> account for streamed bytes: those a job counts as outstanding are
    those it posted less those credited. \<open>Rest_Streams\<close> states what the main thread receives for each
    request, \<open>Rest_Rounds\<close> that the loop of the code is a run of that step relation, and what a round makes
    of every job: it is worked on still, or its events have ended with one completion.
  \<^item> \<open>Rest_Objects\<close>, \<open>Rest_Extension\<close>, \<open>Rest_Natives\<close>, \<open>Rest_Native_Table\<close>: \<open>extension.h\<close>, \<open>extension.cpp\<close> and
    \<open>natives.cpp\<close> with all natives; what the program asks of SourceMod is appended to a log of effects.
  \<^item> \<open>Rest_Ownership\<close>: every callback has one owner (\<open>main_inv\<close>). \<open>Rest_Session\<close> shows that natives keep it,
    \<open>Rest_Dispatch\<close> that the handling of events keeps it whatever the plugin does in a callback (the
    locale \<open>plugin_host\<close>, interpreted for every script of actions), \<open>Rest_Main\<close> and \<open>Rest_Main_Facts\<close> draw
    the conclusions for whole sessions.
  \<^item> \<open>Rest_Native_Facts\<close>, \<open>Rest_Send\<close>: errors of natives, what is read back, what a request sends.
  \<^item> \<open>Rest_Asks\<close>, \<open>Rest_Program\<close>: the session of the main thread and the system joined into one program
    (\<open>program\<close>), in which the transfer thread runs between any two actions of plugins and any two
    events of a frame. What the main thread does to the transfer thread is shown to be steps of the
    system, so the statements about the system hold of the program. \<open>Rest_Told\<close> adds the history of the
    handled events (\<open>observed\<close>) and relates the calls a plugin gets to it, \<open>Rest_Promises\<close> concludes that every request is answered,
    no stream stalls and a plugin hears all of its stream, with a program that pauses one.

  \<^bold>\<open>Correspondence.\<close> Definitions have the names of the C++ functions in snake case, constructors and
  members their own; natives are \<open>native_*\<close>, methods of the thread \<open>tt_*\<close> where the name is taken. \<open>int\<close>
  values are \<open>int\<close> with explicit conversions (\<open>to_i32\<close>, \<open>to_u32\<close>, \<open>to_i64\<close>) where the code converts or may wrap;
  \<open>std::string\<close> is \<open>string\<close>, cut at a NUL where it goes through \<open>c_str()\<close>. A pointer to a job is its
  index, a \<open>FILE *\<close> its path, position and the size its file can reach. Each function that holds a mutex for its whole effect is one step.
  Recursion is structural everywhere; no fuel is used.

  \<^bold>\<open>Parameters.\<close> libcurl, SourceMod and the plugins are not under \<open>src/\<close>. libcurl is an arbitrary
  sequence of the calls its documentation allows (\<open>job_enabled\<close>), and the list of options set on a
  handle; SourceMod is a record of answers; a plugin is any function from a call to a list of actions.
  The system step relation assumes that a request's id is fresh, as the counter guarantees until it
  overflows, and that no two requests in flight share an output path, which the code does not check.

  \<^bold>\<open>Not modelled.\<close> Directories: \<open>EnsureParentDirectory\<close> ignores its errors, and what it achieves is part of
  whether the next \<open>fopen\<close> succeeds. The iteration order of
  \<open>std::unordered_map\<close>, taken to be that of an association list. Memory, except what a job holds of
  libcurl and of the C library. In \<open>session\<close> a frame of the main thread is one step, in \<open>program\<close> the
  handling of one event is. \<open>program\<close> starts with a load that succeeds and ends before the unload, which
  \<open>session\<close> has. \<open>smsdk_config.h\<close> is preprocessor configuration; build files, CI, the SourcePawn include
  and the test plugins are not C++ code.
\<close>

end
